(* ===== verification/Prelude.thy ===== *)
theory Prelude
  imports Main "HOL-Library.Word" "HOL-Library.Monad_Syntax" "HOL-Library.Multiset"
begin

text \<open>
  What every component of the development shares: the names of the machine types, the
  reading of a Rust panic as \<open>None\<close> (and of \<open>expect\<close> and \<open>unwrap\<close> as the step from a
  \<open>Result\<close> into it), clock readings, and the generic lemmas on lists and association lists that
  the component proofs use. The theorem collections declared here are filled by the
  components: \<open>panic_free\<close> holds the facts that a partial operation of the code returns.
\<close>

named_theorems panic_free \<open>facts that an operation that could panic returns\<close>

type_synonym u8 = "8 word"
type_synonym u16 = "16 word"
type_synonym u32 = "32 word"
type_synonym bytes = "u8 list"

subsection \<open>Panics\<close>

text \<open>
  A Rust computation that may panic has an \<open>option\<close> type: \<open>None\<close> is the panic. A \<open>Result\<close> is a
  sum with the error on the left.
\<close>

fun expect :: "'e + 'a \<Rightarrow> 'a option" where
  "expect (Inl e) = None"
| "expect (Inr a) = Some a"

lemma expect_eq_Some [simp]: "expect r = Some a \<longleftrightarrow> r = Inr a"
  by (cases r) auto

fun is_ok :: "'e + 'a \<Rightarrow> bool" where
  "is_ok (Inl e) = False"
| "is_ok (Inr a) = True"

lemma is_ok_iff: "is_ok r \<longleftrightarrow> (\<exists>a. r = Inr a)"
  by (cases r) auto

subsection \<open>Clock readings\<close>

text \<open>
  \<open>std::time::Instant\<close> is a reading of a monotonic clock, here in nanoseconds. A \<open>Duration\<close> is a
  number of nanoseconds.
\<close>

datatype instant = Instant (nanos: nat)

type_synonym duration = nat

instantiation instant :: linorder
begin

definition less_eq_instant :: "instant \<Rightarrow> instant \<Rightarrow> bool" where
  "less_eq_instant a b \<longleftrightarrow> nanos a \<le> nanos b"

definition less_instant :: "instant \<Rightarrow> instant \<Rightarrow> bool" where
  "less_instant a b \<longleftrightarrow> nanos a < nanos b"

instance
  by standard (auto simp: less_eq_instant_def less_instant_def instant.expand)

end

lemma Instant_le [simp]: "Instant a \<le> Instant b \<longleftrightarrow> a \<le> b"
  by (simp add: less_eq_instant_def)

lemma Instant_less [simp]: "Instant a < Instant b \<longleftrightarrow> a < b"
  by (simp add: less_instant_def)

fun plus_duration :: "instant \<Rightarrow> duration \<Rightarrow> instant" where
  "plus_duration (Instant n) d = Instant (n + d)"

fun duration_since :: "instant \<Rightarrow> instant \<Rightarrow> duration" where
  "duration_since (Instant n) (Instant m) = n - m"

lemma plus_duration_mono: "s \<le> t \<Longrightarrow> plus_duration s d \<le> plus_duration t d"
  by (cases s; cases t) simp

lemma plus_duration_ge [simp]: "t \<le> plus_duration t d"
  by (cases t) simp

lemma plus_duration_gt [simp]: "t < plus_duration t d \<longleftrightarrow> 0 < d"
  by (cases t) simp

definition duration_from_secs :: "nat \<Rightarrow> duration" where
  "duration_from_secs s = s * 1000000000"

subsection \<open>Lists and association lists\<close>

lemma filter_length_eq_iff: "length (filter P xs) = length xs \<longleftrightarrow> (\<forall>x\<in>set xs. P x)"
  by (metis filter_True filter_id_conv length_filter_less nat_neq_iff)

lemma map_of_filter_key_None [simp]:
  "k \<notin> fst ` set xs \<Longrightarrow> map_of (filter P xs) k = None"
  by (auto simp: map_of_eq_None_iff)

lemma map_of_filter_distinct:
  assumes "distinct (map fst xs)"
  shows "map_of (filter P xs) k =
    (case map_of xs k of None \<Rightarrow> None | Some v \<Rightarrow> if P (k, v) then Some v else None)"
  using assms
proof (induction xs)
  case Nil
  then show ?case by simp
next
  case (Cons x xs)
  show ?case
  proof (cases "fst x = k")
    case True
    with Cons.prems have "k \<notin> fst ` set xs" by auto
    with True show ?thesis by (cases x) auto
  next
    case False
    with Cons show ?thesis by (cases x) auto
  qed
qed

lemma distinct_map_filter_key: "distinct (map f xs) \<Longrightarrow> distinct (map f (filter P xs))"
  by (induction xs) auto

lemma sum_list_filter_eq_0:
  fixes f :: "'a \<Rightarrow> nat"
  assumes "\<And>x. x \<in> set xs \<Longrightarrow> \<not> P x \<Longrightarrow> f x = 0"
  shows "sum_list (map f (filter P xs)) = sum_list (map f xs)"
  using assms by (induction xs) auto

lemma sum_list_map_mono_eq:
  fixes f g :: "'a \<Rightarrow> nat"
  assumes "\<And>x. x \<in> set xs \<Longrightarrow> f x \<le> g x"
    and "sum_list (map f xs) = sum_list (map g xs)" and "x \<in> set xs"
  shows "f x = g x"
  using assms
proof (induction xs)
  case Nil
  then show ?case by simp
next
  case (Cons y ys)
  have "sum_list (map f ys) \<le> sum_list (map g ys)"
    using Cons.prems(1) by (intro sum_list_mono) auto
  moreover have "f y \<le> g y" using Cons.prems(1) by simp
  ultimately have "f y = g y" and "sum_list (map f ys) = sum_list (map g ys)"
    using Cons.prems(2) by auto
  with Cons show ?case by auto
qed

end
