(* ===== verification/Rust_Std.thy ===== *)
theory Rust_Std
  imports Prelude
begin

text \<open>
  The parts of Rust's \<open>core\<close> and \<open>std\<close> that the program uses on strings, integers and bytes. A
  Rust \<open>String\<close> is the list of its UTF-8 bytes, each an Isabelle \<open>char\<close> (which is exactly an
  8-bit byte), so \<open>length\<close> is Rust's \<open>len\<close>. \<open>to_lowercase\<close> is Rust's on ASCII text and keeps
  every other byte; the strings the program lower-cases are DNS names in their ASCII
  presentation form (\<open>Name::to_ascii\<close>) or already folded configuration values.
\<close>

subsection \<open>Case folding\<close>

definition ascii_lower :: "char \<Rightarrow> char" where
  "ascii_lower c =
     (if 65 \<le> (of_char c :: nat) \<and> (of_char c :: nat) \<le> 90 then char_of ((of_char c :: nat) + 32) else c)"

definition to_ascii_lowercase :: "string \<Rightarrow> string" where
  "to_ascii_lowercase s = map ascii_lower s"

definition to_lowercase :: "string \<Rightarrow> string" where
  "to_lowercase s = map ascii_lower s"

definition eq_ignore_ascii_case :: "string \<Rightarrow> string \<Rightarrow> bool" where
  "eq_ignore_ascii_case a b \<longleftrightarrow> to_ascii_lowercase a = to_ascii_lowercase b"

lemma of_char_ascii_lower:
  "(of_char (ascii_lower c) :: nat) =
     (if 65 \<le> (of_char c :: nat) \<and> (of_char c :: nat) \<le> 90 then of_char c + 32 else of_char c)"
  by (simp add: ascii_lower_def)

lemma ascii_lower_idem [simp]: "ascii_lower (ascii_lower c) = ascii_lower c"
  by (subst (2) ascii_lower_def, subst (1) ascii_lower_def) (auto simp: of_char_ascii_lower ascii_lower_def)

lemma ascii_lower_eq_punct:
  assumes "(of_char p :: nat) < 65"
  shows "ascii_lower c = p \<longleftrightarrow> c = p"
proof
  assume "ascii_lower c = p"
  with assms have "(of_char (ascii_lower c) :: nat) < 65" by simp
  then have "\<not> (65 \<le> (of_char c :: nat) \<and> (of_char c :: nat) \<le> 90)"
    by (auto simp: of_char_ascii_lower split: if_splits)
  with \<open>ascii_lower c = p\<close> show "c = p" by (auto simp: ascii_lower_def)
next
  assume "c = p"
  with assms show "ascii_lower c = p" by (simp add: ascii_lower_def)
qed

lemma to_lowercase_idem [simp]: "to_lowercase (to_lowercase s) = to_lowercase s"
  by (simp add: to_lowercase_def)

lemma to_lowercase_Nil [simp]: "to_lowercase [] = []"
  by (simp add: to_lowercase_def)

lemma to_lowercase_Cons [simp]: "to_lowercase (c # s) = ascii_lower c # to_lowercase s"
  by (simp add: to_lowercase_def)

lemma ascii_lower_dot [simp]: "ascii_lower CHR ''.'' = CHR ''.''"
  and ascii_lower_dash [simp]: "ascii_lower CHR ''-'' = CHR ''-''"
  by (simp_all add: ascii_lower_def)

lemma to_lowercase_append [simp]: "to_lowercase (s @ t) = to_lowercase s @ to_lowercase t"
  by (simp add: to_lowercase_def)

lemma length_to_lowercase [simp]: "length (to_lowercase s) = length s"
  by (simp add: to_lowercase_def)

lemma to_ascii_lowercase_eq: "to_ascii_lowercase = to_lowercase"
  by (rule ext) (simp add: to_ascii_lowercase_def to_lowercase_def)

subsection \<open>Suffixes, trimming, splitting\<close>

definition ends_with :: "string \<Rightarrow> string \<Rightarrow> bool" where
  "ends_with s suf \<longleftrightarrow> length suf \<le> length s \<and> drop (length s - length suf) s = suf"

definition strip_suffix :: "string \<Rightarrow> string \<Rightarrow> string option" where
  "strip_suffix s suf = (if ends_with s suf then Some (take (length s - length suf) s) else None)"

definition trim_end_matches :: "char \<Rightarrow> string \<Rightarrow> string" where
  "trim_end_matches c s = rev (dropWhile (\<lambda>x. x = c) (rev s))"

fun split_char :: "char \<Rightarrow> string \<Rightarrow> string list" where
  "split_char c [] = [[]]"
| "split_char c (x # xs) =
     (if x = c then [] # split_char c xs
      else (case split_char c xs of [] \<Rightarrow> [[x]] | w # ws \<Rightarrow> (x # w) # ws))"

fun split_once :: "char \<Rightarrow> string \<Rightarrow> (string \<times> string) option" where
  "split_once c [] = None"
| "split_once c (x # xs) =
     (if x = c then Some ([], xs)
      else map_option (\<lambda>(a, b). (x # a, b)) (split_once c xs))"

lemma ends_with_iff: "ends_with s suf \<longleftrightarrow> (\<exists>p. s = p @ suf)"
proof
  assume "ends_with s suf"
  then have "s = take (length s - length suf) s @ suf"
    unfolding ends_with_def by (metis append_take_drop_id)
  then show "\<exists>p. s = p @ suf" by blast
qed (auto simp: ends_with_def)

lemma strip_suffix_eq_Some: "strip_suffix s suf = Some p \<longleftrightarrow> s = p @ suf"
  by (auto simp: strip_suffix_def ends_with_iff)

lemma strip_suffix_append [simp]: "strip_suffix (p @ suf) suf = Some p"
  by (simp add: strip_suffix_eq_Some)

lemma strip_suffix_eq_None: "strip_suffix s suf = None \<longleftrightarrow> \<not> ends_with s suf"
  by (simp add: strip_suffix_def)

lemma trim_end_matches_snoc [simp]:
  "trim_end_matches c (s @ [x]) = (if x = c then trim_end_matches c s else s @ [x])"
  by (simp add: trim_end_matches_def)

lemma trim_end_matches_Nil [simp]: "trim_end_matches c [] = []"
  by (simp add: trim_end_matches_def)

lemma trim_end_matches_last: "trim_end_matches c s = [] \<or> last (trim_end_matches c s) \<noteq> c"
  by (induction s rule: rev_induct) auto

lemma trim_end_matches_idem [simp]:
  "trim_end_matches c (trim_end_matches c s) = trim_end_matches c s"
  by (induction s rule: rev_induct) auto

lemma trim_end_matches_id: "s = [] \<or> last s \<noteq> c \<Longrightarrow> trim_end_matches c s = s"
  by (induction s rule: rev_induct) auto

lemma trim_end_matches_prefix: "\<exists>n. s = trim_end_matches c s @ replicate n c"
proof (induction s rule: rev_induct)
  case Nil
  then show ?case by simp
next
  case (snoc x s)
  show ?case
  proof (cases "x = c")
    case True
    from snoc obtain n where "s = trim_end_matches c s @ replicate n c" by blast
    then have "s @ [x] = trim_end_matches c (s @ [x]) @ replicate (Suc n) c"
      using True by (metis append.assoc replicate_append_same replicate_Suc trim_end_matches_snoc)
    then show ?thesis by blast
  next
    case False
    then show ?thesis by (auto intro: exI [of _ 0])
  qed
qed

lemma trim_end_matches_lowercase:
  assumes "(of_char c :: nat) < 65"
  shows "trim_end_matches c (to_lowercase s) = to_lowercase (trim_end_matches c s)"
  by (induction s rule: rev_induct) (auto simp: to_lowercase_def ascii_lower_eq_punct [OF assms])

lemma split_char_nonempty [simp]: "split_char c s \<noteq> []"
  by (induction s) (auto split: list.splits)

lemma split_char_no: "c \<notin> set w \<Longrightarrow> split_char c w = [w]"
  by (induction w) auto

lemma split_char_append: "c \<notin> set w \<Longrightarrow> split_char c (w @ c # r) = w # split_char c r"
  by (induction w) auto

lemma split_char_sound: "w \<in> set (split_char c s) \<Longrightarrow> c \<notin> set w"
  by (induction s arbitrary: w) (auto split: if_splits list.splits)

lemma split_once_eq_Some:
  "split_once c s = Some (a, b) \<longleftrightarrow> s = a @ c # b \<and> c \<notin> set a"
proof (induction s arbitrary: a)
  case Nil
  then show ?case by simp
next
  case (Cons x xs)
  then show ?case
    by (cases a; cases "split_once c xs") (auto simp: Cons_eq_append_conv split: prod.splits)
qed

subsection \<open>Integers: parsing and printing\<close>

text \<open>
  \<open>str::parse\<close> at an unsigned type with largest value \<open>mx\<close>: an optional \<open>+\<close>, then at least one
  decimal digit; leading zeros are accepted. At each digit Rust multiplies with an overflow
  check, rejects a character that is not a digit, then reports the overflow.
\<close>

datatype parse_int_error = EmptyInput | InvalidDigit | PosOverflow

fun parse_int_error_text :: "parse_int_error \<Rightarrow> string" where
  "parse_int_error_text EmptyInput = ''cannot parse integer from empty string''"
| "parse_int_error_text InvalidDigit = ''invalid digit found in string''"
| "parse_int_error_text PosOverflow = ''number too large to fit in target type''"

definition to_digit :: "char \<Rightarrow> nat option" where
  "to_digit c = (if 48 \<le> (of_char c :: nat) \<and> (of_char c :: nat) \<le> 57 then Some (of_char c - 48) else None)"

fun parse_digits :: "nat \<Rightarrow> nat \<Rightarrow> string \<Rightarrow> parse_int_error + nat" where
  "parse_digits mx acc [] = Inr acc"
| "parse_digits mx acc (c # cs) =
     (case to_digit c of
        None \<Rightarrow> Inl InvalidDigit
      | Some d \<Rightarrow>
          if mx < acc * 10 then Inl PosOverflow
          else if mx < acc * 10 + d then Inl PosOverflow
          else parse_digits mx (acc * 10 + d) cs)"

definition parse_uint :: "nat \<Rightarrow> string \<Rightarrow> parse_int_error + nat" where
  "parse_uint mx s =
     (if s = [] then Inl EmptyInput
      else if s = ''+'' \<or> s = ''-'' then Inl InvalidDigit
      else if hd s = CHR ''+'' then parse_digits mx 0 (tl s)
      else parse_digits mx 0 s)"

definition digit_char :: "nat \<Rightarrow> char" where
  "digit_char d = char_of (48 + d)"

fun show_nat :: "nat \<Rightarrow> string" where
  "show_nat n = (if n < 10 then [digit_char n] else show_nat (n div 10) @ [digit_char (n mod 10)])"

declare show_nat.simps [simp del]

lemma of_char_digit_char: "d < 10 \<Longrightarrow> (of_char (digit_char d) :: nat) = 48 + d"
  by (simp add: digit_char_def)

lemma to_digit_digit_char [simp]: "d < 10 \<Longrightarrow> to_digit (digit_char d) = Some d"
  by (simp add: to_digit_def of_char_digit_char)

lemma show_nat_nonempty [simp]: "show_nat n \<noteq> []"
  by (subst show_nat.simps) simp

lemma show_nat_digits: "c \<in> set (show_nat n) \<Longrightarrow> \<exists>d<10. c = digit_char d"
proof (induction n rule: show_nat.induct)
  case (1 n)
  show ?case
  proof (cases "n < 10")
    case True
    with "1.prems" show ?thesis by (subst (asm) show_nat.simps) auto
  next
    case False
    with "1.prems" have "c \<in> set (show_nat (n div 10)) \<or> c = digit_char (n mod 10)"
      by (subst (asm) show_nat.simps) auto
    with "1.IH" False show ?thesis by (metis mod_less_divisor zero_less_numeral)
  qed
qed

lemma show_nat_char_range: "c \<in> set (show_nat n) \<Longrightarrow> 48 \<le> (of_char c :: nat) \<and> (of_char c :: nat) \<le> 57"
  by (auto dest!: show_nat_digits simp: of_char_digit_char)

lemma parse_digits_append:
  "parse_digits mx acc (s @ t) =
     (case parse_digits mx acc s of Inl e \<Rightarrow> Inl e | Inr a \<Rightarrow> parse_digits mx a t)"
  by (induction s arbitrary: acc) (auto split: option.splits)

lemma parse_digits_bound: "parse_digits mx acc s = Inr n \<Longrightarrow> acc \<le> mx \<Longrightarrow> n \<le> mx"
  by (induction s arbitrary: acc) (auto split: option.splits if_splits)

lemma parse_uint_bound: "parse_uint mx s = Inr n \<Longrightarrow> n \<le> mx"
  by (auto simp: parse_uint_def split: if_splits intro: parse_digits_bound)

lemma parse_digits_show_nat: "n \<le> mx \<Longrightarrow> parse_digits mx 0 (show_nat n) = Inr n"
proof (induction n rule: show_nat.induct)
  case (1 n)
  show ?case
  proof (cases "n < 10")
    case True
    with "1.prems" show ?thesis by (subst show_nat.simps) simp
  next
    case False
    have "parse_digits mx 0 (show_nat (n div 10)) = Inr (n div 10)"
      using "1.IH" "1.prems" False by (meson div_le_dividend le_trans)
    moreover have "n div 10 * 10 \<le> mx" and "n div 10 * 10 + n mod 10 \<le> mx"
      using "1.prems" by auto
    ultimately show ?thesis
      using False by (subst show_nat.simps) (simp add: parse_digits_append)
  qed
qed

lemma parse_uint_show_nat [simp]:
  assumes "n \<le> mx"
  shows "parse_uint mx (show_nat n) = Inr n"
proof -
  have "hd (show_nat n) \<in> set (show_nat n)" by simp
  then have "48 \<le> (of_char (hd (show_nat n)) :: nat)" by (blast dest: show_nat_char_range)
  then have "hd (show_nat n) \<noteq> CHR ''+''" and "hd (show_nat n) \<noteq> CHR ''-''" by auto
  then have "show_nat n \<noteq> ''+''" and "show_nat n \<noteq> ''-''" by auto
  with \<open>hd (show_nat n) \<noteq> CHR ''+''\<close> show ?thesis
    using assms by (simp add: parse_uint_def parse_digits_show_nat)
qed

lemma show_nat_ascii_lower [simp]: "to_lowercase (show_nat n) = show_nat n"
  unfolding to_lowercase_def
  by (rule map_idI) (auto dest!: show_nat_char_range simp: ascii_lower_def)

lemma show_nat_no_dash: "CHR ''-'' \<notin> set (show_nat n)"
  by (auto dest!: show_nat_char_range)

subsection \<open>UTF-8\<close>

text \<open>
  \<open>String::from_utf8\<close> accepts exactly the well-formed sequences of the Unicode standard (its
  Table 3-7): no overlong forms, no surrogates, nothing above U+10FFFF.
\<close>

definition utf8_cont :: "u8 \<Rightarrow> bool" where
  "utf8_cont b \<longleftrightarrow> 128 \<le> b \<and> b \<le> 191"

fun valid_utf8 :: "bytes \<Rightarrow> bool" where
  "valid_utf8 [] = True"
| "valid_utf8 (a # r) =
     (if a < 128 then valid_utf8 r
      else if 194 \<le> a \<and> a \<le> 223 then
        (case r of b # r' \<Rightarrow> utf8_cont b \<and> valid_utf8 r' | _ \<Rightarrow> False)
      else if 224 \<le> a \<and> a \<le> 239 then
        (case r of b # c # r' \<Rightarrow>
             (if a = 224 then 160 \<le> b \<and> b \<le> 191
              else if a = 237 then 128 \<le> b \<and> b \<le> 159 else utf8_cont b)
             \<and> utf8_cont c \<and> valid_utf8 r'
         | _ \<Rightarrow> False)
      else if 240 \<le> a \<and> a \<le> 244 then
        (case r of b # c # d # r' \<Rightarrow>
             (if a = 240 then 144 \<le> b \<and> b \<le> 191
              else if a = 244 then 128 \<le> b \<and> b \<le> 143 else utf8_cont b)
             \<and> utf8_cont c \<and> utf8_cont d \<and> valid_utf8 r'
         | _ \<Rightarrow> False)
      else False)"

definition char_of_byte :: "u8 \<Rightarrow> char" where
  "char_of_byte b = char_of (unat b)"

definition as_bytes :: "string \<Rightarrow> bytes" where
  "as_bytes s = map (\<lambda>c. word_of_nat (of_char c)) s"

definition from_utf8 :: "bytes \<Rightarrow> string option" where
  "from_utf8 bs = (if valid_utf8 bs then Some (map char_of_byte bs) else None)"

lemma unat_word_of_char [simp]: "unat (word_of_nat (of_char c) :: u8) = of_char c"
proof -
  have "(of_char c :: nat) < 256" by simp
  then show ?thesis by (simp add: unat_of_nat)
qed

lemma char_of_byte_as_byte [simp]: "char_of_byte (word_of_nat (of_char c)) = c"
  by (simp add: char_of_byte_def)

lemma map_char_of_byte_as_bytes [simp]: "map char_of_byte (as_bytes s) = s"
  by (simp add: as_bytes_def comp_def)

lemma as_bytes_inject [simp]: "as_bytes s = as_bytes t \<longleftrightarrow> s = t"
  by (metis map_char_of_byte_as_bytes)

lemma as_bytes_map_char_of_byte [simp]: "as_bytes (map char_of_byte bs) = bs"
proof -
  have "word_of_nat (of_char (char_of_byte b)) = b" for b :: u8
  proof -
    have "unat b < 2 ^ LENGTH(8)" by (rule unsigned_less)
    then have "unat b < 256" by simp
    then show ?thesis by (simp add: char_of_byte_def)
  qed
  then show ?thesis by (simp add: as_bytes_def comp_def)
qed

lemma from_utf8_eq_Some: "from_utf8 bs = Some s \<longleftrightarrow> valid_utf8 bs \<and> bs = as_bytes s"
  by (auto simp: from_utf8_def)

lemma valid_utf8_ascii: "\<forall>b\<in>set bs. b < 128 \<Longrightarrow> valid_utf8 bs"
  by (induction bs) auto

end
