(* ===== verification/Xip.thy ===== *)
theory Xip
  imports Rust_Std
begin

text \<open>
  Model of \<open>src/xip.rs\<close>: the zone test and the extraction of an IPv4 address from a host name.
  The scan over the dash-separated parts is the recursion \<open>scan_windows\<close> on the loop index,
  which runs downwards as the source's reversed range does. The lemmas give the scan an
  order-theoretic reading (the rightmost window that parses) and show that a printed address is
  read back.
\<close>

subsection \<open>Definitions\<close>

datatype ipv4 = Ipv4 u8 u8 u8 u8

definition ipv4_from :: "u8 list \<Rightarrow> ipv4" where
  "ipv4_from b = Ipv4 (b ! 0) (b ! 1) (b ! 2) (b ! 3)"

definition is_our_domain :: "string \<Rightarrow> string \<Rightarrow> bool" where
  "is_our_domain hostname domain =
     (let hostname = to_lowercase hostname; domain = to_lowercase domain
      in hostname = domain \<or> ends_with hostname (''.'' @ domain))"

text \<open>
  The loop of \<open>parse_octets\<close> with its index and the array it fills. The caller passes slices of
  exactly four parts, so the index stays inside the array.
\<close>

fun parse_octets_loop :: "nat \<Rightarrow> u8 list \<Rightarrow> string list \<Rightarrow> u8 list option" where
  "parse_octets_loop i b [] = Some b"
| "parse_octets_loop i b (s # ss) =
     (case parse_uint 65535 s of
        Inl e \<Rightarrow> None
      | Inr val \<Rightarrow>
          if val > 255 then None
          else parse_octets_loop (Suc i) (b[i := word_of_nat val]) ss)"

definition parse_octets :: "string list \<Rightarrow> ipv4 option" where
  "parse_octets octets = map_option ipv4_from (parse_octets_loop 0 [0, 0, 0, 0] octets)"

definition window :: "string list \<Rightarrow> nat \<Rightarrow> string list" where
  "window parts i = take 4 (drop i parts)"

fun scan_windows :: "string list \<Rightarrow> nat \<Rightarrow> ipv4 option" where
  "scan_windows parts 0 = parse_octets (window parts 0)"
| "scan_windows parts (Suc i) =
     (case parse_octets (window parts (Suc i)) of
        Some ip \<Rightarrow> Some ip
      | None \<Rightarrow> scan_windows parts i)"

definition parse_xip_ip :: "string \<Rightarrow> string \<Rightarrow> ipv4 option" where
  "parse_xip_ip hostname domain =
     (let hostname = to_lowercase hostname; domain = to_lowercase domain
      in case strip_suffix hostname (''.'' @ domain) of
           None \<Rightarrow> None
         | Some prefix \<Rightarrow>
             (let parts = split_char CHR ''-'' prefix
              in if length parts < 4 then None
                 else scan_windows parts (length parts - 4)))"

subsection \<open>The zone test\<close>

lemma is_our_domain_iff:
  "is_our_domain h d \<longleftrightarrow>
     to_lowercase h = to_lowercase d \<or> (\<exists>p. to_lowercase h = p @ ''.'' @ to_lowercase d)"
  by (simp add: is_our_domain_def ends_with_iff Let_def)

lemma is_our_domain_apex [simp]: "is_our_domain d d"
  by (simp add: is_our_domain_iff)

lemma is_our_domain_sub [simp]: "is_our_domain (p @ ''.'' @ d) d"
  by (auto simp: is_our_domain_iff)

lemma is_our_domain_trans:
  assumes "is_our_domain a b" and "is_our_domain b c"
  shows "is_our_domain a c"
  using assms unfolding is_our_domain_iff by (metis append.assoc)

subsection \<open>Four octets\<close>

lemma parse_octets_4:
  "parse_octets [a, b, c, d] = Some ip \<longleftrightarrow>
     (\<exists>w x y z. parse_uint 65535 a = Inr w \<and> parse_uint 65535 b = Inr x \<and>
        parse_uint 65535 c = Inr y \<and> parse_uint 65535 d = Inr z \<and>
        w \<le> 255 \<and> x \<le> 255 \<and> y \<le> 255 \<and> z \<le> 255 \<and>
        ip = Ipv4 (word_of_nat w) (word_of_nat x) (word_of_nat y) (word_of_nat z))"
  by (auto simp: parse_octets_def ipv4_from_def not_less split: sum.splits if_splits)

lemma word_of_nat_unat_u8: "word_of_nat (unat (x :: u8)) = x"
  by simp

lemma unat_u8_le: "unat (x :: u8) \<le> 255"
proof -
  have "unat x < 2 ^ LENGTH(8)" by (rule unsigned_less)
  then show ?thesis by simp
qed

fun octet_parts :: "ipv4 \<Rightarrow> string list" where
  "octet_parts (Ipv4 a b c d) =
     [show_nat (unat a), show_nat (unat b), show_nat (unat c), show_nat (unat d)]"

lemma parse_octet_parts [simp]: "parse_octets (octet_parts ip) = Some ip"
proof (cases ip)
  case (Ipv4 a b c d)
  have "parse_uint 65535 (show_nat (unat x)) = Inr (unat x)" for x :: u8
    using unat_u8_le [of x] by (intro parse_uint_show_nat) simp
  with Ipv4 show ?thesis by (simp add: parse_octets_4 unat_u8_le)
qed

lemma length_octet_parts [simp]: "length (octet_parts ip) = 4"
  by (cases ip) simp

subsection \<open>The scan finds the rightmost window\<close>

lemma scan_windows_eq_Some:
  "scan_windows parts n = Some ip \<longleftrightarrow>
     (\<exists>i\<le>n. parse_octets (window parts i) = Some ip \<and>
        (\<forall>j. i < j \<and> j \<le> n \<longrightarrow> parse_octets (window parts j) = None))"
proof (induction n)
  case 0
  then show ?case by auto
next
  case (Suc n)
  show ?case
  proof (cases "parse_octets (window parts (Suc n))")
    case None
    then show ?thesis
      using Suc by (auto simp: le_Suc_eq)
  next
    case (Some ip')
    then show ?thesis
      by (auto simp: le_Suc_eq dest: less_Suc_eq_le [THEN iffD2])
  qed
qed

lemma scan_windows_eq_None:
  "scan_windows parts n = None \<longleftrightarrow> (\<forall>i\<le>n. parse_octets (window parts i) = None)"
  by (induction n) (auto simp: le_Suc_eq split: option.splits)

lemma scan_windows_last:
  assumes "parse_octets (window parts n) = Some ip"
  shows "scan_windows parts n = Some ip"
  using assms by (cases n) auto

subsection \<open>Reading an address back\<close>

text \<open>The name form of the documentation: the four decimal octets joined by dashes.\<close>

fun ipv4_dashed :: "ipv4 \<Rightarrow> string" where
  "ipv4_dashed (Ipv4 a b c d) =
     show_nat (unat a) @ ''-'' @ show_nat (unat b) @ ''-'' @ show_nat (unat c) @ ''-'' @
     show_nat (unat d)"

lemma split_ipv4_dashed: "split_char CHR ''-'' (ipv4_dashed ip) = octet_parts ip"
  by (cases ip) (simp add: split_char_append split_char_no show_nat_no_dash)

lemma split_char_append_dash:
  "split_char c (s @ c # t) = split_char c s @ split_char c t"
proof (induction s)
  case Nil
  then show ?case by simp
next
  case (Cons x xs)
  then show ?case by (cases "split_char c xs") auto
qed

lemma ipv4_dashed_lower [simp]: "to_lowercase (ipv4_dashed ip) = ipv4_dashed ip"
  by (cases ip) simp

lemma scan_last_parts:
  assumes "length ws = 4" and "parse_octets ws = Some ip"
  shows "scan_windows (ps @ ws) (length ps) = Some ip"
  using assms by (intro scan_windows_last) (simp add: window_def)

lemma parse_xip_ip_parts:
  assumes "split_char CHR ''-'' (to_lowercase p) = ps @ octet_parts ip"
  shows "parse_xip_ip (p @ ''.'' @ d) d = Some ip"
proof -
  have "strip_suffix (to_lowercase (p @ ''.'' @ d)) (''.'' @ to_lowercase d) = Some (to_lowercase p)"
    by (simp add: strip_suffix_eq_Some)
  with assms show ?thesis
    by (simp add: parse_xip_ip_def Let_def scan_last_parts del: to_lowercase_append append_Cons)
qed

lemma parse_xip_ip_prefixed: "parse_xip_ip (l @ ''-'' @ ipv4_dashed ip @ ''.'' @ d) d = Some ip"
proof -
  have "split_char CHR ''-'' (to_lowercase (l @ ''-'' @ ipv4_dashed ip)) =
      split_char CHR ''-'' (to_lowercase l) @ octet_parts ip"
    by (simp add: split_char_append_dash split_ipv4_dashed)
  from parse_xip_ip_parts [OF this, of d] show ?thesis by simp
qed

lemma parse_xip_ip_dashed:
  assumes "l = [] \<or> ends_with l ''-''"
  shows "parse_xip_ip (l @ ipv4_dashed ip @ ''.'' @ d) d = Some ip"
  using assms
proof
  assume "l = []"
  then show ?thesis using parse_xip_ip_parts [of "ipv4_dashed ip" "[]" ip d] by (simp add: split_ipv4_dashed)
next
  assume "ends_with l ''-''"
  then obtain l' where "l = l' @ ''-''" by (auto simp: ends_with_iff)
  then show ?thesis using parse_xip_ip_prefixed [of l' ip d] by simp
qed

text \<open>
  Every name of the documented form carries its address: the dashed octets directly under
  the zone, and the same after any label text that ends in a dash, resolve to exactly those
  octets, whatever the label text holds (digits and dots included).
\<close>

theorem parse_xip_ip_roundtrip:
  "parse_xip_ip (ipv4_dashed ip @ ''.'' @ d) d = Some ip \<and>
   parse_xip_ip (l @ ''-'' @ ipv4_dashed ip @ ''.'' @ d) d = Some ip"
proof
  show "parse_xip_ip (ipv4_dashed ip @ ''.'' @ d) d = Some ip"
    by (rule parse_xip_ip_parts [where ps = "[]"]) (simp add: split_ipv4_dashed)
  show "parse_xip_ip (l @ ''-'' @ ipv4_dashed ip @ ''.'' @ d) d = Some ip"
    by (rule parse_xip_ip_prefixed)
qed

text \<open>
  C28. The extraction as a specification: a name has an address exactly when, case folded, it is
  a prefix, a dot and the zone, and some four consecutive dash-separated parts of the prefix
  are numbers up to 255; the address is the one of the rightmost such four parts.
\<close>

theorem parse_xip_ip_rightmost:
  "parse_xip_ip h d = Some ip \<longleftrightarrow>
     (\<exists>prefix i. to_lowercase h = prefix @ ''.'' @ to_lowercase d \<and>
        (let parts = split_char CHR ''-'' prefix in
          i + 4 \<le> length parts \<and> parse_octets (window parts i) = Some ip \<and>
          (\<forall>j. i < j \<and> j + 4 \<le> length parts \<longrightarrow> parse_octets (window parts j) = None)))"
proof (cases "strip_suffix (to_lowercase h) (''.'' @ to_lowercase d)")
  case None
  then have "parse_xip_ip h d = None" by (simp add: parse_xip_ip_def)
  moreover have "\<nexists>p. to_lowercase h = p @ ''.'' @ to_lowercase d"
    using None by (simp add: strip_suffix_eq_None ends_with_iff)
  ultimately show ?thesis by auto
next
  case (Some prefix)
  then have h: "to_lowercase h = prefix @ ''.'' @ to_lowercase d"
    by (simp add: strip_suffix_eq_Some)
  have le: "i \<le> n - 4 \<longleftrightarrow> i + 4 \<le> n" if "4 \<le> n" for i n :: nat
    using that by arith
  show ?thesis
    using Some by (auto simp: parse_xip_ip_def Let_def h scan_windows_eq_Some le not_less)
qed

text \<open>Five numbers: the four on the right are the address.\<close>

theorem parse_xip_ip_rightmost_witness:
  "parse_xip_ip ''9-1-2-3-4.z'' ''z'' = Some (Ipv4 1 2 3 4)"
  unfolding parse_xip_ip_rightmost
  by (rule exI [of _ "''9-1-2-3-4''"], rule exI [of _ 1])
    (auto simp: window_def parse_octets_4 parse_uint_def to_digit_def ascii_lower_def)

lemma parse_xip_ip_in_zone: "parse_xip_ip h d = Some ip \<Longrightarrow> is_our_domain h d"
  by (auto simp: parse_xip_ip_def is_our_domain_iff Let_def strip_suffix_eq_Some split: option.splits)

lemma parse_xip_ip_lower [simp]: "parse_xip_ip (to_lowercase h) d = parse_xip_ip h d"
  by (simp add: parse_xip_ip_def)

lemma is_our_domain_lower [simp]: "is_our_domain (to_lowercase h) d = is_our_domain h d"
  by (simp add: is_our_domain_def)

end
