(* ===== verification/Hickory.thy ===== *)
theory Hickory
  imports Xip
begin

text \<open>
  The interface of the third-party crate \<open>hickory_proto\<close> as \<open>src/wire.rs\<close> and \<open>src/dns.rs\<close> use
  it. Its source is not part of the repository, so nothing here says what it computes. The
  structs whose public fields the program reads and writes are records with those fields; a
  domain name is opaque, a type variable \<open>'nm\<close>; the functions the program calls are the fields of
  the record \<open>hickory\<close>, an argument of every definition that uses them. A theorem that relies on
  documented behaviour of the crate names it as a hypothesis.

  The \<open>add_\<close> methods of a message append to the section they are named after, and setting the
  EDNS record replaces it; a \<open>Record\<close> holds the owner name, the time to live and the data it is
  built from.
\<close>

subsection \<open>Data\<close>

datatype op_code = Query | OtherOpCode u8

datatype message_type = QueryMessage | ResponseMessage

datatype record_type = SOA | NS | A | TXT | OtherType u16

datatype dns_class = IN | ANY | OtherClass u16

datatype response_code =
    NoError | FormErr | ServFail | NXDomain | NotImp | Refused | BADVERS | OtherCode u16

datatype 'nm rdata =
    RA ipv4
  | RNS 'nm
  | RTXT "string list"
  | RSOA (soa_mname: 'nm) (soa_rname: 'nm) (soa_serial: u32) (soa_refresh: nat) (soa_retry: nat)
      (soa_expire: nat) (soa_minimum: u32)
  | ROther u16 bytes

record 'nm rr =
  rr_name :: 'nm
  rr_ttl :: u32
  rr_data :: "'nm rdata"

record 'nm question =
  q_name :: 'nm
  q_type :: record_type
  q_class :: dns_class

record edns =
  max_payload :: u16
  version :: u8
  dnssec_ok :: bool

record 'nm message =
  msg_id :: u16
  message_type :: message_type
  op_code :: op_code
  authoritative :: bool
  truncation :: bool
  recursion_desired :: bool
  recursion_available :: bool
  response_code :: response_code
  queries :: "'nm question list"
  answers :: "'nm rr list"
  authorities :: "'nm rr list"
  additionals :: "'nm rr list"
  msg_edns :: "edns option"

definition add_query :: "'nm question \<Rightarrow> 'nm message \<Rightarrow> 'nm message" where
  "add_query q m = m\<lparr>queries := queries m @ [q]\<rparr>"

definition add_queries :: "'nm question list \<Rightarrow> 'nm message \<Rightarrow> 'nm message" where
  "add_queries qs m = m\<lparr>queries := queries m @ qs\<rparr>"

definition add_answer :: "'nm rr \<Rightarrow> 'nm message \<Rightarrow> 'nm message" where
  "add_answer r m = m\<lparr>answers := answers m @ [r]\<rparr>"

definition add_authority :: "'nm rr \<Rightarrow> 'nm message \<Rightarrow> 'nm message" where
  "add_authority r m = m\<lparr>authorities := authorities m @ [r]\<rparr>"

definition add_additional :: "'nm rr \<Rightarrow> 'nm message \<Rightarrow> 'nm message" where
  "add_additional r m = m\<lparr>additionals := additionals m @ [r]\<rparr>"

definition set_edns :: "edns \<Rightarrow> 'nm message \<Rightarrow> 'nm message" where
  "set_edns e m = m\<lparr>msg_edns := Some e\<rparr>"

lemmas message_build_defs =
  add_query_def add_queries_def add_answer_def add_authority_def add_additional_def set_edns_def

lemma fold_add_answer: "fold add_answer rs m = m\<lparr>answers := answers m @ rs\<rparr>"
  by (induction rs arbitrary: m) (simp_all add: add_answer_def)

lemma fold_add_additional: "fold add_additional rs m = m\<lparr>additionals := additionals m @ rs\<rparr>"
  by (induction rs arbitrary: m) (simp_all add: add_additional_def)

subsection \<open>Functions\<close>

record 'nm hickory =
  message_response :: "u16 \<Rightarrow> op_code \<Rightarrow> 'nm message"   \<comment> \<open>\<open>Message::response\<close>\<close>
  to_vec :: "'nm message \<Rightarrow> bytes option"
  from_vec :: "bytes \<Rightarrow> 'nm message option"
  truncate_message :: "'nm message \<Rightarrow> 'nm message"   \<comment> \<open>\<open>Message::truncate\<close>\<close>
  message_max_payload :: "'nm message \<Rightarrow> u16"           \<comment> \<open>\<open>Message::max_payload\<close>\<close>
  query_new :: "'nm \<Rightarrow> record_type \<Rightarrow> 'nm question"      \<comment> \<open>\<open>Query::query\<close>\<close>
  edns_new :: edns                                      \<comment> \<open>\<open>Edns::new\<close>\<close>
  set_max_payload :: "u16 \<Rightarrow> edns \<Rightarrow> edns"
  set_dnssec_ok :: "bool \<Rightarrow> edns \<Rightarrow> edns"
  from_ascii :: "string \<Rightarrow> string + 'nm"                \<comment> \<open>\<open>Name::from_ascii\<close>, its error as text\<close>
  to_ascii :: "'nm \<Rightarrow> string"

text \<open>
  Documented behaviour of \<open>Message::response\<close>: a response with the given id and operation code,
  no flag set, no error and empty sections.
\<close>

definition response_law :: "'nm hickory \<Rightarrow> bool" where
  "response_law H \<longleftrightarrow>
     (\<forall>i opc. message_response H i opc =
        \<lparr>msg_id = i, message_type = ResponseMessage, op_code = opc, authoritative = False,
         truncation = False, recursion_desired = False, recursion_available = False,
         response_code = NoError, queries = [], answers = [], authorities = [],
         additionals = [], msg_edns = None\<rparr>)"

text \<open>
  A concrete instance, for the theorems applied at an input: a name is its ASCII text, any
  non-empty text is a name, messages have no encoding. A witness that needs one replaces the
  fields \<open>to_vec\<close> and \<open>from_vec\<close>.
\<close>

definition text_hickory :: "string hickory" where
  "text_hickory =
     \<lparr>message_response = (\<lambda>i opc.
        \<lparr>msg_id = i, message_type = ResponseMessage, op_code = opc, authoritative = False,
         truncation = False, recursion_desired = False, recursion_available = False,
         response_code = NoError, queries = [], answers = [], authorities = [],
         additionals = [], msg_edns = None\<rparr>),
      to_vec = (\<lambda>m. None), from_vec = (\<lambda>bs. None),
      truncate_message = (\<lambda>m. m\<lparr>truncation := True, answers := [], authorities := [], additionals := []\<rparr>),
      message_max_payload = (\<lambda>m. case msg_edns m of None \<Rightarrow> 512 | Some e \<Rightarrow> max_payload e),
      query_new = (\<lambda>n t. \<lparr>q_name = n, q_type = t, q_class = IN\<rparr>),
      edns_new = \<lparr>max_payload = 1232, version = 0, dnssec_ok = False\<rparr>,
      set_max_payload = (\<lambda>n e. e\<lparr>max_payload := n\<rparr>),
      set_dnssec_ok = (\<lambda>b e. e\<lparr>dnssec_ok := b\<rparr>),
      from_ascii = (\<lambda>s. if s = [] then Inl ''empty name'' else Inr s),
      to_ascii = (\<lambda>n. n)\<rparr>"

lemma response_law_text_hickory [simp]: "response_law text_hickory"
  by (simp add: response_law_def text_hickory_def)

lemma text_hickory_sel [simp]:
  "from_ascii text_hickory s = (if s = [] then Inl ''empty name'' else Inr s)"
  "to_ascii text_hickory s = s"
  "query_new text_hickory s t = \<lparr>q_name = s, q_type = t, q_class = IN\<rparr>"
  "edns_new text_hickory = \<lparr>max_payload = 1232, version = 0, dnssec_ok = False\<rparr>"
  "set_max_payload text_hickory n e = e\<lparr>max_payload := n\<rparr>"
  "set_dnssec_ok text_hickory b e = e\<lparr>dnssec_ok := b\<rparr>"
  by (simp_all add: text_hickory_def)

end
