(* ===== verification/Config.thy ===== *)
theory Config
  imports Hickory
begin

text \<open>
  Model of \<open>src/config.rs\<close> without \<open>validate\<close> (theory \<open>Validate\<close>, which needs the wire
  capacity): the configuration record, the value parsers of the command line and the derived
  names. \<open>clap\<close> is third-party: the parsing of a bounded integer and of an address are the fields of
  the record \<open>clap\<close>, and \<open>parse_config\<close> states what the field attributes ask of it.
\<close>

subsection \<open>The configuration\<close>

datatype ip_addr = V4 ipv4 | V6 "128 word"

record config =
  domain :: string
  ns_hostname :: string
  ns_hostname2 :: string
  dns_bind :: ip_addr
  dns_port :: u16
  api_bind :: ip_addr
  api_port :: u16
  ns_ip :: ipv4
  api_key :: string
  txt_ttl :: u32
  default_ttl :: u32
  token_lifetime_secs :: nat
  max_tokens :: nat

definition acme_name :: "config \<Rightarrow> string" where
  "acme_name c = ''_acme-challenge.'' @ domain c"

definition token_lifetime :: "config \<Rightarrow> duration" where
  "token_lifetime c = duration_from_secs (token_lifetime_secs c)"

subsection \<open>Value parsers\<close>

definition MIN_API_KEY_LEN :: nat where
  "MIN_API_KEY_LEN = 32"

definition USIZE_MAX :: nat where
  "USIZE_MAX = 2 ^ 64 - 1"

definition parse_dns_name :: "'nm hickory \<Rightarrow> string \<Rightarrow> string + string" where
  "parse_dns_name H raw =
     (let normalized = to_ascii_lowercase (trim_end_matches CHR ''.'' raw)
      in if normalized = [] \<or> normalized = ''.''
         then Inl ''DNS name must not be empty or the root zone''
         else (case from_ascii H normalized of
                 Inl error \<Rightarrow> Inl (''invalid DNS name: '' @ error)
               | Inr _ \<Rightarrow> Inr normalized))"

definition parse_api_key :: "string \<Rightarrow> string + string" where
  "parse_api_key raw =
     (if length raw < MIN_API_KEY_LEN
      then Inl (''API key must contain at least '' @ show_nat MIN_API_KEY_LEN @ '' characters'')
      else Inr raw)"

definition parse_max_tokens :: "string \<Rightarrow> string + nat" where
  "parse_max_tokens raw =
     (case parse_uint USIZE_MAX raw of
        Inl error \<Rightarrow> Inl (''invalid token limit: '' @ parse_int_error_text error)
      | Inr value \<Rightarrow> if value = 0 then Inl ''token limit must be at least 1'' else Inr value)"

subsection \<open>The command line\<close>

record clap =
  ranged_int :: "nat \<Rightarrow> nat \<Rightarrow> string \<Rightarrow> string + nat"   \<comment> \<open>\<open>value_parser!(..).range(lo..=hi)\<close>\<close>
  ip_addr_arg :: "string \<Rightarrow> string + ip_addr"
  ipv4_arg :: "string \<Rightarrow> string + ipv4"
  missing_arg :: "string \<Rightarrow> string"                   \<comment> \<open>the error for an absent required option\<close>

definition clap_law :: "clap \<Rightarrow> bool" where
  "clap_law C \<longleftrightarrow> (\<forall>lo hi s n. ranged_int C lo hi s = Inr n \<longrightarrow> lo \<le> n \<and> n \<le> hi)"

fun and_then :: "'e + 'a \<Rightarrow> ('a \<Rightarrow> 'e + 'b) \<Rightarrow> 'e + 'b" where
  "and_then (Inl e) f = Inl e"
| "and_then (Inr a) f = f a"

lemma and_then_eq_Inr: "and_then r f = Inr b \<longleftrightarrow> (\<exists>a. r = Inr a \<and> f a = Inr b)"
  by (cases r) auto

definition arg_or :: "(string \<Rightarrow> string option) \<Rightarrow> string \<Rightarrow> string \<Rightarrow> string" where
  "arg_or args name dflt = (case args name of None \<Rightarrow> dflt | Some v \<Rightarrow> v)"

text \<open>
  \<open>args\<close> gives the text supplied for an option, by flag or environment variable; an option with a
  default falls back to it, and the API key has none.
\<close>

definition parse_config :: "'nm hickory \<Rightarrow> clap \<Rightarrow> (string \<Rightarrow> string option) \<Rightarrow> string + config" where
  "parse_config H C args =
     and_then (parse_dns_name H (arg_or args ''SAFEXIP_DOMAIN'' ''xip.example.com'')) (\<lambda>dom.
     and_then (parse_dns_name H (arg_or args ''SAFEXIP_NS_HOSTNAME'' ''ns1.xip.example.com'')) (\<lambda>ns1.
     and_then (parse_dns_name H (arg_or args ''SAFEXIP_NS_HOSTNAME2'' ''ns2.xip.example.com'')) (\<lambda>ns2.
     and_then (ip_addr_arg C (arg_or args ''SAFEXIP_DNS_BIND'' ''0.0.0.0'')) (\<lambda>dbind.
     and_then (ranged_int C 1 65535 (arg_or args ''SAFEXIP_DNS_PORT'' ''53'')) (\<lambda>dport.
     and_then (ip_addr_arg C (arg_or args ''SAFEXIP_API_BIND'' ''127.0.0.1'')) (\<lambda>abind.
     and_then (ranged_int C 1 65535 (arg_or args ''SAFEXIP_API_PORT'' ''8080'')) (\<lambda>aport.
     and_then (ipv4_arg C (arg_or args ''SAFEXIP_NS_IP'' ''127.0.0.1'')) (\<lambda>nip.
     and_then (case args ''SAFEXIP_API_KEY'' of
                 None \<Rightarrow> Inl (missing_arg C ''SAFEXIP_API_KEY'')
               | Some raw \<Rightarrow> parse_api_key raw) (\<lambda>key.
     and_then (ranged_int C 1 86400 (arg_or args ''SAFEXIP_TXT_TTL'' ''60'')) (\<lambda>tttl.
     and_then (ranged_int C 1 86400 (arg_or args ''SAFEXIP_DEFAULT_TTL'' ''60'')) (\<lambda>dttl.
     and_then (ranged_int C 1 86400 (arg_or args ''SAFEXIP_TOKEN_LIFETIME'' ''600'')) (\<lambda>life.
     and_then (parse_max_tokens (arg_or args ''SAFEXIP_MAX_TOKENS'' ''100'')) (\<lambda>mx.
       Inr \<lparr>domain = dom, ns_hostname = ns1, ns_hostname2 = ns2, dns_bind = dbind,
             dns_port = word_of_nat dport, api_bind = abind, api_port = word_of_nat aport,
             ns_ip = nip, api_key = key, txt_ttl = word_of_nat tttl,
             default_ttl = word_of_nat dttl, token_lifetime_secs = life,
             max_tokens = mx\<rparr>)))))))))))))"

subsection \<open>What the parsers establish\<close>

definition normal_name :: "'nm hickory \<Rightarrow> string \<Rightarrow> bool" where
  "normal_name H s \<longleftrightarrow>
     s \<noteq> [] \<and> last s \<noteq> CHR ''.'' \<and> to_lowercase s = s \<and> is_ok (from_ascii H s)"

lemma parse_dns_name_eq_Inr:
  "parse_dns_name H raw = Inr s \<longleftrightarrow>
     s = to_lowercase (trim_end_matches CHR ''.'' raw) \<and> s \<noteq> [] \<and> is_ok (from_ascii H s)"
  (is "?l \<longleftrightarrow> ?r")
proof -
  let ?n = "to_lowercase (trim_end_matches CHR ''.'' raw)"
  have "?n \<noteq> ''.''"
    using trim_end_matches_last [of "CHR ''.''" "to_lowercase raw"]
    by (auto simp: trim_end_matches_lowercase)
  then show ?thesis
    by (auto simp: parse_dns_name_def to_ascii_lowercase_eq Let_def is_ok_iff split: sum.splits)
qed

lemma parse_dns_name_normal: "parse_dns_name H raw = Inr s \<Longrightarrow> normal_name H s"
  using trim_end_matches_last [of "CHR ''.''" "to_lowercase raw"]
  by (auto simp: parse_dns_name_eq_Inr normal_name_def trim_end_matches_lowercase)

lemma parse_dns_name_fixpoint: "normal_name H s \<Longrightarrow> parse_dns_name H s = Inr s"
  by (simp add: parse_dns_name_eq_Inr normal_name_def trim_end_matches_id)

lemma parse_api_key_eq_Inr: "parse_api_key raw = Inr k \<longleftrightarrow> k = raw \<and> 32 \<le> length raw"
  by (auto simp: parse_api_key_def MIN_API_KEY_LEN_def)

lemma parse_max_tokens_range: "parse_max_tokens raw = Inr n \<Longrightarrow> 1 \<le> n \<and> n \<le> USIZE_MAX"
  by (auto simp: parse_max_tokens_def split: sum.splits if_splits dest: parse_uint_bound)

definition config_in_range :: "'nm hickory \<Rightarrow> config \<Rightarrow> bool" where
  "config_in_range H c \<longleftrightarrow>
     normal_name H (domain c) \<and> normal_name H (ns_hostname c) \<and> normal_name H (ns_hostname2 c) \<and>
     1 \<le> unat (dns_port c) \<and> 1 \<le> unat (api_port c) \<and> 32 \<le> length (api_key c) \<and>
     1 \<le> unat (txt_ttl c) \<and> unat (txt_ttl c) \<le> 86400 \<and>
     1 \<le> unat (default_ttl c) \<and> unat (default_ttl c) \<le> 86400 \<and>
     1 \<le> token_lifetime_secs c \<and> token_lifetime_secs c \<le> 86400 \<and>
     1 \<le> max_tokens c \<and> max_tokens c \<le> USIZE_MAX"

lemma unat_word_of_nat_u16: "n \<le> 65535 \<Longrightarrow> unat (word_of_nat n :: u16) = n"
  by (simp add: unat_of_nat)

lemma unat_word_of_nat_u32: "n \<le> 86400 \<Longrightarrow> unat (word_of_nat n :: u32) = n"
  by (simp add: unat_of_nat)

lemma ranged_nat:
  assumes "clap_law C" and "ranged_int C lo hi s = Inr n"
  shows "lo \<le> n" and "n \<le> hi"
  using assms by (auto simp: clap_law_def)

lemma ranged_u16:
  assumes "clap_law C" and "ranged_int C 1 65535 s = Inr n"
  shows "1 \<le> unat (word_of_nat n :: u16)"
  using ranged_nat [OF assms] by (simp add: unat_word_of_nat_u16)

lemma ranged_u32:
  assumes "clap_law C" and "ranged_int C 1 86400 s = Inr n"
  shows "1 \<le> unat (word_of_nat n :: u32)" and "unat (word_of_nat n :: u32) \<le> 86400"
  using ranged_nat [OF assms] by (simp_all add: unat_word_of_nat_u32)

lemma parse_config_ok:
  assumes "clap_law C" and "parse_config H C args = Inr c"
  shows "config_in_range H c"
proof -
  note port = ranged_u16 [OF assms(1)] and ttl = ranged_u32 [OF assms(1)]
    and life = ranged_nat [OF assms(1)]
  from assms(2) show ?thesis
    unfolding parse_config_def and_then_eq_Inr config_in_range_def
    by (elim exE conjE)
      (auto simp only: sum.inject config.simps parse_api_key_eq_Inr split: option.splits
        intro: port ttl life dest: parse_max_tokens_range parse_dns_name_normal)
qed

text \<open>
  C40. A configuration that the command line accepts has the form the rest of the program relies
  on: the three names are non-empty, in lower case, without a trailing dot and accepted by the
  DNS library; the API key has at least 32 bytes; ports, both TTLs, the token lifetime and the
  token limit are in their ranges, with no truncation on the way into their machine types.
\<close>

theorem parse_config_in_range:
  assumes "clap_law C" and "parse_config H C args = Inr c"
  shows "config_in_range H c"
  by (rule parse_config_ok [OF assms])

text \<open>A command line that gives only the API key, under a clap that reads decimal integers.\<close>

definition decimal_clap :: clap where
  "decimal_clap =
     \<lparr>ranged_int = (\<lambda>lo hi s. case parse_uint hi s of
          Inl e \<Rightarrow> Inl (parse_int_error_text e)
        | Inr n \<Rightarrow> if lo \<le> n then Inr n else Inl ''out of range''),
      ip_addr_arg = (\<lambda>s. Inr (V4 (Ipv4 127 0 0 1))),
      ipv4_arg = (\<lambda>s. Inr (Ipv4 127 0 0 1)),
      missing_arg = (\<lambda>s. ''missing '' @ s)\<rparr>"

definition sample_key :: string where
  "sample_key = ''0123456789abcdef0123456789abcdef''"

definition sample_config :: config where
  "sample_config =
     \<lparr>domain = ''xip.example.com'', ns_hostname = ''ns1.xip.example.com'',
      ns_hostname2 = ''ns2.xip.example.com'', dns_bind = V4 (Ipv4 127 0 0 1), dns_port = 53,
      api_bind = V4 (Ipv4 127 0 0 1), api_port = 8080, ns_ip = Ipv4 127 0 0 1,
      api_key = sample_key, txt_ttl = 60, default_ttl = 60, token_lifetime_secs = 600,
      max_tokens = 100\<rparr>"

lemma sample_config_sel [simp]:
  "domain sample_config = ''xip.example.com''"
  "ns_hostname sample_config = ''ns1.xip.example.com''"
  "ns_hostname2 sample_config = ''ns2.xip.example.com''"
  "dns_port sample_config = 53" "api_port sample_config = 8080"
  "ns_ip sample_config = Ipv4 127 0 0 1" "api_key sample_config = sample_key"
  "txt_ttl sample_config = 60" "default_ttl sample_config = 60"
  "token_lifetime_secs sample_config = 600" "max_tokens sample_config = 100"
  by (simp_all add: sample_config_def)

lemma clap_law_decimal: "clap_law decimal_clap"
  by (auto simp: clap_law_def decimal_clap_def split: sum.splits if_splits dest: parse_uint_bound)

lemma parse_dns_name_eq_Inr_text:
  "parse_dns_name text_hickory s =
     (let n = to_lowercase (trim_end_matches CHR ''.'' s)
      in if n = [] \<or> n = ''.'' then Inl ''DNS name must not be empty or the root zone'' else Inr n)"
  by (simp add: parse_dns_name_def to_ascii_lowercase_eq Let_def)

lemma parse_sample_config:
  "parse_config text_hickory decimal_clap [''SAFEXIP_API_KEY'' \<mapsto> sample_key] = Inr sample_config"
  by (simp add: parse_config_def arg_or_def Let_def trim_end_matches_def ascii_lower_def
      parse_dns_name_eq_Inr_text decimal_clap_def parse_uint_def
      to_digit_def parse_api_key_eq_Inr sample_config_def sample_key_def parse_max_tokens_def
      USIZE_MAX_def parse_api_key_def MIN_API_KEY_LEN_def)

theorem parse_config_in_range_witness:
  "clap_law decimal_clap \<and>
   parse_config text_hickory decimal_clap [''SAFEXIP_API_KEY'' \<mapsto> sample_key] = Inr sample_config \<and>
   config_in_range text_hickory sample_config"
  using parse_config_in_range [OF clap_law_decimal parse_sample_config]
    clap_law_decimal parse_sample_config by simp

end
