(* ===== verification/Wire.thy ===== *)
theory Wire
  imports Config
begin

text \<open>
  Model of \<open>src/wire.rs\<close>: the construction of the complete ACME TXT response, the test that it
  survives encoding with every record, and the search for the largest token count that does.
  The \<open>expect\<close> calls are branches to \<open>None\<close>. The doubling loop is a partial function, because
  nothing but its arguments makes it stop; that it does stop from the values the code starts it
  with is \<open>grow_total\<close>. The locale \<open>capacity_probe\<close> is what the callers rely on: an answer for
  each count and a maximum. Its laws hold of the model without any hypothesis on the encoder.
\<close>

subsection \<open>Definitions\<close>

definition MAX_DNS_RECORDS :: nat where
  "MAX_DNS_RECORDS = 65535"

record 'nm acme_wire_capacity =
  cap_acme_name :: 'nm
  cap_zone :: 'nm
  cap_ns_hostname :: 'nm
  cap_txt_ttl :: u32

definition from_config :: "'nm hickory \<Rightarrow> config \<Rightarrow> 'nm acme_wire_capacity option" where
  "from_config H c = do {
     a \<leftarrow> expect (from_ascii H (acme_name c));
     z \<leftarrow> expect (from_ascii H (domain c));
     n \<leftarrow> expect (from_ascii H (ns_hostname c));
     Some \<lparr>cap_acme_name = a, cap_zone = z, cap_ns_hostname = n, cap_txt_ttl = txt_ttl c\<rparr>
   }"

definition txt_record :: "'nm \<Rightarrow> u32 \<Rightarrow> string \<Rightarrow> 'nm rr" where
  "txt_record name ttl v = \<lparr>rr_name = name, rr_ttl = ttl, rr_data = RTXT [v]\<rparr>"

definition soa_record :: "'nm hickory \<Rightarrow> 'nm \<Rightarrow> 'nm \<Rightarrow> u32 \<Rightarrow> 'nm rr option" where
  "soa_record H zone ns serial = do {
     rname \<leftarrow> expect (from_ascii H (''admin.'' @ to_ascii H zone));
     Some \<lparr>rr_name = zone, rr_ttl = 10,
           rr_data = RSOA ns rname serial 3600 900 86400 10\<rparr>
   }"

definition response :: "'nm hickory \<Rightarrow> 'nm acme_wire_capacity \<Rightarrow> string list \<Rightarrow> 'nm message option" where
  "response H cap values = do {
     let m = (message_response H 0 Query)\<lparr>authoritative := True\<rparr>;
     let m = add_query (query_new H (cap_acme_name cap) TXT) m;
     let m = fold (\<lambda>v. add_answer (txt_record (cap_acme_name cap) (cap_txt_ttl cap) v)) values m;
     soa \<leftarrow> soa_record H (cap_zone cap) (cap_ns_hostname cap) 0;
     let m = add_authority soa m;
     Some (set_edns (set_max_payload H 1232 (edns_new H)) m)
   }"

definition is_complete :: "'nm hickory \<Rightarrow> 'nm message \<Rightarrow> nat \<Rightarrow> bool" where
  "is_complete H m expected_answers =
     (case to_vec H m of
        None \<Rightarrow> False
      | Some encoded \<Rightarrow>
          (case from_vec H encoded of
             None \<Rightarrow> False
           | Some decoded \<Rightarrow> \<not> truncation decoded \<and> length (answers decoded) = expected_answers))"

definition fits :: "'nm hickory \<Rightarrow> 'nm acme_wire_capacity \<Rightarrow> string list \<Rightarrow> bool option" where
  "fits H cap values = map_option (\<lambda>m. is_complete H m (length values)) (response H cap values)"

definition fits_count :: "'nm hickory \<Rightarrow> 'nm acme_wire_capacity \<Rightarrow> nat \<Rightarrow> bool option" where
  "fits_count H cap n =
     map_option (\<lambda>m. is_complete H m n) (response H cap (replicate n ''x''))"

text \<open>The two loops of \<open>maximum_token_count\<close>, each with its own pair of bounds.\<close>

partial_function (option) grow :: "(nat \<Rightarrow> bool option) \<Rightarrow> nat \<Rightarrow> nat \<Rightarrow> (nat \<times> nat) option" where
  "grow probe low high =
     (if high < MAX_DNS_RECORDS then do {
        b \<leftarrow> probe high;
        if b then grow probe high (min (high * 2) MAX_DNS_RECORDS) else Some (low, high)
      } else Some (low, high))"

function bisect :: "(nat \<Rightarrow> bool option) \<Rightarrow> nat \<Rightarrow> nat \<Rightarrow> (nat \<times> nat) option" where
  "bisect probe low high =
     (if low + 1 < high then
        let middle = low + (high - low) div 2 in
        (case probe middle of
           None \<Rightarrow> None
         | Some b \<Rightarrow> if b then bisect probe middle high else bisect probe low middle)
      else Some (low, high))"
  by pat_completeness auto
termination
  by (relation "measure (\<lambda>(p, low, high). high - low)") auto

declare bisect.simps [simp del]

definition max_count :: "(nat \<Rightarrow> bool option) \<Rightarrow> nat option" where
  "max_count probe = do {
     (low, high) \<leftarrow> grow probe 0 1;
     (low, high) \<leftarrow> bisect probe low high;
     if high = MAX_DNS_RECORDS then do {
       b \<leftarrow> probe high;
       Some (if b then high else low)
     } else Some low
   }"

definition maximum_token_count :: "'nm hickory \<Rightarrow> 'nm acme_wire_capacity \<Rightarrow> nat option" where
  "maximum_token_count H cap = max_count (fits_count H cap)"

subsection \<open>The search\<close>

text \<open>
  What holds of the two bounds throughout both loops: the lower one is 0 or fits, the upper one
  does not fit unless it is the limit, which has not been probed.
\<close>

definition bracket :: "(nat \<Rightarrow> bool option) \<Rightarrow> nat \<times> nat \<Rightarrow> bool" where
  "bracket probe = (\<lambda>(low, high).
     low < high \<and> high \<le> MAX_DNS_RECORDS \<and> (low = 0 \<or> probe low = Some True) \<and>
     (high = MAX_DNS_RECORDS \<or> probe high = Some False))"

lemma grow_total:
  assumes "\<And>n. probe n \<noteq> None" and "low < high" and "high \<le> MAX_DNS_RECORDS"
    and "low = 0 \<or> probe low = Some True"
  shows "\<exists>b. grow probe low high = Some b \<and> bracket probe b"
  using assms(2-4)
proof (induction "MAX_DNS_RECORDS - high" arbitrary: low high rule: less_induct)
  case less
  show ?case
  proof (cases "high < MAX_DNS_RECORDS")
    case False
    with less.prems show ?thesis by (simp add: grow.simps bracket_def)
  next
    case True
    obtain b where b: "probe high = Some b" using assms(1) by blast
    show ?thesis
    proof (cases b)
      case False
      with True b less.prems show ?thesis by (simp add: grow.simps bracket_def)
    next
      case True
      let ?high = "min (high * 2) MAX_DNS_RECORDS"
      have "\<exists>r. grow probe high ?high = Some r \<and> bracket probe r"
        using less.prems \<open>high < MAX_DNS_RECORDS\<close> b True by (intro less.hyps) auto
      with \<open>high < MAX_DNS_RECORDS\<close> b True show ?thesis by (simp add: grow.simps [of probe low])
    qed
  qed
qed

lemma grow_bracket:
  assumes "grow probe low high = Some b" and "low < high" and "high \<le> MAX_DNS_RECORDS"
    and "low = 0 \<or> probe low = Some True"
  shows "bracket probe b"
proof -
  let ?P = "\<lambda>probe low high b. low < high \<longrightarrow> high \<le> MAX_DNS_RECORDS \<longrightarrow>
    (low = 0 \<or> probe low = Some True) \<longrightarrow> bracket probe b"
  have "?P probe low high b"
  proof (rule grow.raw_induct [where P = ?P, OF _ assms(1)])
    fix g :: "(nat \<Rightarrow> bool option) \<Rightarrow> nat \<Rightarrow> nat \<Rightarrow> (nat \<times> nat) option"
      and probe :: "nat \<Rightarrow> bool option" and low high and b :: "nat \<times> nat"
    assume IH: "\<And>probe low high b. g probe low high = Some b \<Longrightarrow> ?P probe low high b"
      and eq: "(if high < MAX_DNS_RECORDS then probe high \<bind> (\<lambda>b. if b
          then g probe high (min (high * 2) MAX_DNS_RECORDS) else Some (low, high))
        else Some (low, high)) = Some b"
    show "?P probe low high b"
    proof (intro impI)
      assume lo: "low < high" and hi: "high \<le> MAX_DNS_RECORDS" and fit: "low = 0 \<or> probe low = Some True"
      show "bracket probe b"
      proof (cases "high < MAX_DNS_RECORDS")
        case False
        with eq lo hi fit show ?thesis by (auto simp: bracket_def)
      next
        case True
        with eq obtain c where c: "probe high = Some c"
          and rest: "(if c then g probe high (min (high * 2) MAX_DNS_RECORDS) else Some (low, high)) = Some b"
          by (auto simp: bind_eq_Some_conv)
        show ?thesis
        proof (cases c)
          case True
          with rest have "g probe high (min (high * 2) MAX_DNS_RECORDS) = Some b" by simp
          from IH [OF this] lo c True \<open>high < MAX_DNS_RECORDS\<close> show ?thesis by simp
        next
          case False
          with rest c lo hi fit show ?thesis by (auto simp: bracket_def)
        qed
      qed
    qed
  qed
  with assms(2-4) show ?thesis by blast
qed

lemma bisect_stop: "\<not> low + 1 < high \<Longrightarrow> bisect probe low high = Some (low, high)"
  by (simp add: bisect.simps [of probe low high])

lemma bisect_step:
  assumes "low + 1 < high"
  shows "bisect probe low high =
    (case probe (low + (high - low) div 2) of
       None \<Rightarrow> None
     | Some b \<Rightarrow> if b then bisect probe (low + (high - low) div 2) high
                 else bisect probe low (low + (high - low) div 2))"
  using assms by (simp add: bisect.simps [of probe low high] Let_def)

lemma bisect_bracket:
  assumes "bisect probe low high = Some r" and "bracket probe (low, high)"
  shows "bracket probe r \<and> snd r = Suc (fst r)"
  using assms
proof (induction probe low high rule: bisect.induct)
  case (1 probe low high)
  define m where "m = low + (high - low) div 2"
  show ?case
  proof (cases "low + 1 < high")
    case False
    with "1.prems" show ?thesis by (auto simp: bisect_stop bracket_def)
  next
    case True
    then have m: "low < m" "m < high" by (auto simp: m_def)
    from "1.prems"(1) True obtain b where b: "probe m = Some b"
      and rec: "(if b then bisect probe m high else bisect probe low m) = Some r"
      unfolding m_def by (auto simp: bisect_step split: option.splits)
    show ?thesis
    proof (cases b)
      case True
      with b m "1.prems"(2) have "bracket probe (m, high)" by (auto simp: bracket_def)
      with True b rec \<open>low + 1 < high\<close> "1.IH"(1) [OF _ m_def b] show ?thesis by simp
    next
      case False
      with b m "1.prems"(2) have "bracket probe (low, m)" by (auto simp: bracket_def)
      with False b rec \<open>low + 1 < high\<close> "1.IH"(2) [OF _ m_def b] show ?thesis by simp
    qed
  qed
qed

lemma bisect_total:
  assumes "\<And>n. probe n \<noteq> None"
  shows "bisect probe low high \<noteq> None"
  using assms
proof (induction probe low high rule: bisect.induct)
  case (1 probe low high)
  show ?case
  proof (cases "low + 1 < high")
    case True
    obtain b where "probe (low + (high - low) div 2) = Some b" using "1.prems" by blast
    with True "1.IH" "1.prems" show ?thesis by (cases b) (simp_all add: bisect_step)
  qed (simp add: bisect_stop)
qed

text \<open>
  The laws of the interface. \<open>max_count_sound\<close> asks nothing of the probe: whenever the search
  returns, its result is at most the limit, fits unless it is 0, and the next count does not fit
  unless it is the limit.
\<close>

lemma max_count_sound:
  assumes "max_count probe = Some n"
  shows "n \<le> MAX_DNS_RECORDS \<and> (n = 0 \<or> probe n = Some True) \<and>
    (n = MAX_DNS_RECORDS \<or> probe (Suc n) = Some False)"
proof -
  from assms obtain low high low' high' where
    g: "grow probe 0 1 = Some (low, high)" and b: "bisect probe low high = Some (low', high')"
    and r: "(if high' = MAX_DNS_RECORDS then probe high' \<bind> (\<lambda>b. Some (if b then high' else low'))
             else Some low') = Some n"
    by (auto simp: max_count_def bind_eq_Some_conv)
  have "bracket probe (low, high)"
    by (rule grow_bracket [OF g]) (simp_all add: MAX_DNS_RECORDS_def)
  with b have "bracket probe (low', high')" and "high' = Suc low'"
    using bisect_bracket by fastforce+
  with r show ?thesis
    by (auto simp: bracket_def bind_eq_Some_conv split: if_splits)
qed

lemma max_count_total:
  assumes "\<And>n. probe n \<noteq> None"
  shows "max_count probe \<noteq> None"
proof -
  obtain low high where "grow probe 0 1 = Some (low, high)"
    using grow_total [of probe 0 1] assms by (auto simp: MAX_DNS_RECORDS_def)
  moreover obtain low' high' where "bisect probe low high = Some (low', high')"
    using bisect_total [of probe low high] assms by fastforce
  moreover obtain b where "probe high' = Some b" using assms by blast
  ultimately show ?thesis by (cases "high' = MAX_DNS_RECORDS") (auto simp: max_count_def)
qed

lemma max_count_probes: "max_count probe = Some n \<Longrightarrow> probe 1 \<noteq> None"
  by (cases "probe (Suc 0)")
    (auto simp: max_count_def grow.simps [of probe 0 "Suc 0"] MAX_DNS_RECORDS_def)

subsection \<open>The interface: an answer for each count, and a maximum\<close>

locale capacity_probe =
  fixes probe :: "nat \<Rightarrow> bool option"
    and maximum :: "nat option"
  assumes maximum_sound: "maximum = Some n \<Longrightarrow>
      n \<le> MAX_DNS_RECORDS \<and> (n = 0 \<or> probe n = Some True) \<and>
      (n = MAX_DNS_RECORDS \<or> probe (Suc n) = Some False)"
    and maximum_total: "(\<And>n. probe n \<noteq> None) \<Longrightarrow> maximum \<noteq> None"
    and maximum_probes: "maximum = Some n \<Longrightarrow> probe 1 \<noteq> None"
begin

text \<open>
  If a count that fits stays fitting with records taken away, the counts that fit are exactly
  those up to the maximum.
\<close>

lemma maximum_exact:
  assumes "maximum = Some n"
    and down: "\<And>j k. probe k = Some True \<Longrightarrow> 0 < j \<Longrightarrow> j \<le> k \<Longrightarrow> probe j = Some True"
    and "0 < k" and "k \<le> MAX_DNS_RECORDS"
  shows "probe k = Some True \<longleftrightarrow> k \<le> n"
proof
  assume k: "probe k = Some True"
  show "k \<le> n"
  proof (rule ccontr)
    assume "\<not> k \<le> n"
    with k have "probe (Suc n) = Some True" by (auto intro: down)
    with maximum_sound [OF assms(1)] \<open>\<not> k \<le> n\<close> assms(4) show False by auto
  qed
next
  assume "k \<le> n"
  with maximum_sound [OF assms(1)] assms(3) show "probe k = Some True" by (auto intro: down)
qed

end

interpretation wire: capacity_probe "fits_count H cap" "maximum_token_count H cap" for H cap
  unfolding maximum_token_count_def
  by unfold_locales (fact max_count_sound, fact max_count_total, fact max_count_probes)

subsection \<open>The response that is measured\<close>

definition soa_ok :: "'nm hickory \<Rightarrow> 'nm \<Rightarrow> bool" where
  "soa_ok H zone \<longleftrightarrow> is_ok (from_ascii H (''admin.'' @ to_ascii H zone))"

lemma soa_record_eq_None: "soa_record H zone ns serial = None \<longleftrightarrow> \<not> soa_ok H zone"
  by (cases "from_ascii H (''admin.'' @ to_ascii H zone)") (simp_all add: soa_record_def soa_ok_def)

lemma soa_record_Some:
  "soa_record H zone ns serial = Some r \<Longrightarrow>
     rr_name r = zone \<and> rr_ttl r = 10 \<and>
     (\<exists>rn. rr_data r = RSOA ns rn serial 3600 900 86400 10)"
  by (auto simp: soa_record_def bind_eq_Some_conv)

lemma fold_txt_records:
  "fold (\<lambda>v. add_answer (txt_record n ttl v)) vs m = m\<lparr>answers := answers m @ map (txt_record n ttl) vs\<rparr>"
  by (induction vs arbitrary: m) (simp_all add: add_answer_def)

lemma response_eq_None: "response H cap values = None \<longleftrightarrow> \<not> soa_ok H (cap_zone cap)"
  by (auto simp: response_def Let_def bind_eq_None_conv soa_record_eq_None)

lemma response_answers:
  assumes "response_law H" and "response H cap values = Some m"
  shows "answers m = map (txt_record (cap_acme_name cap) (cap_txt_ttl cap)) values"
  using assms
  by (auto simp: response_def Let_def bind_eq_Some_conv fold_txt_records message_build_defs
      response_law_def)

lemma fits_eq_None: "fits H cap values = None \<longleftrightarrow> \<not> soa_ok H (cap_zone cap)"
  by (simp add: fits_def response_eq_None)

lemma fits_count_fits: "fits_count H cap n = fits H cap (replicate n ''x'')"
  by (simp add: fits_count_def fits_def)

lemma maximum_token_count_total: "soa_ok H (cap_zone cap) \<Longrightarrow> maximum_token_count H cap \<noteq> None"
  using wire.maximum_total [of H cap] by (auto simp: fits_count_fits fits_eq_None)

lemma maximum_soa_ok: "maximum_token_count H cap = Some n \<Longrightarrow> soa_ok H (cap_zone cap)"
  using wire.maximum_probes [of H cap n] by (simp add: fits_count_fits fits_eq_None)

text \<open>
  The only thing the program relies on in the encoder's treatment of size: a response that is
  complete stays complete when one of its TXT answers is left out.
\<close>

definition drop_complete :: "'nm hickory \<Rightarrow> 'nm acme_wire_capacity \<Rightarrow> bool" where
  "drop_complete H cap \<longleftrightarrow>
     (\<forall>xs v ys. fits H cap (xs @ v # ys) = Some True \<longrightarrow> fits H cap (xs @ ys) = Some True)"

lemma drop_completeD:
  "drop_complete H cap \<Longrightarrow> fits H cap (xs @ v # ys) = Some True \<Longrightarrow> fits H cap (xs @ ys) = Some True"
  by (auto simp: drop_complete_def)

lemma fits_filter:
  assumes "drop_complete H cap" and "fits H cap (ps @ vs) = Some True"
  shows "fits H cap (ps @ filter P vs) = Some True"
  using assms(2)
proof (induction vs arbitrary: ps)
  case Nil
  then show ?case by simp
next
  case (Cons v vs)
  show ?case
  proof (cases "P v")
    case True
    with Cons.IH [of "ps @ [v]"] Cons.prems show ?thesis by simp
  next
    case False
    with Cons.IH [of ps] drop_completeD [OF assms(1) Cons.prems] show ?thesis by simp
  qed
qed

lemma fits_count_down:
  assumes "drop_complete H cap" and "fits_count H cap k = Some True" and "j \<le> k"
  shows "fits_count H cap j = Some True"
  using assms(3,2)
proof (induction rule: inc_induct)
  case base
  then show ?case .
next
  case (step n)
  then show ?case
    using drop_completeD [OF assms(1), of "[]" "''x''" "replicate n ''x''"]
    by (simp add: fits_count_fits)
qed

subsection \<open>Properties\<close>

text \<open>
  C30. The search for the largest token count returns whenever the SOA record of the zone can be
  built, whatever the encoder does: the doubling and the bisection both stop. Its result is a
  count at most 65535 whose response is complete (or 0), and the next larger count is not
  complete (or the result is 65535).
\<close>

theorem maximum_token_count_returns:
  assumes "soa_ok H (cap_zone cap)"
  shows "\<exists>n. maximum_token_count H cap = Some n \<and> n \<le> 65535 \<and>
    (n = 0 \<or> fits_count H cap n = Some True) \<and>
    (n = 65535 \<or> fits_count H cap (Suc n) = Some False)"
proof -
  obtain n where n: "maximum_token_count H cap = Some n"
    using wire.maximum_total [of H cap] assms by (auto simp: fits_count_fits fits_eq_None)
  from wire.maximum_sound [OF n] n show ?thesis by (simp add: MAX_DNS_RECORDS_def)
qed

text \<open>
  C29. With an encoder that keeps a complete response complete when an answer is dropped, the
  binary search is exact: a positive count up to 65535 fits if and only if it is at most the
  returned maximum.
\<close>

theorem maximum_token_count_exact:
  assumes "drop_complete H cap" and "maximum_token_count H cap = Some n"
    and "0 < k" and "k \<le> 65535"
  shows "fits_count H cap k = Some True \<longleftrightarrow> k \<le> n"
  using assms by (intro wire.maximum_exact) (auto simp: MAX_DNS_RECORDS_def intro: fits_count_down)

subsection \<open>An encoder with a known limit\<close>

text \<open>An encoding that keeps only the number of answers, and fails above a limit.\<close>

definition counting_hickory :: "nat \<Rightarrow> string hickory" where
  "counting_hickory k = text_hickory\<lparr>
     to_vec := (\<lambda>m. if length (answers m) \<le> k then Some (replicate (length (answers m)) 0) else None),
     from_vec := (\<lambda>bs. Some ((message_response text_hickory 0 Query)
       \<lparr>answers := replicate (length bs) (txt_record ''x'' 0 ''x'')\<rparr>))\<rparr>"

lemma counting_hickory_sel [simp]:
  "message_response (counting_hickory k) = message_response text_hickory"
  "from_ascii (counting_hickory k) s = (if s = [] then Inl ''empty name'' else Inr s)"
  "to_ascii (counting_hickory k) s = s"
  "query_new (counting_hickory k) s t = \<lparr>q_name = s, q_type = t, q_class = IN\<rparr>"
  by (simp_all add: counting_hickory_def)

definition sample_capacity :: "string acme_wire_capacity" where
  "sample_capacity = \<lparr>cap_acme_name = ''_acme-challenge.xip.test'', cap_zone = ''xip.test'',
     cap_ns_hostname = ''ns1.xip.test'', cap_txt_ttl = 60\<rparr>"

lemma counting_fits: "fits (counting_hickory k) cap vs = Some (length vs \<le> k)"
  by (simp add: fits_def response_def is_complete_def counting_hickory_def text_hickory_def
      soa_record_def fold_txt_records message_build_defs)

lemma counting_fits_count: "fits_count (counting_hickory k) cap n = Some (n \<le> k)"
  by (simp add: fits_count_fits counting_fits)

lemma counting_drop_complete: "drop_complete (counting_hickory k) cap"
  by (auto simp: drop_complete_def counting_fits)

lemma counting_soa_ok: "soa_ok (counting_hickory k) zone"
  by (simp add: soa_ok_def counting_hickory_def text_hickory_def)

lemma counting_maximum: "maximum_token_count (counting_hickory 5) cap = Some 5"
  by (simp add: maximum_token_count_def max_count_def grow.simps bisect.simps counting_fits_count
      MAX_DNS_RECORDS_def)

theorem maximum_token_count_returns_witness:
  "soa_ok (counting_hickory 5) (cap_zone sample_capacity) \<and>
   (\<exists>n. maximum_token_count (counting_hickory 5) sample_capacity = Some n \<and> n \<le> 65535 \<and>
     (n = 0 \<or> fits_count (counting_hickory 5) sample_capacity n = Some True) \<and>
     (n = 65535 \<or> fits_count (counting_hickory 5) sample_capacity (Suc n) = Some False))"
  using maximum_token_count_returns [OF counting_soa_ok] counting_soa_ok by blast

theorem maximum_token_count_exact_witness:
  "fits_count (counting_hickory 5) sample_capacity 3 = Some True \<longleftrightarrow> (3::nat) \<le> 5"
  by (rule maximum_token_count_exact [OF counting_drop_complete counting_maximum]) simp_all

end
