(* ===== verification/Validate.thy ===== *)
theory Validate
  imports Wire
begin

text \<open>
  Model of \<open>Config::validate\<close> (\<open>src/config.rs\<close>): the checks across fields that run once, before
  any listener starts, in the source's order and with its messages. The outer \<open>option\<close> is the
  panic of \<open>AcmeWireCapacity::from_config\<close> and of the SOA construction inside the search for the
  largest token count.
\<close>

subsection \<open>Definitions\<close>

fun check_nameservers :: "string \<Rightarrow> string list \<Rightarrow> string + unit" where
  "check_nameservers zn [] = Inr ()"
| "check_nameservers zn (ns # nss) =
     (if ns \<noteq> zn \<and> \<not> ends_with ns (''.'' @ zn)
      then Inl (''nameserver '' @ ns @ '' must be inside the delegated zone '' @ zn)
      else check_nameservers zn nss)"

fun check_derived :: "'nm hickory \<Rightarrow> string list \<Rightarrow> string + unit" where
  "check_derived H [] = Inr ()"
| "check_derived H (derived # ds) =
     (case from_ascii H derived of
        Inl error \<Rightarrow> Inl (''derived DNS name '' @ derived @ '' is invalid: '' @ error)
      | Inr _ \<Rightarrow> check_derived H ds)"

definition validate :: "'nm hickory \<Rightarrow> config \<Rightarrow> (string + unit) option" where
  "validate H c =
     (if ns_hostname c = ns_hostname2 c
      then Some (Inl ''the two nameserver hostnames must be different'')
      else case check_nameservers (domain c) [ns_hostname c, ns_hostname2 c] of
        Inl e \<Rightarrow> Some (Inl e)
      | Inr _ \<Rightarrow>
      (case check_derived H [acme_name c, ''admin.'' @ domain c] of
        Inl e \<Rightarrow> Some (Inl e)
      | Inr _ \<Rightarrow> do {
          cap \<leftarrow> from_config H c;
          wire_max \<leftarrow> maximum_token_count H cap;
          Some (if max_tokens c > wire_max
                then Inl (''token limit must be between 1 and '' @ show_nat wire_max @
                          '' for the configured DNS names'')
                else Inr ())
        }))"

subsection \<open>Lemmas\<close>

lemma check_nameservers_ok:
  "check_nameservers zn nss = Inr () \<longleftrightarrow> (\<forall>ns\<in>set nss. ns = zn \<or> ends_with ns (''.'' @ zn))"
  by (induction nss) auto

lemma check_derived_ok:
  "check_derived H ds = Inr () \<longleftrightarrow> (\<forall>d\<in>set ds. is_ok (from_ascii H d))"
  by (induction ds) (auto simp: is_ok_iff split: sum.splits)

lemma from_config_eq_Some:
  "from_config H c = Some cap \<longleftrightarrow>
     from_ascii H (acme_name c) = Inr (cap_acme_name cap) \<and>
     from_ascii H (domain c) = Inr (cap_zone cap) \<and>
     from_ascii H (ns_hostname c) = Inr (cap_ns_hostname cap) \<and>
     cap_txt_ttl cap = txt_ttl c"
  by (cases cap) (auto simp: from_config_def bind_eq_Some_conv)

lemma from_config_total:
  "is_ok (from_ascii H (acme_name c)) \<Longrightarrow> is_ok (from_ascii H (domain c)) \<Longrightarrow>
     is_ok (from_ascii H (ns_hostname c)) \<Longrightarrow> \<exists>cap. from_config H c = Some cap"
  by (auto simp: from_config_def is_ok_iff)

text \<open>What an accepted configuration has, in the form the DNS and API proofs use.\<close>

definition valid_config :: "'nm hickory \<Rightarrow> config \<Rightarrow> bool" where
  "valid_config H c \<longleftrightarrow> config_in_range H c \<and> validate H c = Some (Inr ())"

lemma validate_okD:
  assumes "validate H c = Some (Inr ())"
  shows "ns_hostname c \<noteq> ns_hostname2 c"
    and "ns_hostname c = domain c \<or> ends_with (ns_hostname c) (''.'' @ domain c)"
    and "ns_hostname2 c = domain c \<or> ends_with (ns_hostname2 c) (''.'' @ domain c)"
    and "is_ok (from_ascii H (acme_name c))" and "is_ok (from_ascii H (''admin.'' @ domain c))"
    and "\<exists>cap m. from_config H c = Some cap \<and> maximum_token_count H cap = Some m \<and> max_tokens c \<le> m"
proof -
  from assms have ns: "check_nameservers (domain c) [ns_hostname c, ns_hostname2 c] = Inr ()"
    and dv: "check_derived H [acme_name c, ''admin.'' @ domain c] = Inr ()"
    and ne: "ns_hostname c \<noteq> ns_hostname2 c"
    by (auto simp: validate_def split: if_splits sum.splits)
  show "ns_hostname c \<noteq> ns_hostname2 c" by (fact ne)
  from ns show "ns_hostname c = domain c \<or> ends_with (ns_hostname c) (''.'' @ domain c)"
    and "ns_hostname2 c = domain c \<or> ends_with (ns_hostname2 c) (''.'' @ domain c)"
    unfolding check_nameservers_ok by simp_all
  from dv show "is_ok (from_ascii H (acme_name c))" and "is_ok (from_ascii H (''admin.'' @ domain c))"
    unfolding check_derived_ok by simp_all
  from assms ns dv ne show
    "\<exists>cap m. from_config H c = Some cap \<and> maximum_token_count H cap = Some m \<and> max_tokens c \<le> m"
    unfolding validate_def
    by (auto simp: bind_eq_Some_conv simp del: check_nameservers.simps check_derived.simps
        split: if_splits)
qed

lemma valid_config_soa_ok:
  assumes "valid_config H c" and "from_ascii H (domain c) = Inr zone"
  shows "soa_ok H zone"
proof -
  from assms(1) obtain cap m where "from_config H c = Some cap" and "maximum_token_count H cap = Some m"
    unfolding valid_config_def by (blast dest: validate_okD(6))
  then have "soa_ok H (cap_zone cap)" and "from_ascii H (domain c) = Inr (cap_zone cap)"
    by (auto dest: maximum_soa_ok simp: from_config_eq_Some)
  with assms(2) show ?thesis by simp
qed

lemma valid_config_tokens: "valid_config H c \<Longrightarrow> 1 \<le> max_tokens c \<and> max_tokens c \<le> 65535"
  using validate_okD(6) [of H c] wire.maximum_sound
  by (fastforce simp: valid_config_def config_in_range_def MAX_DNS_RECORDS_def)

lemma ends_with_in_zone:
  "ns = zn \<or> ends_with ns (''.'' @ zn) \<Longrightarrow> is_our_domain ns zn"
  by (auto simp: ends_with_iff is_our_domain_iff)

text \<open>
  The text a name was read from and the text that is printed for it stand for the same name (RFC
  1035, 5.1; they may differ in escapes), so a label can be put before the one when it can be put
  before the other.
\<close>

definition label_law :: "'nm hickory \<Rightarrow> bool" where
  "label_law H \<longleftrightarrow> (\<forall>t n. from_ascii H t = Inr n \<and> is_ok (from_ascii H (''admin.'' @ t)) \<longrightarrow>
     is_ok (from_ascii H (''admin.'' @ to_ascii H n)))"

lemma validate_decides:
  assumes "config_in_range H c"
    and "\<And>zone. from_ascii H (domain c) = Inr zone \<Longrightarrow> is_ok (from_ascii H (''admin.'' @ domain c)) \<Longrightarrow> soa_ok H zone"
  shows "\<exists>r. validate H c = Some r \<and>
    (r = Inr () \<longleftrightarrow>
       ns_hostname c \<noteq> ns_hostname2 c \<and>
       is_our_domain (ns_hostname c) (domain c) \<and> is_our_domain (ns_hostname2 c) (domain c) \<and>
       is_ok (from_ascii H (acme_name c)) \<and> is_ok (from_ascii H (''admin.'' @ domain c)) \<and>
       (\<exists>cap m. from_config H c = Some cap \<and> maximum_token_count H cap = Some m \<and>
          max_tokens c \<le> m))"
    (is "\<exists>r. _ \<and> (_ \<longleftrightarrow> ?ok)")
proof -
  have in_zone: "is_our_domain ns (domain c) \<longleftrightarrow> ns = domain c \<or> ends_with ns (''.'' @ domain c)"
    if "normal_name H ns" for ns
    using that assms(1) by (simp add: is_our_domain_iff ends_with_iff normal_name_def config_in_range_def)
  note zones = in_zone [of "ns_hostname c"] in_zone [of "ns_hostname2 c"]
  have total: "\<exists>cap m. from_config H c = Some cap \<and> maximum_token_count H cap = Some m"
    if acme: "is_ok (from_ascii H (acme_name c))" and admin: "is_ok (from_ascii H (''admin.'' @ domain c))"
  proof -
    obtain cap where cap: "from_config H c = Some cap"
      using from_config_total [of H c] acme assms(1) by (auto simp: config_in_range_def normal_name_def)
    then have "soa_ok H (cap_zone cap)" using assms(2) admin by (simp add: from_config_eq_Some)
    with cap show ?thesis using maximum_token_count_total by fastforce
  qed
  show ?thesis
  proof (cases "ns_hostname c \<noteq> ns_hostname2 c \<and>
      check_nameservers (domain c) [ns_hostname c, ns_hostname2 c] = Inr () \<and>
      check_derived H [acme_name c, ''admin.'' @ domain c] = Inr ()")
    case True
    with total obtain cap m where cap: "from_config H c = Some cap" "maximum_token_count H cap = Some m"
      unfolding check_derived_ok by auto
    have "?ok \<longleftrightarrow> max_tokens c \<le> m"
      using True cap assms(1) zones unfolding check_derived_ok check_nameservers_ok
      by (auto simp: config_in_range_def)
    with True cap show ?thesis
      by (simp add: validate_def not_less del: check_nameservers.simps check_derived.simps)
  next
    case False
    then have "\<exists>e. validate H c = Some (Inl e)"
      by (cases "check_nameservers (domain c) [ns_hostname c, ns_hostname2 c]";
          cases "check_derived H [acme_name c, ''admin.'' @ domain c]")
        (auto simp: validate_def simp del: check_nameservers.simps check_derived.simps)
    moreover have "\<not> ?ok"
      using False assms(1) zones unfolding check_derived_ok check_nameservers_ok
      by (auto simp: config_in_range_def)
    ultimately show ?thesis by auto
  qed
qed

subsection \<open>Properties\<close>

text \<open>
  C31. Validation of a configuration the command line produced never panics, as long as the DNS
  library prints the zone's name as it was given, and it accepts exactly when: the two
  nameservers differ and lie in the zone, the two derived names are valid, and the token limit is
  at most the largest count of minimal tokens the wire format carries for these names.
\<close>

theorem validate_correct:
  assumes "config_in_range H c"
    and "\<And>zone. from_ascii H (domain c) = Inr zone \<Longrightarrow> to_ascii H zone = domain c"
  shows "\<exists>r. validate H c = Some r \<and>
    (r = Inr () \<longleftrightarrow>
       ns_hostname c \<noteq> ns_hostname2 c \<and>
       is_our_domain (ns_hostname c) (domain c) \<and> is_our_domain (ns_hostname2 c) (domain c) \<and>
       is_ok (from_ascii H (acme_name c)) \<and> is_ok (from_ascii H (''admin.'' @ domain c)) \<and>
       (\<exists>cap m. from_config H c = Some cap \<and> maximum_token_count H cap = Some m \<and>
          max_tokens c \<le> m))"
  by (rule validate_decides [OF assms(1)]) (simp add: soa_ok_def assms(2))

text \<open>
  The token limit of an accepted configuration is never out of reach of the wire: any number
  of minimal tokens up to the configured limit fits one complete response.
\<close>

theorem accepted_limit_fits:
  assumes "validate H c = Some (Inr ())" and "from_config H c = Some cap"
    and "drop_complete H cap" and "1 \<le> max_tokens c" and "k \<le> max_tokens c"
  shows "fits_count H cap k = Some True"
proof -
  obtain m where m: "maximum_token_count H cap = Some m" and "max_tokens c \<le> m"
    using validate_okD(6) [OF assms(1)] assms(2) by auto
  with wire.maximum_sound [OF m] assms(4,5) have "fits_count H cap m = Some True" and "k \<le> m"
    by auto
  then show ?thesis by (rule fits_count_down [OF assms(3)])
qed

subsection \<open>The sample configuration is accepted\<close>

lemma sample_in_range: "config_in_range (counting_hickory k) sample_config"
  by (simp add: config_in_range_def normal_name_def ascii_lower_def sample_key_def USIZE_MAX_def)

definition sample_config_capacity :: "string acme_wire_capacity" where
  "sample_config_capacity =
     \<lparr>cap_acme_name = ''_acme-challenge.xip.example.com'', cap_zone = ''xip.example.com'',
      cap_ns_hostname = ''ns1.xip.example.com'', cap_txt_ttl = 60\<rparr>"

lemma sample_from_config: "from_config (counting_hickory k) sample_config = Some sample_config_capacity"
  by (simp add: from_config_eq_Some sample_config_capacity_def acme_name_def)

lemma sample_maximum: "maximum_token_count (counting_hickory 150) cap = Some 150"
  by (simp add: maximum_token_count_def max_count_def grow.simps bisect.simps counting_fits_count
      MAX_DNS_RECORDS_def)

lemma sample_validate: "validate (counting_hickory 150) sample_config = Some (Inr ())"
  by (simp add: validate_def sample_from_config sample_maximum ends_with_def acme_name_def)

lemma sample_valid_config: "valid_config (counting_hickory 150) sample_config"
  by (simp add: valid_config_def sample_in_range sample_validate)

theorem validate_correct_witness:
  "config_in_range (counting_hickory 150) sample_config \<and>
   (\<exists>r. validate (counting_hickory 150) sample_config = Some r \<and> r = Inr ())"
proof -
  have "to_ascii (counting_hickory 150) zone = domain sample_config"
    if "from_ascii (counting_hickory 150) (domain sample_config) = Inr zone" for zone
    using that by simp
  from validate_correct [OF sample_in_range this] show ?thesis
    using sample_in_range sample_validate by auto
qed

theorem accepted_limit_fits_witness:
  "fits_count (counting_hickory 150) sample_config_capacity 100 = Some True"
  by (rule accepted_limit_fits [OF sample_validate sample_from_config counting_drop_complete])
    simp_all

end
