(* ===== verification/Store.thy ===== *)
theory Store
  imports Validate "HOL-Library.AList"
begin

text \<open>
  Model of \<open>src/state.rs\<close>: the ACME challenge records, their expiry, the two capacity checks and
  the zone serial. Every operation of the source holds the write lock from its first to its last
  access, so each is one atomic function on the state; it takes the clock readings it makes as
  arguments (\<open>now\<close> in \<open>prune\<close>, \<open>later\<close> where an expiry is computed).

  The \<open>HashMap\<close> is an association list with distinct keys. The order in which \<open>values()\<close> visits
  it, which the standard library leaves open, is the parameter \<open>ho\<close>.
\<close>

subsection \<open>State\<close>

record token =
  token_value :: string
  expires_at :: instant

type_synonym zone_records = "(string \<times> token list) list"

record zone_state =
  records :: zone_records
  serial :: u32

record 'nm acme_records =
  state :: zone_state
  lifetime :: duration
  ar_max_tokens :: nat
  wire_capacity :: "'nm acme_wire_capacity"

datatype add_error = TokenLimitReached | DnsWireCapacityReached

definition with_serial :: "duration \<Rightarrow> nat \<Rightarrow> 'nm acme_wire_capacity \<Rightarrow> u32 \<Rightarrow> 'nm acme_records" where
  "with_serial life mx cap ser =
     \<lparr>state = \<lparr>records = [], serial = ser\<rparr>, lifetime = life, ar_max_tokens = mx,
      wire_capacity = cap\<rparr>"

text \<open>The serial of a fresh store is the wall clock in seconds, cut to 32 bits.\<close>

definition new_records :: "int \<Rightarrow> duration \<Rightarrow> nat \<Rightarrow> 'nm acme_wire_capacity \<Rightarrow> 'nm acme_records" where
  "new_records timestamp life mx cap = with_serial life mx cap (word_of_int timestamp)"

subsection \<open>Operations\<close>

definition advance_serial :: "u32 \<Rightarrow> u32" where
  "advance_serial s = s + 1"

definition token_count :: "zone_records \<Rightarrow> nat" where
  "token_count rs = sum_list (map (\<lambda>(k, ts). length ts) rs)"

definition retain_live :: "instant \<Rightarrow> zone_records \<Rightarrow> zone_records" where
  "retain_live now rs =
     filter (\<lambda>(k, ts). ts \<noteq> []) (map (\<lambda>(k, ts). (k, filter (\<lambda>t. expires_at t > now) ts)) rs)"

definition prune :: "instant \<Rightarrow> zone_records \<Rightarrow> zone_records \<times> bool" where
  "prune now rs =
     (let old_len = token_count rs; rs' = retain_live now rs
      in (rs', token_count rs' \<noteq> old_len))"

definition set_zone :: "zone_records \<Rightarrow> bool \<Rightarrow> 'nm acme_records \<Rightarrow> 'nm acme_records" where
  "set_zone rs changed ar =
     ar\<lparr>state := \<lparr>records = rs,
        serial = (if changed then advance_serial (serial (state ar)) else serial (state ar))\<rparr>\<rparr>"

text \<open>\<open>tokens.iter_mut().find(..)\<close> and the assignment to the expiry of what it finds.\<close>

fun refresh :: "string \<Rightarrow> instant \<Rightarrow> token list \<Rightarrow> token list option" where
  "refresh v e [] = None"
| "refresh v e (t # ts) =
     (if token_value t = v then Some (t\<lparr>expires_at := e\<rparr> # ts)
      else map_option (\<lambda>ts'. t # ts') (refresh v e ts))"

definition tokens_of :: "zone_records \<Rightarrow> string \<Rightarrow> token list" where
  "tokens_of rs name = (case map_of rs name of None \<Rightarrow> [] | Some ts \<Rightarrow> ts)"

definition all_values :: "zone_records \<Rightarrow> string list" where
  "all_values rs = concat (map (\<lambda>(k, ts). map token_value ts) rs)"

definition add :: "'nm hickory \<Rightarrow> (zone_records \<Rightarrow> zone_records) \<Rightarrow> instant \<Rightarrow> instant \<Rightarrow>
    string \<Rightarrow> string \<Rightarrow> 'nm acme_records \<Rightarrow> ((add_error + unit) \<times> 'nm acme_records) option" where
  "add H ho now later name v ar =
     (let (rs, changed) = prune now (records (state ar));
          deadline = plus_duration later (lifetime ar)
      in case Option.bind (map_of rs name) (refresh v deadline) of
           Some ts \<Rightarrow> Some (Inr (), set_zone (AList.update name ts rs) changed ar)
         | None \<Rightarrow>
             if token_count rs \<ge> ar_max_tokens ar
             then Some (Inl TokenLimitReached, set_zone rs changed ar)
             else do {
               b \<leftarrow> fits H (wire_capacity ar) (all_values (ho rs) @ [v]);
               Some (if \<not> b
                     then (Inl DnsWireCapacityReached, set_zone rs changed ar)
                     else (Inr (), set_zone
                       (AList.update name
                         (tokens_of rs name @ [\<lparr>token_value = v, expires_at = deadline\<rparr>]) rs)
                       True ar))
             })"

definition remove_value :: "string \<Rightarrow> token list \<Rightarrow> token list" where
  "remove_value v ts = filter (\<lambda>t. token_value t \<noteq> v) ts"

definition remove :: "instant \<Rightarrow> string \<Rightarrow> string \<Rightarrow> 'nm acme_records \<Rightarrow> 'nm acme_records" where
  "remove now name v ar =
     (let (rs, changed) = prune now (records (state ar))
      in case map_of rs name of
           None \<Rightarrow> set_zone rs changed ar
         | Some values \<Rightarrow>
             (let old_len = length values; values' = remove_value v values;
                  changed' = (changed \<or> length values' \<noteq> old_len);
                  rs' = (if values' = [] then AList.delete name rs else AList.update name values' rs)
              in set_zone rs' changed' ar))"

definition refresh_zone :: "instant \<Rightarrow> 'nm acme_records \<Rightarrow> 'nm acme_records" where
  "refresh_zone now ar =
     (let (rs, changed) = prune now (records (state ar)) in set_zone rs changed ar)"

definition get_with_serial ::
    "instant \<Rightarrow> string \<Rightarrow> 'nm acme_records \<Rightarrow> (string list \<times> u32) \<times> 'nm acme_records" where
  "get_with_serial now name ar =
     (let ar' = refresh_zone now ar
      in ((map token_value (tokens_of (records (state ar')) name), serial (state ar')), ar'))"

definition read_serial :: "instant \<Rightarrow> 'nm acme_records \<Rightarrow> u32 \<times> 'nm acme_records" where
  "read_serial now ar = (let ar' = refresh_zone now ar in (serial (state ar'), ar'))"

subsection \<open>Well-formed records\<close>

text \<open>
  One entry per name, no empty entry, no value twice under a name. The second conjunct is what
  \<open>retain\<close> and \<open>remove\<close> maintain, the third is what the search in \<open>add\<close> maintains.
\<close>

definition wf_records :: "zone_records \<Rightarrow> bool" where
  "wf_records rs \<longleftrightarrow>
     distinct (map fst rs) \<and> (\<forall>(k, ts)\<in>set rs. ts \<noteq> [] \<and> distinct (map token_value ts))"

lemma wf_records_Nil [simp]: "wf_records []"
  by (simp add: wf_records_def)

lemma wf_tokens_of: "wf_records rs \<Longrightarrow> distinct (map token_value (tokens_of rs n))"
  by (auto simp: wf_records_def tokens_of_def split: option.splits dest: map_of_SomeD)

lemma wf_map_of: "wf_records rs \<Longrightarrow> map_of rs n = Some ts \<Longrightarrow> ts \<noteq> [] \<and> distinct (map token_value ts)"
  by (auto simp: wf_records_def dest: map_of_SomeD)

lemma wf_tokens_of_Nil: "wf_records rs \<Longrightarrow> tokens_of rs n = [] \<longleftrightarrow> map_of rs n = None"
  by (auto simp: tokens_of_def split: option.splits dest: wf_map_of)

lemma fst_retain_live: "distinct (map fst rs) \<Longrightarrow> distinct (map fst (retain_live now rs))"
  unfolding retain_live_def by (intro distinct_map_filter_key) (simp add: comp_def case_prod_unfold)

lemma wf_retain_live: "wf_records rs \<Longrightarrow> wf_records (retain_live now rs)"
  unfolding wf_records_def
  by (auto simp: fst_retain_live) (auto simp: retain_live_def intro: distinct_map_filter_key)

lemma map_of_update [simp]: "map_of (AList.update k v al) k' = (if k = k' then Some v else map_of al k')"
  by (simp add: update_conv)

lemma map_of_delete: "distinct (map fst al) \<Longrightarrow> map_of (AList.delete k al) k' = (if k = k' then None else map_of al k')"
  by (simp add: delete_conv)

lemma set_update_subset: "set (AList.update k v al) \<subseteq> insert (k, v) (set al)"
  by (induction al) auto

lemma wf_update:
  assumes "wf_records rs" and "ts \<noteq> []" and "distinct (map token_value ts)"
  shows "wf_records (AList.update n ts rs)"
  using assms set_update_subset [of n ts rs] distinct_update [of rs n ts]
  unfolding wf_records_def by (simp add: subset_iff) blast

lemma wf_delete: "wf_records rs \<Longrightarrow> wf_records (AList.delete n rs)"
  unfolding wf_records_def by (auto simp: AList.delete_eq distinct_map_filter_key)

subsection \<open>The records as a map\<close>

text \<open>
  The abstract content of the store: for each name and value the time at which the value expires.
\<close>

type_synonym rr_map = "string \<Rightarrow> string \<Rightarrow> instant option"

definition token_map :: "token list \<Rightarrow> string \<Rightarrow> instant option" where
  "token_map ts = map_of (map (\<lambda>t. (token_value t, expires_at t)) ts)"

definition rr :: "zone_records \<Rightarrow> rr_map" where
  "rr rs n = token_map (tokens_of rs n)"

definition contents :: "zone_records \<Rightarrow> (string \<times> string) set" where
  "contents rs = {(n, v). rr rs n v \<noteq> None}"

lemma token_map_Nil [simp]: "token_map [] v = None"
  and token_map_Cons [simp]:
    "token_map (t # ts) v = (if token_value t = v then Some (expires_at t) else token_map ts v)"
  by (simp_all add: token_map_def)

lemma token_map_eq_None: "token_map ts v = None \<longleftrightarrow> v \<notin> token_value ` set ts"
  by (induction ts) auto

lemma token_map_append: "token_map (ts @ us) v = (case token_map ts v of None \<Rightarrow> token_map us v | Some e \<Rightarrow> Some e)"
  by (induction ts) auto

lemma token_map_filter_live:
  assumes "distinct (map token_value ts)"
  shows "token_map (filter (\<lambda>t. now < expires_at t) ts) v =
    (case token_map ts v of None \<Rightarrow> None | Some e \<Rightarrow> if now < e then Some e else None)"
  using assms
proof (induction ts)
  case Nil
  then show ?case by simp
next
  case (Cons t ts)
  then have "token_map ts (token_value t) = None" by (simp add: token_map_eq_None)
  with Cons show ?case by auto
qed

lemma token_map_remove_value: "token_map (remove_value w ts) v = (if v = w then None else token_map ts v)"
  unfolding remove_value_def by (induction ts) auto

lemma token_map_SomeD: "token_map ts v = Some e \<Longrightarrow> \<exists>t\<in>set ts. token_value t = v \<and> expires_at t = e"
  by (induction ts) (auto split: if_splits)

lemma token_map_in: "distinct (map token_value ts) \<Longrightarrow> t \<in> set ts \<Longrightarrow> token_map ts (token_value t) = Some (expires_at t)"
  by (induction ts) (auto simp: image_iff)

lemma refresh_eq_None: "refresh v e ts = None \<longleftrightarrow> token_map ts v = None"
  by (induction ts) auto

lemma refresh_SomeD:
  "refresh v e ts = Some ts' \<Longrightarrow>
     map token_value ts' = map token_value ts \<and> token_map ts' = (token_map ts)(v \<mapsto> e) \<and>
     ts' \<noteq> [] \<and> token_map ts v \<noteq> None"
proof (induction ts arbitrary: ts')
  case Nil
  then show ?case by simp
next
  case (Cons t ts)
  show ?case
  proof (cases "token_value t = v")
    case True
    with Cons.prems show ?thesis by (auto simp: fun_eq_iff)
  next
    case False
    with Cons.prems obtain us where "refresh v e ts = Some us" and "ts' = t # us" by auto
    with Cons.IH [of us] False show ?thesis by (auto simp: fun_eq_iff)
  qed
qed

lemma tokens_of_Nil [simp]: "tokens_of [] n = []"
  and tokens_of_Cons [simp]: "tokens_of ((k, ts) # rs) n = (if k = n then ts else tokens_of rs n)"
  by (simp_all add: tokens_of_def)

lemma tokens_of_update [simp]: "tokens_of (AList.update k ts rs) n = (if k = n then ts else tokens_of rs n)"
  by (simp add: tokens_of_def)

lemma tokens_of_delete:
  "distinct (map fst rs) \<Longrightarrow> tokens_of (AList.delete k rs) n = (if k = n then [] else tokens_of rs n)"
  by (simp add: tokens_of_def map_of_delete)

lemma tokens_of_not_key: "n \<notin> fst ` set rs \<Longrightarrow> tokens_of rs n = []"
  by (auto simp: tokens_of_def dest!: map_of_SomeD split: option.splits) force

lemma tokens_of_retain_live:
  "distinct (map fst rs) \<Longrightarrow>
     tokens_of (retain_live now rs) n = filter (\<lambda>t. now < expires_at t) (tokens_of rs n)"
proof (induction rs)
  case Nil
  then show ?case by (simp add: retain_live_def)
next
  case (Cons x rs)
  obtain k ts where x: "x = (k, ts)" by (cases x)
  have "tokens_of (retain_live now rs) n = filter (\<lambda>t. now < expires_at t) (tokens_of rs n)"
    using Cons by simp
  moreover have "tokens_of rs n = []" if "k = n"
    using that Cons.prems x by (intro tokens_of_not_key) auto
  ultimately show ?case by (simp add: retain_live_def x)
qed

lemma mem_tokens_of:
  "distinct (map fst rs) \<Longrightarrow> t \<in> set (tokens_of rs n) \<longleftrightarrow> (\<exists>ts. (n, ts) \<in> set rs \<and> t \<in> set ts)"
  by (auto simp: tokens_of_def split: option.splits dest: map_of_SomeD)

subsection \<open>Counting\<close>

lemma token_count_Nil [simp]: "token_count [] = 0"
  and token_count_Cons [simp]: "token_count ((k, ts) # rs) = length ts + token_count rs"
  by (simp_all add: token_count_def)

lemma finite_token_map: "finite {v. token_map ts v \<noteq> None}"
  by (simp add: token_map_eq_None)

lemma card_token_map: "distinct (map token_value ts) \<Longrightarrow> card {v. token_map ts v \<noteq> None} = length ts"
proof -
  assume d: "distinct (map token_value ts)"
  have "{v. token_map ts v \<noteq> None} = set (map token_value ts)" by (auto simp: token_map_eq_None)
  with distinct_card [OF d] show ?thesis by simp
qed

lemma token_count_contents: "wf_records rs \<Longrightarrow> finite (contents rs) \<and> token_count rs = card (contents rs)"
proof (induction rs)
  case Nil
  then show ?case by (simp add: contents_def rr_def)
next
  case (Cons x rs)
  obtain k ts where x: "x = (k, ts)" by (cases x)
  let ?here = "Pair k ` {v. token_map ts v \<noteq> None}"
  have wf: "wf_records rs" "distinct (map token_value ts)" "k \<notin> fst ` set rs"
    using Cons.prems by (auto simp: wf_records_def x)
  have gone: "tokens_of rs k = []" using wf(3) by (rule tokens_of_not_key)
  have split: "contents (x # rs) = ?here \<union> contents rs"
    using gone by (auto simp: contents_def rr_def x split: if_splits)
  have "?here \<inter> contents rs = {}"
    using gone by (auto simp: contents_def rr_def)
  moreover have "card ?here = length ts"
    by (subst card_image) (auto simp: inj_on_def card_token_map [OF wf(2), simplified])
  ultimately show ?case
    using Cons.IH [OF wf(1)] finite_token_map [of ts] by (simp add: split [unfolded x] x card_Un_disjoint)
qed

lemma token_count_retain_live:
  "token_count (retain_live now rs) = sum_list (map (\<lambda>(k, ts). length (filter (\<lambda>t. now < expires_at t) ts)) rs)"
  by (induction rs) (auto simp: retain_live_def)

lemma token_count_retain_live_le: "token_count (retain_live now rs) \<le> token_count rs"
  unfolding token_count_retain_live unfolding token_count_def
  by (rule sum_list_mono) (auto split: prod.splits)

lemma retain_live_Cons_count:
  "token_count (retain_live now ((k, ts) # rs)) =
     length (filter (\<lambda>t. now < expires_at t) ts) + token_count (retain_live now rs)"
  by (simp add: token_count_retain_live)

lemma token_count_retain_live_eq:
  "token_count (retain_live now rs) = token_count rs \<longleftrightarrow>
     (\<forall>(k, ts)\<in>set rs. \<forall>t\<in>set ts. now < expires_at t)"
proof (induction rs)
  case Nil
  then show ?case by (simp add: retain_live_def)
next
  case (Cons x rs)
  obtain k ts where x: "x = (k, ts)" by (cases x)
  have le: "length (filter (\<lambda>t. now < expires_at t) ts) \<le> length ts" by simp
  have "token_count (retain_live now (x # rs)) = token_count (x # rs) \<longleftrightarrow>
      length (filter (\<lambda>t. now < expires_at t) ts) = length ts \<and>
      token_count (retain_live now rs) = token_count rs"
    using le token_count_retain_live_le [of now rs]
    unfolding x retain_live_Cons_count token_count_Cons by linarith
  then show ?case using Cons.IH by (auto simp: x filter_length_eq_iff)
qed

lemma token_count_update:
  "distinct (map fst rs) \<Longrightarrow>
     token_count (AList.update n ts rs) + length (tokens_of rs n) = token_count rs + length ts"
proof (induction rs)
  case (Cons x rs)
  then show ?case by (cases x) auto
qed simp

lemma token_count_delete_le: "token_count (AList.delete n rs) \<le> token_count rs"
  by (induction rs) auto

end
