(* ===== verification/Store_Spec.thy ===== *)
theory Store_Spec
  imports Store
begin

text \<open>
  What the challenge store promises, and that the model of \<open>src/state.rs\<close> keeps it. The abstract
  state is a map from name and value to an expiry; the specification of every operation is a
  function on that map. The locale \<open>challenge_store\<close> is the store as the DNS handler and the HTTP
  API see it; its interpretation \<open>acme\<close> is on the model of the store, for every DNS library and
  every iteration order of the hash map.
\<close>

subsection \<open>Specification\<close>

definition expire :: "instant \<Rightarrow> rr_map \<Rightarrow> rr_map" where
  "expire now m = (\<lambda>n v. case m n v of None \<Rightarrow> None | Some e \<Rightarrow> if now < e then Some e else None)"

definition present_rr :: "string \<Rightarrow> string \<Rightarrow> instant \<Rightarrow> rr_map \<Rightarrow> rr_map" where
  "present_rr n v e m = m(n := (m n)(v \<mapsto> e))"

definition withdraw_rr :: "string \<Rightarrow> string \<Rightarrow> rr_map \<Rightarrow> rr_map" where
  "withdraw_rr n v m = m(n := (m n)(v := None))"

definition rr_keys :: "rr_map \<Rightarrow> (string \<times> string) set" where
  "rr_keys m = {(n, v). m n v \<noteq> None}"

definition spec_add :: "instant \<Rightarrow> instant \<Rightarrow> nat \<Rightarrow> bool \<Rightarrow> string \<Rightarrow> string \<Rightarrow> rr_map \<Rightarrow>
    (add_error + unit) \<times> rr_map" where
  "spec_add now deadline limit fit n v m =
     (let live = expire now m
      in if live n v \<noteq> None then (Inr (), present_rr n v deadline live)
         else if limit \<le> card (rr_keys live) then (Inl TokenLimitReached, live)
         else if \<not> fit then (Inl DnsWireCapacityReached, live)
         else (Inr (), present_rr n v deadline live))"

lemma rr_keys_rr: "rr_keys (rr rs) = contents rs"
  by (simp add: rr_keys_def contents_def)

lemma expire_eq_Some: "expire now m n v = Some e \<longleftrightarrow> m n v = Some e \<and> now < e"
  by (auto simp: expire_def split: option.splits)

lemma expire_expire: "s \<le> t \<Longrightarrow> expire t (expire s m) = expire t m"
  by (auto simp: expire_def fun_eq_iff split: option.splits)

lemma expire_fixpoint_iff: "expire now m = m \<longleftrightarrow> (\<forall>n v e. m n v = Some e \<longrightarrow> now < e)"
  unfolding expire_def fun_eq_iff by (auto split: option.splits if_splits)

lemma expire_keys: "rr_keys (expire now m) \<subseteq> rr_keys m"
  by (auto simp: rr_keys_def expire_def split: option.splits)

lemma expire_same_keys: "rr_keys (expire now m) = rr_keys m \<longleftrightarrow> expire now m = m"
proof
  assume keys: "rr_keys (expire now m) = rr_keys m"
  have "expire now m n v = m n v" for n v
  proof -
    have "(n, v) \<in> rr_keys (expire now m) \<longleftrightarrow> (n, v) \<in> rr_keys m" using keys by simp
    then show ?thesis by (auto simp: rr_keys_def expire_def split: option.splits if_splits)
  qed
  then show "expire now m = m" by (simp add: fun_eq_iff)
qed simp

lemma present_rr_apply: "present_rr n v e m n' v' = (if n' = n \<and> v' = v then Some e else m n' v')"
  by (simp add: present_rr_def)

lemma withdraw_rr_apply: "withdraw_rr n v m n' v' = (if n' = n \<and> v' = v then None else m n' v')"
  by (simp add: withdraw_rr_def)

lemma rr_keys_present: "rr_keys (present_rr n v e m) = insert (n, v) (rr_keys m)"
  by (auto simp: rr_keys_def present_rr_apply)

lemma rr_keys_withdraw: "rr_keys (withdraw_rr n v m) = rr_keys m - {(n, v)}"
  by (auto simp: rr_keys_def withdraw_rr_apply)

subsection \<open>The operations refine it\<close>

lemma rr_retain_live: "wf_records rs \<Longrightarrow> rr (retain_live now rs) = expire now (rr rs)"
  by (auto simp: fun_eq_iff rr_def expire_def tokens_of_retain_live wf_records_def [THEN iffD1]
      token_map_filter_live wf_tokens_of)

lemma rr_update: "rr (AList.update n ts rs) = (rr rs)(n := token_map ts)"
  by (auto simp: fun_eq_iff rr_def)

lemma rr_delete: "wf_records rs \<Longrightarrow> rr (AList.delete n rs) = (rr rs)(n := (\<lambda>v. None))"
  by (auto simp: fun_eq_iff rr_def tokens_of_delete wf_records_def)

lemma fst_prune [simp]: "fst (prune now rs) = retain_live now rs"
  by (simp add: prune_def Let_def)

lemma snd_prune: "wf_records rs \<Longrightarrow> snd (prune now rs) \<longleftrightarrow> expire now (rr rs) \<noteq> rr rs"
proof -
  assume wf: "wf_records rs"
  have "snd (prune now rs) \<longleftrightarrow> card (contents (retain_live now rs)) \<noteq> card (contents rs)"
    using token_count_contents [OF wf] token_count_contents [OF wf_retain_live [OF wf]]
    by (simp add: prune_def Let_def)
  also have "\<dots> \<longleftrightarrow> rr_keys (expire now (rr rs)) \<noteq> rr_keys (rr rs)"
    using token_count_contents [OF wf] expire_keys [of now "rr rs"] rr_retain_live [OF wf, of now]
    by (metis card_subset_eq rr_keys_rr)
  finally show ?thesis by (simp add: expire_same_keys)
qed

definition store_wf :: "'nm acme_records \<Rightarrow> bool" where
  "store_wf ar \<longleftrightarrow> wf_records (records (state ar))"

definition store_view :: "'nm acme_records \<Rightarrow> rr_map" where
  "store_view ar = rr (records (state ar))"

definition store_serial :: "'nm acme_records \<Rightarrow> u32" where
  "store_serial ar = serial (state ar)"

definition store_values :: "'nm acme_records \<Rightarrow> string \<Rightarrow> string list" where
  "store_values ar n = map token_value (tokens_of (records (state ar)) n)"

lemmas store_defs = store_wf_def store_view_def store_serial_def store_values_def

lemma set_zone_sel [simp]:
  "records (state (set_zone rs ch ar)) = rs"
  "serial (state (set_zone rs ch ar)) = (if ch then serial (state ar) + 1 else serial (state ar))"
  "lifetime (set_zone rs ch ar) = lifetime ar" "ar_max_tokens (set_zone rs ch ar) = ar_max_tokens ar"
  "wire_capacity (set_zone rs ch ar) = wire_capacity ar"
  by (simp_all add: set_zone_def advance_serial_def)

lemma bind_refresh: "Option.bind (map_of rs n) (refresh v e) = refresh v e (tokens_of rs n)"
  by (auto simp: tokens_of_def split: option.splits)

text \<open>The four outcomes of \<open>add\<close>.\<close>

lemma add_cases:
  assumes "add H ho now later n v ar = Some (r, ar')"
  obtains
    (refreshed) ts where "r = Inr ()"
      "refresh v (plus_duration later (lifetime ar)) (tokens_of (retain_live now (records (state ar))) n) = Some ts"
      "ar' = set_zone (AList.update n ts (retain_live now (records (state ar))))
         (snd (prune now (records (state ar)))) ar"
  | (limit) "r = Inl TokenLimitReached"
      "token_map (tokens_of (retain_live now (records (state ar))) n) v = None"
      "ar_max_tokens ar \<le> token_count (retain_live now (records (state ar)))"
      "ar' = set_zone (retain_live now (records (state ar))) (snd (prune now (records (state ar)))) ar"
  | (wire) "r = Inl DnsWireCapacityReached"
      "token_map (tokens_of (retain_live now (records (state ar))) n) v = None"
      "token_count (retain_live now (records (state ar))) < ar_max_tokens ar"
      "fits H (wire_capacity ar) (all_values (ho (retain_live now (records (state ar)))) @ [v]) = Some False"
      "ar' = set_zone (retain_live now (records (state ar))) (snd (prune now (records (state ar)))) ar"
  | (added) "r = Inr ()"
      "token_map (tokens_of (retain_live now (records (state ar))) n) v = None"
      "token_count (retain_live now (records (state ar))) < ar_max_tokens ar"
      "fits H (wire_capacity ar) (all_values (ho (retain_live now (records (state ar)))) @ [v]) = Some True"
      "ar' = set_zone (AList.update n
         (tokens_of (retain_live now (records (state ar))) n @
            [\<lparr>token_value = v, expires_at = plus_duration later (lifetime ar)\<rparr>])
         (retain_live now (records (state ar)))) True ar"
proof -
  let ?rs = "retain_live now (records (state ar))"
  obtain ch where p: "prune now (records (state ar)) = (?rs, ch)"
    by (metis fst_prune prod.collapse)
  show thesis
  proof (cases "refresh v (plus_duration later (lifetime ar)) (tokens_of ?rs n)")
    case (Some ts)
    with assms p show thesis by (intro refreshed) (auto simp: add_def bind_refresh)
  next
    case None
    then have tm: "token_map (tokens_of ?rs n) v = None" by (simp add: refresh_eq_None)
    show thesis
    proof (cases "ar_max_tokens ar \<le> token_count ?rs")
      case True
      with assms p None tm show thesis by (intro limit) (auto simp: add_def bind_refresh)
    next
      case False
      with assms p None obtain b where b: "fits H (wire_capacity ar) (all_values (ho ?rs) @ [v]) = Some b"
        by (auto simp: add_def bind_refresh bind_eq_Some_conv)
      with assms p None False tm show thesis
        by (cases b) (auto simp: add_def bind_refresh intro: wire added)
    qed
  qed
qed

lemma add_total: "soa_ok H (cap_zone (wire_capacity ar)) \<Longrightarrow> add H ho now later n v ar \<noteq> None"
proof -
  assume "soa_ok H (cap_zone (wire_capacity ar))"
  then have "\<exists>b. fits H (wire_capacity ar) vs = Some b" for vs
    using fits_eq_None [of H "wire_capacity ar" vs] by auto
  then obtain f where "\<And>vs. fits H (wire_capacity ar) vs = Some (f vs)" by metis
  then show ?thesis by (simp add: add_def Let_def case_prod_unfold split: option.splits)
qed

lemma add_wf:
  assumes "add H ho now later n v ar = Some (r, ar')" and "store_wf ar"
  shows "store_wf ar'"
proof -
  have wf: "wf_records (retain_live now (records (state ar)))"
    using assms(2) by (simp add: store_wf_def wf_retain_live)
  from assms(1) show ?thesis
  proof (cases rule: add_cases)
    case (refreshed ts)
    with wf_tokens_of [OF wf, of n] show ?thesis
      by (auto simp: store_wf_def intro!: wf_update wf dest!: refresh_SomeD)
  next
    case added
    with wf_tokens_of [OF wf, of n] show ?thesis
      by (auto simp: store_wf_def token_map_eq_None intro!: wf_update wf)
  qed (simp_all add: store_wf_def wf)
qed

lemma add_frame:
  assumes "add H ho now later n v ar = Some (r, ar')"
  shows "lifetime ar' = lifetime ar" "ar_max_tokens ar' = ar_max_tokens ar"
    "wire_capacity ar' = wire_capacity ar"
  using assms by (cases rule: add_cases; simp)+

lemma add_spec:
  assumes "add H ho now later n v ar = Some (r, ar')" and "store_wf ar"
  shows "(r, store_view ar') = spec_add now (plus_duration later (lifetime ar)) (ar_max_tokens ar)
    (fits H (wire_capacity ar) (all_values (ho (retain_live now (records (state ar)))) @ [v]) = Some True)
    n v (store_view ar)"
proof -
  let ?rs = "retain_live now (records (state ar))"
  have wf: "wf_records ?rs" using assms(2) by (simp add: store_wf_def wf_retain_live)
  have live: "expire now (rr (records (state ar))) = rr ?rs"
    using assms(2) by (simp add: store_wf_def rr_retain_live)
  have size: "card (rr_keys (rr ?rs)) = token_count ?rs"
    using token_count_contents [OF wf] by (simp add: rr_keys_rr)
  note unfold = spec_add_def live size Let_def store_view_def
  from assms(1) show ?thesis
  proof (cases rule: add_cases)
    case (refreshed ts)
    from refresh_SomeD [OF this(2)] refreshed show ?thesis
      by (simp add: unfold) (simp add: rr_def rr_update present_rr_def)
  next
    case limit
    then show ?thesis by (simp add: unfold) (simp add: rr_def)
  next
    case wire
    then show ?thesis by (simp add: unfold) (simp add: rr_def)
  next
    case added
    have "token_map (ts @ [\<lparr>token_value = v, expires_at = e\<rparr>]) = (token_map ts)(v \<mapsto> e)"
      if "token_map ts v = None" for ts e
      using that by (auto simp: fun_eq_iff token_map_append split: option.splits)
    with added show ?thesis
      by (simp add: unfold) (simp add: rr_def rr_update present_rr_def)
  qed
qed

lemma refresh_zone_view:
  assumes "store_wf ar"
  shows "store_view (refresh_zone now ar) = expire now (store_view ar)"
    and "store_wf (refresh_zone now ar)"
    and "store_serial (refresh_zone now ar) =
      (if expire now (store_view ar) = store_view ar then store_serial ar else store_serial ar + 1)"
  using assms snd_prune [of "records (state ar)" now]
  by (simp_all add: refresh_zone_def store_defs case_prod_unfold rr_retain_live wf_retain_live)

lemma refresh_zone_frame [simp]:
  "lifetime (refresh_zone now ar) = lifetime ar" "ar_max_tokens (refresh_zone now ar) = ar_max_tokens ar"
  "wire_capacity (refresh_zone now ar) = wire_capacity ar"
  by (simp_all add: refresh_zone_def case_prod_unfold)

text \<open>The records \<open>remove\<close> leaves behind.\<close>

lemma remove_records:
  "records (state (remove now n v ar)) =
    (let rs = retain_live now (records (state ar))
     in case map_of rs n of
          None \<Rightarrow> rs
        | Some ts \<Rightarrow> if remove_value v ts = [] then AList.delete n rs
                    else AList.update n (remove_value v ts) rs)"
  by (simp add: remove_def case_prod_unfold Let_def split: option.splits)

lemma remove_frame [simp]:
  "lifetime (remove now n v ar) = lifetime ar" "ar_max_tokens (remove now n v ar) = ar_max_tokens ar"
  "wire_capacity (remove now n v ar) = wire_capacity ar"
  by (simp_all add: remove_def case_prod_unfold Let_def split: option.splits)

lemma remove_view:
  assumes "store_wf ar"
  shows "store_view (remove now n v ar) = withdraw_rr n v (expire now (store_view ar))"
    and "store_wf (remove now n v ar)"
proof -
  let ?rs = "retain_live now (records (state ar))"
  have wf: "wf_records ?rs" using assms by (simp add: store_wf_def wf_retain_live)
  have live: "expire now (store_view ar) = rr ?rs"
    using assms by (simp add: store_wf_def store_view_def rr_retain_live)
  have tm: "token_map (remove_value v ts) = (token_map ts)(v := None)" for ts
    by (auto simp: fun_eq_iff token_map_remove_value)
  show "store_view (remove now n v ar) = withdraw_rr n v (expire now (store_view ar))"
  proof (cases "map_of ?rs n")
    case None
    then have "(rr ?rs n)(v := None) = rr ?rs n" by (auto simp: rr_def tokens_of_def)
    with None show ?thesis unfolding live by (simp add: store_view_def remove_records withdraw_rr_def)
  next
    case (Some ts)
    then have "rr ?rs n = token_map ts" by (simp add: rr_def tokens_of_def fun_eq_iff)
    moreover have "(token_map ts)(v := None) = (\<lambda>v. None)" if "remove_value v ts = []"
      using tm [of ts] that by (simp add: fun_eq_iff)
    ultimately show ?thesis
      using Some tm [of ts] unfolding live
      by (simp add: store_view_def remove_records Let_def withdraw_rr_def rr_delete [OF wf] rr_update)
  qed
  show "store_wf (remove now n v ar)"
    using wf wf_map_of [OF wf, of n]
    by (auto simp: store_wf_def remove_records Let_def remove_value_def distinct_map_filter_key
        intro!: wf_delete wf_update split: option.splits)
qed

lemma length_remove_value: "length (remove_value v ts) \<noteq> length ts \<longleftrightarrow> token_map ts v \<noteq> None"
  by (auto simp: remove_value_def filter_length_eq_iff token_map_eq_None)

lemma remove_serial:
  assumes "store_wf ar"
  shows "store_serial (remove now n v ar) =
    (if store_view (remove now n v ar) = store_view ar then store_serial ar else store_serial ar + 1)"
proof -
  let ?rs = "retain_live now (records (state ar))"
  have live: "expire now (store_view ar) = rr ?rs"
    using assms by (simp add: store_wf_def store_view_def rr_retain_live)
  have ser: "store_serial (remove now n v ar) = (if snd (prune now (records (state ar))) \<or> rr ?rs n v \<noteq> None
      then store_serial ar + 1 else store_serial ar)"
    using length_remove_value [of v]
    by (auto simp: remove_def case_prod_unfold Let_def store_serial_def rr_def tokens_of_def split: option.splits)
  have "withdraw_rr n v (rr ?rs) = store_view ar \<longleftrightarrow> rr ?rs = store_view ar \<and> rr ?rs n v = None"
    unfolding live [symmetric]
    by (auto simp: fun_eq_iff withdraw_rr_apply expire_def split: option.splits if_splits)
  then show ?thesis
    using assms snd_prune [of "records (state ar)" now] live
    unfolding ser remove_view(1) [OF assms] by (auto simp: store_wf_def store_view_def)
qed

subsection \<open>The serial of a presentation\<close>

lemma add_serial:
  assumes "add H ho now later n v ar = Some (r, ar')" and "store_wf ar"
  shows "store_serial ar' =
    (if expire now (store_view ar) \<noteq> store_view ar \<or>
        (r = Inr () \<and> expire now (store_view ar) n v = None)
     then store_serial ar + 1 else store_serial ar)"
proof -
  let ?rs = "retain_live now (records (state ar))"
  have live: "expire now (store_view ar) n v = token_map (tokens_of ?rs n) v"
    using assms(2) by (simp add: store_wf_def store_view_def rr_retain_live [symmetric] rr_def)
  have ch: "snd (prune now (records (state ar))) \<longleftrightarrow> expire now (store_view ar) \<noteq> store_view ar"
    using assms(2) by (simp add: store_wf_def store_view_def snd_prune)
  from assms(1) show ?thesis
  proof (cases rule: add_cases)
    case (refreshed ts)
    from refresh_SomeD [OF this(2)] refreshed live ch show ?thesis by (simp add: store_serial_def)
  qed (simp_all add: store_serial_def live ch)
qed

subsection \<open>The interface\<close>

text \<open>
  A store of challenge values with a version number, seen from outside: a well-formedness
  predicate, the abstract map, the version, and four operations. The laws give the map and the
  version after each operation, and the values a lookup returns.
\<close>

locale challenge_store =
  fixes wf :: "'s \<Rightarrow> bool"
    and view :: "'s \<Rightarrow> rr_map"
    and ver :: "'s \<Rightarrow> u32"
    and life :: "'s \<Rightarrow> duration"
    and put :: "instant \<Rightarrow> instant \<Rightarrow> string \<Rightarrow> string \<Rightarrow> 's \<Rightarrow> ((add_error + unit) \<times> 's) option"
    and del :: "instant \<Rightarrow> string \<Rightarrow> string \<Rightarrow> 's \<Rightarrow> 's"
    and get :: "instant \<Rightarrow> string \<Rightarrow> 's \<Rightarrow> (string list \<times> u32) \<times> 's"
    and get_ver :: "instant \<Rightarrow> 's \<Rightarrow> u32 \<times> 's"
  assumes put_wf: "wf s \<Longrightarrow> put now later n v s = Some (r, s') \<Longrightarrow> wf s' \<and> life s' = life s"
    and put_view: "wf s \<Longrightarrow> put now later n v s = Some (r, s') \<Longrightarrow>
      view s' = (if r = Inr () then present_rr n v (plus_duration later (life s)) (expire now (view s))
                 else expire now (view s))"
    and put_ver: "wf s \<Longrightarrow> put now later n v s = Some (r, s') \<Longrightarrow>
      ver s' = (if expire now (view s) \<noteq> view s \<or> (r = Inr () \<and> expire now (view s) n v = None)
                then ver s + 1 else ver s)"
    and del_wf: "wf s \<Longrightarrow> wf (del now n v s) \<and> life (del now n v s) = life s"
    and del_view: "wf s \<Longrightarrow> view (del now n v s) = withdraw_rr n v (expire now (view s))"
    and del_ver: "wf s \<Longrightarrow>
      ver (del now n v s) = (if view (del now n v s) = view s then ver s else ver s + 1)"
    and get_state: "get_ver now s = (snd (fst (get now n s)), snd (get now n s))"
    and get_wf: "wf s \<Longrightarrow> wf (snd (get now n s)) \<and> life (snd (get now n s)) = life s"
    and get_view: "wf s \<Longrightarrow> view (snd (get now n s)) = expire now (view s)"
    and get_values: "wf s \<Longrightarrow> distinct (fst (fst (get now n s))) \<and>
      set (fst (fst (get now n s))) = {v. expire now (view s) n v \<noteq> None}"
    and get_serial: "wf s \<Longrightarrow> snd (fst (get now n s)) = ver (snd (get now n s)) \<and>
      ver (snd (get now n s)) = (if expire now (view s) = view s then ver s else ver s + 1)"
begin

text \<open>What a presentation does to a later lookup, and what a withdrawal does.\<close>

lemma put_then_get:
  assumes "wf s" and "put now later n v s = Some (Inr (), s')"
  shows "v \<in> set (fst (fst (get t n s'))) \<longleftrightarrow> t < plus_duration later (life s)"
  using put_wf [OF assms] put_view [OF assms] get_values [of s' t n]
  by (auto simp: expire_def present_rr_apply)

lemma put_keeps_others:
  assumes "wf s" and "put now later n v s = Some (r, s')" and "(n', v') \<noteq> (n, v)" and "now \<le> t"
  shows "v' \<in> set (fst (fst (get t n' s'))) \<longleftrightarrow> v' \<in> set (fst (fst (get t n' s)))"
proof -
  have "expire t (view s') n' v' = expire t (view s) n' v'"
    using put_view [OF assms(1,2)] assms(3,4)
    by (auto simp: expire_def present_rr_apply split: option.splits if_splits)
  then show ?thesis
    using put_wf [OF assms(1,2)] get_values [of s' t n'] get_values [OF assms(1), of t n'] by auto
qed

lemma del_then_get:
  assumes "wf s" and "now \<le> t"
  shows "set (fst (fst (get t n' (del now n v s)))) =
    set (fst (fst (get t n' s))) - (if n' = n then {v} else {})"
proof -
  have "expire t (view (del now n v s)) n' v' =
      (if n' = n \<and> v' = v then None else expire t (view s) n' v')" for v'
    unfolding del_view [OF assms(1)] using assms(2)
    by (auto simp: expire_def withdraw_rr_apply split: option.splits if_splits)
  then have "{v'. expire t (view (del now n v s)) n' v' \<noteq> None} =
      {v'. expire t (view s) n' v' \<noteq> None} - (if n' = n then {v} else {})" by auto
  moreover have "wf (del now n v s)" using del_wf [OF assms(1)] by simp
  ultimately show ?thesis using get_values assms(1) by simp
qed

text \<open>A failed presentation shows nothing new and loses nothing.\<close>

lemma put_error_get:
  assumes "wf s" and "put now later n v s = Some (Inl e, s')" and "now \<le> t"
  shows "set (fst (fst (get t n' s'))) = set (fst (fst (get t n' s)))"
proof -
  have "view s' = expire now (view s)" using put_view [OF assms(1,2)] by simp
  then have "expire t (view s') = expire t (view s)" by (simp only: expire_expire [OF assms(3)])
  moreover have "wf s'" using put_wf [OF assms(1,2)] by simp
  ultimately show ?thesis using get_values assms(1) by simp
qed

text \<open>The version is unchanged only when the set of records is.\<close>

lemma put_ver_keys:
  assumes "wf s" and "put now later n v s = Some (r, s')" and "ver s' = ver s"
  shows "rr_keys (view s') = rr_keys (view s)"
proof -
  have "ver s + 1 \<noteq> ver s" by simp
  with put_ver [OF assms(1,2)] assms(3)
  have live: "expire now (view s) = view s" and old: "r = Inr () \<longrightarrow> view s n v \<noteq> None"
    by (auto split: if_splits)
  then show ?thesis
    using put_view [OF assms(1,2)] by (auto simp: rr_keys_present) (auto simp: rr_keys_def)
qed

end

interpretation acme: challenge_store store_wf store_view store_serial lifetime
    "add H ho" remove get_with_serial read_serial for H ho
proof (unfold_locales, goal_cases)
  case (1 s now later n v r s')
  then show ?case using add_wf add_frame(1) by blast
next
  case (2 s now later n v r s')
  then show ?case
    using add_spec [OF 2(2,1)] by (auto simp: spec_add_def Let_def split: if_splits)
next
  case (3 s now later n v r s')
  then show ?case by (rule add_serial [rotated])
next
  case (4 s now n v)
  then show ?case by (simp add: remove_view)
next
  case (5 s now n v)
  then show ?case by (rule remove_view)
next
  case (6 s now n v)
  then show ?case by (rule remove_serial)
next
  case (7 now s n)
  then show ?case by (simp add: read_serial_def get_with_serial_def Let_def)
next
  case (8 s now n)
  then show ?case by (simp add: get_with_serial_def Let_def refresh_zone_view)
next
  case (9 s now n)
  then show ?case by (simp add: get_with_serial_def Let_def refresh_zone_view)
next
  case (10 s now n)
  have "wf_records (records (state (refresh_zone now s)))"
    using refresh_zone_view(2) [OF 10] by (simp add: store_wf_def)
  moreover have "token_map (tokens_of (records (state (refresh_zone now s))) n) = expire now (store_view s) n"
    using refresh_zone_view(1) [OF 10, of now] by (simp add: store_view_def rr_def fun_eq_iff)
  moreover have "set (map token_value ts) = {v. token_map ts v \<noteq> None}" for ts
    by (simp add: token_map_eq_None set_eq_iff)
  ultimately show ?case by (simp add: get_with_serial_def Let_def wf_tokens_of)
next
  case (11 s now n)
  then show ?case by (simp add: get_with_serial_def Let_def refresh_zone_view(3) flip: store_serial_def)
qed

end
