(* ===== verification/Store_Run.thy ===== *)
theory Store_Run
  imports Store_Spec "HOL-Library.Sublist"
begin

text \<open>
  Histories of the challenge store. The write lock makes each operation one step, so what
  concurrent tasks do to the store is a sequence of operations; the clock is monotonic, so their
  readings do not decrease along it. \<open>store_run\<close> is the relation between the first and the last
  state of such a sequence, for any interleaving; the properties of \<open>src/state.rs\<close> that outlive a
  single call are proved by rule induction on it.
\<close>

subsection \<open>Operations as steps\<close>

datatype store_op =
    Add instant instant string string
  | Remove instant string string
  | Lookup instant string
  | ReadSerial instant

fun op_start :: "store_op \<Rightarrow> instant" where
  "op_start (Add now later n v) = now"
| "op_start (Remove now n v) = now"
| "op_start (Lookup now n) = now"
| "op_start (ReadSerial now) = now"

fun op_end :: "store_op \<Rightarrow> instant" where
  "op_end (Add now later n v) = later"
| "op_end (Remove now n v) = now"
| "op_end (Lookup now n) = now"
| "op_end (ReadSerial now) = now"

fun exec_op :: "'nm hickory \<Rightarrow> (zone_records \<Rightarrow> zone_records) \<Rightarrow> store_op \<Rightarrow>
    'nm acme_records \<Rightarrow> 'nm acme_records option" where
  "exec_op H ho (Add now later n v) ar = map_option snd (add H ho now later n v ar)"
| "exec_op H ho (Remove now n v) ar = Some (remove now n v ar)"
| "exec_op H ho (Lookup now n) ar = Some (snd (get_with_serial now n ar))"
| "exec_op H ho (ReadSerial now) ar = Some (snd (read_serial now ar))"

inductive store_run :: "'nm hickory \<Rightarrow> (zone_records \<Rightarrow> zone_records) \<Rightarrow> instant \<Rightarrow> 'nm acme_records \<Rightarrow>
    store_op list \<Rightarrow> instant \<Rightarrow> 'nm acme_records \<Rightarrow> bool"
  for H ho t s where
  run_none: "store_run H ho t s [] t s"
| run_step: "store_run H ho t s ops t1 s1 \<Longrightarrow> t1 \<le> op_start p \<Longrightarrow> op_start p \<le> op_end p \<Longrightarrow>
    exec_op H ho p s1 = Some s2 \<Longrightarrow> store_run H ho t s (ops @ [p]) (op_end p) s2"

inductive_simps store_run_Nil: "store_run H ho t s [] t' s'"

lemma store_run_snoc:
  "store_run H ho t s (ops @ [p]) t' s' \<longleftrightarrow>
     (\<exists>t1 s1. store_run H ho t s ops t1 s1 \<and> t1 \<le> op_start p \<and> op_start p \<le> op_end p \<and>
        exec_op H ho p s1 = Some s' \<and> t' = op_end p)"
  by (subst store_run.simps) auto

lemma store_run_time: "store_run H ho t s ops t' s' \<Longrightarrow> t \<le> t'"
  by (induction rule: store_run.induct) auto

lemma store_run_last:
  assumes "store_run H ho t s ops t' s'" and "t' \<le> op_start p" and "op_start p \<le> op_end p"
    and "exec_op H ho p s' = Some s''"
  shows "store_run H ho t s (ops @ [p]) (op_end p) s''"
  using assms by (rule run_step)

subsection \<open>One step\<close>

lemma snd_read_serial [simp]: "snd (read_serial now ar) = refresh_zone now ar"
  and snd_get_with_serial [simp]: "snd (get_with_serial now n ar) = refresh_zone now ar"
  and fst_read_serial: "fst (read_serial now ar) = store_serial (refresh_zone now ar)"
  and fst_get_with_serial: "fst (get_with_serial now n ar) =
    (store_values (refresh_zone now ar) n, store_serial (refresh_zone now ar))"
  by (simp_all add: read_serial_def get_with_serial_def Let_def store_defs)

lemma exec_op_frame:
  assumes "exec_op H ho p s = Some s'"
  shows "lifetime s' = lifetime s" "ar_max_tokens s' = ar_max_tokens s"
    "wire_capacity s' = wire_capacity s"
  using assms by (cases p; auto dest: add_frame)+

lemma exec_op_wf: "exec_op H ho p s = Some s' \<Longrightarrow> store_wf s \<Longrightarrow> store_wf s'"
  by (cases p) (auto dest: add_wf simp: remove_view refresh_zone_view)

lemma exec_op_total: "soa_ok H (cap_zone (wire_capacity s)) \<Longrightarrow> exec_op H ho p s \<noteq> None"
  using add_total [of H s] by (cases p) fastforce+

text \<open>
  A step keeps the serial only when it keeps the set of records, and otherwise advances it by one.
\<close>

lemma exec_op_serial:
  assumes "exec_op H ho p s = Some s'" and wf: "store_wf s"
  shows "store_serial s' = store_serial s \<and> rr_keys (store_view s') = rr_keys (store_view s) \<or>
    store_serial s' = store_serial s + 1"
proof (cases p)
  case (Add now later n v)
  with assms obtain r where a: "add H ho now later n v s = Some (r, s')" by auto
  have "store_serial s' = store_serial s \<or> store_serial s' = store_serial s + 1"
    using add_serial [OF a wf] by auto
  then show ?thesis using acme.put_ver_keys [OF wf a] by auto
next
  case (Remove now n v)
  then show ?thesis using assms remove_serial [OF wf, of now n v] by auto
next
  case (Lookup now n)
  then show ?thesis using assms refresh_zone_view [OF wf, of now] by auto
next
  case (ReadSerial now)
  then show ?thesis using assms refresh_zone_view [OF wf, of now] by auto
qed

subsection \<open>Invariants of a history\<close>

lemma store_run_frame:
  assumes "store_run H ho t s ops t' s'"
  shows "lifetime s' = lifetime s \<and> ar_max_tokens s' = ar_max_tokens s \<and>
    wire_capacity s' = wire_capacity s"
  using assms by (induction rule: store_run.induct) (auto dest: exec_op_frame)

lemma store_run_wf: "store_run H ho t s ops t' s' \<Longrightarrow> store_wf s \<Longrightarrow> store_wf s'"
  by (induction rule: store_run.induct) (auto dest: exec_op_wf)

lemma store_run_serial:
  assumes "store_run H ho t s ops t' s'" and "store_wf s"
  shows "\<exists>j\<le>length ops. store_serial s' = store_serial s + of_nat j \<and>
    (j = 0 \<longrightarrow> rr_keys (store_view s') = rr_keys (store_view s))"
  using assms(1)
proof (induction rule: store_run.induct)
  case run_none
  then show ?case by simp
next
  case (run_step ops t1 s1 p s2)
  then obtain j where j: "j \<le> length ops" "store_serial s1 = store_serial s + of_nat j"
      "j = 0 \<longrightarrow> rr_keys (store_view s1) = rr_keys (store_view s)" by blast
  have "store_wf s1" using run_step.hyps(1) assms(2) by (rule store_run_wf)
  from exec_op_serial [OF run_step.hyps(4) this] show ?case
  proof
    assume "store_serial s2 = store_serial s1 \<and> rr_keys (store_view s2) = rr_keys (store_view s1)"
    with j show ?case by (intro exI [of _ j]) auto
  next
    assume "store_serial s2 = store_serial s1 + 1"
    with j show ?case by (intro exI [of _ "Suc j"]) (auto simp: add.assoc add.commute)
  qed
qed

text \<open>The token limit.\<close>

definition store_count :: "'nm acme_records \<Rightarrow> nat" where
  "store_count ar = token_count (records (state ar))"

lemma store_count_card: "store_wf ar \<Longrightarrow> store_count ar = card (rr_keys (store_view ar))"
  and finite_store_keys: "store_wf ar \<Longrightarrow> finite (rr_keys (store_view ar))"
  using token_count_contents [of "records (state ar)"]
  by (simp_all add: store_count_def store_wf_def store_view_def rr_keys_rr)

lemma card_expire_le: "store_wf s \<Longrightarrow> card (rr_keys (expire now (store_view s))) \<le> store_count s"
  by (simp add: store_count_card card_mono finite_store_keys expire_keys)

lemma exec_op_count:
  assumes p: "exec_op H ho p s = Some s'" and wf: "store_wf s" and le: "store_count s \<le> ar_max_tokens s"
  shows "store_count s' \<le> ar_max_tokens s'"
proof -
  have wf': "store_wf s'" using p wf by (rule exec_op_wf)
  note live = card_expire_le [OF wf] and frame = exec_op_frame(2) [OF p]
  show ?thesis
  proof (cases p)
    case (Add now later n v)
    with p obtain r where a: "add H ho now later n v s = Some (r, s')" by auto
    let ?live = "expire now (store_view s)" let ?e = "plus_duration later (lifetime s)"
    have fin: "finite (rr_keys ?live)"
      using finite_store_keys [OF wf] expire_keys finite_subset by blast
    have "store_view s' = present_rr n v ?e ?live \<and> (?live n v \<noteq> None \<or> card (rr_keys ?live) < ar_max_tokens s)
        \<or> store_view s' = ?live"
      using add_spec [OF a wf] by (auto simp: spec_add_def Let_def split: if_splits)
    then have "card (rr_keys (store_view s')) \<le> ar_max_tokens s"
    proof (elim disjE conjE)
      assume eq: "store_view s' = present_rr n v ?e ?live" and "?live n v \<noteq> None"
      then have "rr_keys (store_view s') = rr_keys ?live"
        by (auto simp: rr_keys_present) (auto simp: rr_keys_def)
      with live [of now] le show ?thesis by simp
    next
      assume eq: "store_view s' = present_rr n v ?e ?live" and "card (rr_keys ?live) < ar_max_tokens s"
      then show ?thesis using fin card_insert_le_m1 [of "ar_max_tokens s" "rr_keys ?live" "(n, v)"]
        by (simp add: rr_keys_present card_insert_if)
    next
      assume "store_view s' = ?live"
      with live [of now] le show ?thesis by simp
    qed
    with wf' frame show ?thesis by (simp add: store_count_card)
  next
    case (Remove now n v)
    with p wf have "store_view s' = withdraw_rr n v (expire now (store_view s))"
      by (simp flip: remove_view)
    then have "rr_keys (store_view s') \<subseteq> rr_keys (expire now (store_view s))"
      by (auto simp: rr_keys_withdraw)
    moreover have "finite (rr_keys (expire now (store_view s)))"
      using finite_store_keys [OF wf] expire_keys finite_subset by blast
    ultimately have "card (rr_keys (store_view s')) \<le> card (rr_keys (expire now (store_view s)))"
      by (simp add: card_mono)
    with live [of now] le wf' frame show ?thesis by (simp add: store_count_card)
  next
    case (Lookup now n)
    with p wf live [of now] le wf' frame show ?thesis by (auto simp: store_count_card refresh_zone_view)
  next
    case (ReadSerial now)
    with p wf live [of now] le wf' frame show ?thesis by (auto simp: store_count_card refresh_zone_view)
  qed
qed

lemma store_run_count:
  assumes "store_run H ho t s ops t' s'" and "store_wf s" and "store_count s \<le> ar_max_tokens s"
  shows "store_count s' \<le> ar_max_tokens s'"
  using assms
proof (induction rule: store_run.induct)
  case (run_step ops t1 s1 p s2)
  then show ?case using exec_op_count store_run_wf by blast
qed simp

text \<open>
  The wire capacity. The iteration order of the hash map is any rearrangement of its entries; with
  one name in use, as the HTTP API guarantees, there is nothing to rearrange.
\<close>

definition fair_order :: "(zone_records \<Rightarrow> zone_records) \<Rightarrow> bool" where
  "fair_order ho \<longleftrightarrow> (\<forall>rs. mset (ho rs) = mset rs)"

fun adds_only :: "string \<Rightarrow> store_op \<Rightarrow> bool" where
  "adds_only n (Add now later n' v) \<longleftrightarrow> n' = n"
| "adds_only n _ \<longleftrightarrow> True"

definition one_name :: "string \<Rightarrow> 'nm acme_records \<Rightarrow> bool" where
  "one_name n ar \<longleftrightarrow> fst ` set (records (state ar)) \<subseteq> {n}"

lemma fits_subseq:
  assumes "drop_complete H cap" and "subseq xs ys" and "fits H cap (ps @ ys) = Some True"
  shows "fits H cap (ps @ xs) = Some True"
  using assms(2,3)
proof (induction arbitrary: ps rule: list_emb.induct)
  case (list_emb_Nil ys)
  then show ?case using fits_filter [OF assms(1), of ps ys "\<lambda>x. False"] by simp
next
  case (list_emb_Cons xs ys y)
  then show ?case using drop_completeD [OF assms(1)] by blast
next
  case (list_emb_Cons2 x y xs ys)
  then show ?case using list_emb_Cons2.IH [of "ps @ [y]"] by simp
qed

lemma one_name_cases:
  assumes "distinct (map fst rs)" and "fst ` set rs \<subseteq> {n}"
  obtains "rs = []" | ts where "rs = [(n, ts)]"
proof (cases rs)
  case (Cons x xs)
  have "xs = []"
  proof (cases xs)
    case (Cons y ys)
    with assms \<open>rs = x # xs\<close> show ?thesis by auto
  qed
  moreover have "fst x = n" using assms(2) Cons by simp
  ultimately have "rs = [(n, snd x)]" using Cons by (cases x) simp
  then show thesis by (rule that(2))
qed (rule that(1))

lemma all_values_one:
  assumes "distinct (map fst rs)" and "fst ` set rs \<subseteq> {n}" and "fair_order ho"
  shows "all_values (ho rs) = map token_value (tokens_of rs n)"
proof -
  have perm: "mset (ho rs) = mset rs" using assms(3) by (simp add: fair_order_def)
  from assms(1,2) show ?thesis
  proof (cases rule: one_name_cases)
    case 1
    with perm show ?thesis by (simp add: all_values_def)
  next
    case (2 ts)
    with perm show ?thesis by (simp add: all_values_def)
  qed
qed

lemma one_name_retain: "fst ` set (retain_live now rs) \<subseteq> fst ` set rs"
  by (force simp: retain_live_def)

lemma retain_live_values: "distinct (map fst rs) \<Longrightarrow>
  subseq (map token_value (tokens_of (retain_live now rs) n)) (map token_value (tokens_of rs n))"
  by (simp add: tokens_of_retain_live subseq_map subseq_filter_left)

lemma remove_tokens:
  assumes "distinct (map fst (retain_live now (records (state s))))"
  shows "tokens_of (records (state (remove now n' v s))) n =
    (let ts = tokens_of (retain_live now (records (state s))) n
     in if n = n' then remove_value v ts else ts)"
proof (cases "map_of (retain_live now (records (state s))) n'")
  case None
  then show ?thesis by (auto simp: remove_records Let_def tokens_of_def remove_value_def)
next
  case (Some ts)
  then have "tokens_of (retain_live now (records (state s))) n' = ts" by (simp add: tokens_of_def)
  with Some assms show ?thesis by (auto simp: remove_records Let_def tokens_of_delete)
qed

lemma remove_names:
  "fst ` set (records (state (remove now n v s))) \<subseteq> fst ` set (retain_live now (records (state s)))"
proof (cases "map_of (retain_live now (records (state s))) n")
  case None
  then show ?thesis by (simp add: remove_records)
next
  case (Some ts)
  then have "n \<in> fst ` set (retain_live now (records (state s)))"
    by (force dest: map_of_SomeD)
  moreover have "fst ` set (AList.delete n rs) \<subseteq> fst ` set rs" for rs :: zone_records
    by (auto simp: AList.delete_eq)
  ultimately show ?thesis using Some by (simp add: remove_records Let_def dom_update insert_absorb)
qed

lemma exec_op_fits:
  assumes p: "exec_op H ho p s = Some s'" and wf: "store_wf s"
    and law: "drop_complete H (wire_capacity s)" "fair_order ho" and only: "adds_only n p"
    and one: "one_name n s" and fit: "fits H (wire_capacity s) (store_values s n) = Some True"
  shows "one_name n s' \<and> fits H (wire_capacity s) (store_values s' n) = Some True"
proof -
  let ?live = "\<lambda>now. retain_live now (records (state s))"
  have dist: "distinct (map fst (records (state s)))" "distinct (map fst (?live now))" for now
    using wf by (simp_all add: store_wf_def wf_records_def fst_retain_live)
  have one_live: "fst ` set (?live now) \<subseteq> {n}" for now
    using one one_name_retain [of now "records (state s)"] by (auto simp: one_name_def)
  have sub: "fits H (wire_capacity s) vs = Some True"
    if "subseq vs (map token_value (tokens_of (?live now) n))" for vs now
    using fits_subseq [OF law(1), of vs "store_values s n" "[]"] fit that
      retain_live_values [OF dist(1), of now n] by (simp add: store_values_def subseq_order.trans)
  have refreshed: "one_name n (refresh_zone now s) \<and>
      fits H (wire_capacity s) (store_values (refresh_zone now s) n) = Some True" for now
    using one_live [of now] sub [of _ now]
    by (simp add: refresh_zone_def case_prod_unfold one_name_def store_values_def)
  show ?thesis
  proof (cases p)
    case (Add now later n' v)
    with p obtain r where a: "add H ho now later n' v s = Some (r, s')" by auto
    have n': "n' = n" using only Add by simp
    from a show ?thesis
    proof (cases rule: add_cases)
      case (refreshed ts)
      with refresh_SomeD [OF this(2)] one_live [of now] sub [of _ now] n' show ?thesis
        by (simp add: one_name_def store_values_def dom_update)
    next
      case added
      with one_live [of now] n' all_values_one [OF dist(2) one_live law(2)] show ?thesis
        by (simp add: one_name_def store_values_def dom_update)
    qed (use one_live [of now] sub [of _ now] in \<open>simp_all add: one_name_def store_values_def\<close>)
  next
    case (Remove now n' v)
    have "subseq (map token_value (remove_value w ts)) (map token_value ts)" for w ts
      unfolding remove_value_def by (intro subseq_map) simp
    then have "subseq (store_values s' n) (map token_value (tokens_of (?live now) n))"
      using p Remove dist(2) [of now] by (auto simp: store_values_def remove_tokens Let_def)
    moreover have "fst ` set (records (state s')) \<subseteq> fst ` set (?live now)"
      using p Remove remove_names [of now n' v s] by simp
    ultimately show ?thesis using sub one_live [of now] by (auto simp: one_name_def)
  next
    case (Lookup now n')
    then show ?thesis using p refreshed [of now] by simp
  next
    case (ReadSerial now)
    then show ?thesis using p refreshed [of now] by simp
  qed
qed

lemma store_run_fits:
  assumes "store_run H ho t s ops t' s'" and "store_wf s" and "drop_complete H (wire_capacity s)"
    and "fair_order ho" and "\<forall>p\<in>set ops. adds_only n p" and "one_name n s"
    and "fits H (wire_capacity s) (store_values s n) = Some True"
  shows "one_name n s' \<and> fits H (wire_capacity s) (store_values s' n) = Some True"
  using assms
proof (induction rule: store_run.induct)
  case (run_step ops t1 s1 p s2)
  have "wire_capacity s1 = wire_capacity s" and "store_wf s1"
    using store_run_frame [OF run_step.hyps(1)] store_run_wf [OF run_step.hyps(1)] run_step.prems by auto
  then show ?case using exec_op_fits [OF run_step.hyps(4)] run_step.prems run_step.IH by simp
qed simp

text \<open>
  One value through a history that neither presents it again nor withdraws it: its entry stays as
  it was, or is gone once its time has passed.
\<close>

fun touches :: "string \<Rightarrow> string \<Rightarrow> store_op \<Rightarrow> bool" where
  "touches n v (Add now later n' v') \<longleftrightarrow> n' = n \<and> v' = v"
| "touches n v (Remove now n' v') \<longleftrightarrow> n' = n \<and> v' = v"
| "touches n v _ \<longleftrightarrow> False"

lemma exec_op_untouched:
  assumes p: "exec_op H ho p s = Some s'" and wf: "store_wf s" and un: "\<not> touches n v p"
  shows "store_view s' n v = expire (op_start p) (store_view s) n v"
proof (cases p)
  case (Add now later n' v')
  with p obtain r where a: "add H ho now later n' v' s = Some (r, s')" by auto
  show ?thesis using acme.put_view [OF wf a] un Add by (auto simp: present_rr_apply)
next
  case (Remove now n' v')
  with p un show ?thesis by (auto simp: remove_view [OF wf] withdraw_rr_apply)
qed (use p in \<open>auto simp: refresh_zone_view [OF wf]\<close>)

lemma store_run_untouched:
  assumes "store_run H ho t s ops t' s'" and "store_wf s" and "\<forall>p\<in>set ops. \<not> touches n v p"
    and "t' \<le> u"
  shows "expire u (store_view s') n v = expire u (store_view s) n v"
  using assms
proof (induction rule: store_run.induct)
  case (run_step ops t1 s1 p s2)
  have wf: "store_wf s1" using run_step.hyps(1) run_step.prems(1) by (rule store_run_wf)
  have "op_start p \<le> u" using run_step.hyps(3) run_step.prems by (auto intro: order_trans)
  moreover have "store_view s2 n v = expire (op_start p) (store_view s1) n v"
    using exec_op_untouched [OF run_step.hyps(4) wf] run_step.prems by simp
  ultimately have "expire u (store_view s2) n v = expire u (store_view s1) n v"
    by (auto simp: expire_def split: option.splits if_splits)
  moreover have "t1 \<le> u" using run_step.hyps(2) \<open>op_start p \<le> u\<close> by (rule order_trans)
  ultimately show ?case using run_step.IH run_step.prems by simp
qed simp

lemma lookup_iff: "store_wf s \<Longrightarrow>
  v \<in> set (fst (fst (get_with_serial u n s))) \<longleftrightarrow> expire u (store_view s) n v \<noteq> None"
  using acme.get_values [of s u n] by simp

subsection \<open>A fresh store\<close>

lemma withdraw_keys: "rr_keys (withdraw_rr n v m) = rr_keys m \<longleftrightarrow> withdraw_rr n v m = m"
proof (cases "m n v")
  case None
  then have "withdraw_rr n v m = m" by (simp add: withdraw_rr_def fun_upd_idem)
  then show ?thesis by simp
next
  case (Some e)
  then have "(n, v) \<in> rr_keys m" and "withdraw_rr n v m n v \<noteq> m n v"
    by (simp_all add: rr_keys_def withdraw_rr_apply)
  then show ?thesis by (auto simp: rr_keys_withdraw simp del: not_None_eq)
qed

lemma insert_eq_self_iff: "insert x X = X \<longleftrightarrow> x \<in> X"
  by blast

lemma fresh_store [simp]:
  "store_wf (with_serial life mx cap ser)" "store_count (with_serial life mx cap ser) = 0"
  "store_view (with_serial life mx cap ser) = (\<lambda>n v. None)"
  "store_serial (with_serial life mx cap ser) = ser" "one_name n (with_serial life mx cap ser)"
  "store_values (with_serial life mx cap ser) n = []"
  "ar_max_tokens (with_serial life mx cap ser) = mx" "lifetime (with_serial life mx cap ser) = life"
  "wire_capacity (with_serial life mx cap ser) = cap"
  by (simp_all add: with_serial_def store_defs store_count_def one_name_def fun_eq_iff rr_def)

subsection \<open>Properties\<close>

text \<open>
  C24. A presentation never panics when the zone's SOA record can be built, keeps the store well
  formed, and is exactly the specified operation on the map of live records: expired records are
  dropped; a value already present is only given a new deadline; otherwise it is refused at the
  token limit, then refused when the complete TXT response would not fit, and else recorded with
  a deadline of one lifetime after the clock reading.
\<close>

theorem add_refines_spec:
  assumes "store_wf ar" and "soa_ok H (cap_zone (wire_capacity ar))"
  shows "\<exists>r ar'. add H ho now later n v ar = Some (r, ar') \<and> store_wf ar' \<and>
    (r, store_view ar') = spec_add now (plus_duration later (lifetime ar)) (ar_max_tokens ar)
      (fits H (wire_capacity ar) (all_values (ho (retain_live now (records (state ar)))) @ [v]) = Some True)
      n v (store_view ar)"
proof -
  obtain r ar' where a: "add H ho now later n v ar = Some (r, ar')"
    using add_total [OF assms(2)] by fastforce
  with add_wf [OF a assms(1)] add_spec [OF a assms(1)] show ?thesis by blast
qed

text \<open>
  C26. The serial of the zone advances in an operation if and only if that operation drops an
  expired record or changes the set of records, and then by exactly one; refreshing a deadline
  leaves it as it was.
\<close>

theorem serial_advances_exactly:
  assumes "exec_op H ho p s = Some s'" and "store_wf s"
  shows "store_serial s' =
    (if expire (op_start p) (store_view s) = store_view s \<and>
        rr_keys (store_view s') = rr_keys (store_view s)
     then store_serial s else store_serial s + 1)"
proof (cases p)
  case (Add now later n v)
  with assms obtain r where a: "add H ho now later n v s = Some (r, s')" by auto
  have keys: "rr_keys (present_rr n v e m) = rr_keys m \<longleftrightarrow> m n v \<noteq> None" for m e
    by (simp add: rr_keys_present insert_eq_self_iff) (simp add: rr_keys_def)
  show ?thesis
  proof (cases "expire now (store_view s) = store_view s")
    case True
    note view = acme.put_view [OF assms(2) a, unfolded True] and ser = add_serial [OF a assms(2), unfolded True]
    show ?thesis
    proof (cases "r = Inr ()")
      case True
      with \<open>expire now (store_view s) = store_view s\<close> view ser Add keys show ?thesis by simp
    next
      case False
      with \<open>expire now (store_view s) = store_view s\<close> view ser Add show ?thesis by simp
    qed
  next
    case False
    with add_serial [OF a assms(2)] Add show ?thesis by simp
  qed
next
  case (Remove now n v)
  have "withdraw_rr n v (expire now (store_view s)) = store_view s \<Longrightarrow>
      expire now (store_view s) = store_view s"
    by (auto simp: fun_eq_iff withdraw_rr_apply expire_def split: option.splits if_splits)
  then show ?thesis
    using assms remove_serial [OF assms(2), of now n v] remove_view(1) [OF assms(2), of now n v]
      withdraw_keys [of n v "store_view s"] Remove by (cases "expire now (store_view s) = store_view s") auto
next
  case (Lookup now n)
  then show ?thesis
    using assms by (cases "expire now (store_view s) = store_view s") (auto simp: refresh_zone_view)
next
  case (ReadSerial now)
  then show ?thesis
    using assms by (cases "expire now (store_view s) = store_view s") (auto simp: refresh_zone_view)
qed

lemma equal_serial:
  assumes "store_run H ho t s ops t' s'" and "store_wf s" and "length ops < 2 ^ 32"
    and "store_serial s' = store_serial s"
  shows "rr_keys (store_view s') = rr_keys (store_view s)"
proof -
  obtain j where j: "j \<le> length ops" "store_serial s' = store_serial s + of_nat j"
      "j = 0 \<longrightarrow> rr_keys (store_view s') = rr_keys (store_view s)"
    using store_run_serial [OF assms(1,2)] by blast
  have "of_nat j = (0 :: u32)" using j(2) assms(4) by simp
  moreover have "j < 2 ^ 32" using j(1) assms(3) by simp
  ultimately have "j = 0" by (auto simp: word_of_nat_eq_0_iff dest: nat_dvd_not_less)
  with j(3) show ?thesis by simp
qed

text \<open>
  In any interleaving of fewer than 2^32 operations, a serial seen twice stands for the same
  set of records: a resolver that finds the serial unchanged has the current zone.
\<close>

theorem equal_serial_equal_records:
  assumes "store_run H ho t s ops t' s'" and "store_wf s" and "length ops < 2 ^ 32"
    and "store_serial s' = store_serial s"
  shows "rr_keys (store_view s') = rr_keys (store_view s)"
  using assms by (rule equal_serial)

text \<open>
  C25. A value presented successfully is in the answer to every later lookup before its deadline
  and in none from the deadline on, whatever else happens to the store in between, as long as
  nobody presents the same value again or withdraws it.
\<close>

theorem presented_until_deadline:
  assumes "store_wf s" and "add H ho now later n v s = Some (Inr (), s1)"
    and "store_run H ho later s1 ops t s2" and "\<forall>p\<in>set ops. \<not> touches n v p" and "t \<le> u"
  shows "v \<in> set (fst (fst (get_with_serial u n s2))) \<longleftrightarrow> u < plus_duration later (lifetime s)"
proof -
  have wf: "store_wf s1" "store_wf s2"
    using add_wf [OF assms(2,1)] store_run_wf [OF assms(3)] by blast+
  have "expire u (store_view s2) n v = expire u (store_view s1) n v"
    by (rule store_run_untouched [OF assms(3) wf(1) assms(4,5)])
  with lookup_iff [OF wf(1), of v u n] lookup_iff [OF wf(2), of v u n] acme.put_then_get [OF assms(1,2)]
  show ?thesis by simp
qed

text \<open>
  A withdrawn value is in no later answer until somebody presents it again, and a withdrawal
  takes nothing else away: at the next lookup every other value of every name is as before.
\<close>

theorem withdrawn_is_gone:
  assumes "store_wf s" and "store_run H ho now (remove now n v s) ops t s2"
    and "\<forall>p\<in>set ops. \<not> touches n v p" and "t \<le> u"
  shows "v \<notin> set (fst (fst (get_with_serial u n s2))) \<and>
    set (fst (fst (get_with_serial now n' (remove now n v s)))) =
      set (fst (fst (get_with_serial now n' s))) - (if n' = n then {v} else {})"
proof
  have wf: "store_wf (remove now n v s)" "store_wf s2"
    using remove_view(2) [OF assms(1)] store_run_wf [OF assms(2)] by blast+
  have "expire u (store_view s2) n v = None"
    using store_run_untouched [OF assms(2) wf(1) assms(3,4)]
    by (simp add: remove_view [OF assms(1)] expire_def withdraw_rr_apply)
  then show "v \<notin> set (fst (fst (get_with_serial u n s2)))" using lookup_iff [OF wf(2), of v u n] by simp
  show "set (fst (fst (get_with_serial now n' (remove now n v s)))) =
      set (fst (fst (get_with_serial now n' s))) - (if n' = n then {v} else {})"
    by (rule acme.del_then_get [OF assms(1)]) simp
qed

text \<open>
  A refused presentation, at either limit, changes the answer to no later lookup of any name.
\<close>

theorem refused_changes_no_answer:
  assumes "store_wf s" and "add H ho now later n v s = Some (Inl e, s')" and "now \<le> t"
  shows "set (fst (fst (get_with_serial t n' s'))) = set (fst (fst (get_with_serial t n' s)))"
  by (rule acme.put_error_get [OF assms])

text \<open>
  From an empty store on, and in any interleaving, there are never more records than the
  token limit, and the complete response with all values of the challenge name always fits one
  DNS message, when an encoder keeps a complete response complete as answers are left out.
\<close>

theorem store_never_overfull:
  assumes "store_run H ho t (with_serial life mx cap ser) ops t' s'"
    and "drop_complete H cap" and "fits H cap [] = Some True" and "fair_order ho"
    and "\<forall>p\<in>set ops. adds_only n p"
  shows "card (rr_keys (store_view s')) \<le> mx \<and> fits H cap (store_values s' n) = Some True"
proof
  have "store_wf s'" by (rule store_run_wf [OF assms(1)]) simp
  moreover have "store_count s' \<le> ar_max_tokens s'" by (rule store_run_count [OF assms(1)]) simp_all
  ultimately show "card (rr_keys (store_view s')) \<le> mx"
    using store_run_frame [OF assms(1)] by (simp add: store_count_card)
  show "fits H cap (store_values s' n) = Some True"
    using store_run_fits [OF assms(1) _ _ assms(4,5)] assms(2,3) by simp
qed

subsection \<open>A sample history\<close>

text \<open>
  Two names are presented, one of them expires and the other is withdrawn, in a store of capacity
  five whose tokens live for one second.
\<close>

definition sample_store :: "string acme_records" where
  "sample_store = with_serial 1000 5 sample_capacity 7"

definition one_record :: "string acme_records" where
  "one_record = set_zone [(''n'', [\<lparr>token_value = ''v'', expires_at = Instant 1020\<rparr>])] True sample_store"

lemma sample_store_zone [simp]: "state sample_store = \<lparr>records = [], serial = 7\<rparr>"
  "lifetime sample_store = 1000" "ar_max_tokens sample_store = 5" "wire_capacity sample_store = sample_capacity"
  by (simp_all add: sample_store_def with_serial_def)

lemma sample_store_wf [simp]: "store_wf sample_store"
  by (simp add: sample_store_def)

lemma sample_add:
  "add (counting_hickory 5) (\<lambda>rs. rs) (Instant 10) (Instant 20) ''n'' ''v'' sample_store = Some (Inr (), one_record)"
  by (simp add: add_def prune_def retain_live_def counting_fits tokens_of_def one_record_def all_values_def)

lemma sample_add_refused:
  "add (counting_hickory 0) (\<lambda>rs. rs) (Instant 10) (Instant 20) ''n'' ''v'' sample_store =
     Some (Inl DnsWireCapacityReached, sample_store)"
  by (simp add: add_def prune_def retain_live_def counting_fits tokens_of_def all_values_def
      set_zone_def)

lemma sample_run:
  "store_run (counting_hickory 5) (\<lambda>rs. rs) (Instant 0) sample_store
     [Add (Instant 10) (Instant 20) ''n'' ''v''] (Instant 20) one_record"
  using run_step [OF run_none, of "Instant 0" "Add (Instant 10) (Instant 20) ''n'' ''v''"
      "counting_hickory 5" "\<lambda>rs. rs" sample_store one_record]
  by (simp add: sample_add)

lemma lookup_run: "t \<le> now \<Longrightarrow>
  store_run H ho t s [Lookup now n] now (refresh_zone now s)"
  using run_step [OF run_none, of t "Lookup now n" H ho s "refresh_zone now s"] by simp

lemma fair_order_id [simp]: "fair_order (\<lambda>rs. rs)"
  by (simp add: fair_order_def)

theorem add_refines_spec_witness:
  "\<exists>r ar'. add (counting_hickory 5) (\<lambda>rs. rs) (Instant 10) (Instant 20) ''n'' ''v'' sample_store = Some (r, ar') \<and>
     store_wf ar' \<and> (r, store_view ar') = spec_add (Instant 10) (Instant 1020) 5 True ''n'' ''v'' (store_view sample_store)"
  using add_refines_spec [OF sample_store_wf, where H = "counting_hickory 5" and ho = "\<lambda>rs. rs"
      and now = "Instant 10" and later = "Instant 20" and n = "''n''" and v = "''v''"]
  by (simp add: counting_soa_ok counting_fits retain_live_def all_values_def)

theorem serial_advances_exactly_witness:
  "exec_op (counting_hickory 5) (\<lambda>rs. rs) (Add (Instant 10) (Instant 20) ''n'' ''v'') sample_store = Some one_record \<and>
   store_serial one_record = (8 :: u32)"
proof -
  have e: "exec_op (counting_hickory 5) (\<lambda>rs. rs) (Add (Instant 10) (Instant 20) ''n'' ''v'') sample_store = Some one_record"
    by (simp add: sample_add)
  have "(''n'', ''v'') \<in> rr_keys (store_view one_record)" "rr_keys (store_view sample_store) = {}"
    by (simp_all add: rr_keys_def store_view_def one_record_def rr_def)
  with serial_advances_exactly [OF e sample_store_wf] e show ?thesis
    by (auto simp: store_serial_def)
qed

theorem equal_serial_equal_records_witness:
  "rr_keys (store_view (refresh_zone (Instant 10) sample_store)) = rr_keys (store_view sample_store)"
  by (rule equal_serial_equal_records [OF lookup_run [of "Instant 0" "Instant 10" _ _ _ "''n''"] sample_store_wf])
    (simp_all add: refresh_zone_view(3) expire_def store_view_def rr_def fun_eq_iff)

theorem presented_until_deadline_witness:
  "''v'' \<in> set (fst (fst (get_with_serial (Instant 1019) ''n'' (refresh_zone (Instant 500) one_record)))) \<and>
   ''v'' \<notin> set (fst (fst (get_with_serial (Instant 1020) ''n'' (refresh_zone (Instant 500) one_record))))"
proof -
  have run: "store_run (counting_hickory 5) (\<lambda>rs. rs) (Instant 20) one_record [Lookup (Instant 500) ''n'']
      (Instant 500) (refresh_zone (Instant 500) one_record)"
    by (rule lookup_run) simp
  show ?thesis
    using presented_until_deadline [OF sample_store_wf sample_add run, of "Instant 1019"]
      presented_until_deadline [OF sample_store_wf sample_add run, of "Instant 1020"] by simp
qed

theorem withdrawn_is_gone_witness:
  "''v'' \<notin> set (fst (fst (get_with_serial (Instant 90) ''n''
     (refresh_zone (Instant 50) (remove (Instant 30) ''n'' ''v'' one_record)))))"
proof -
  have "store_wf one_record" using add_wf [OF sample_add] by simp
  from withdrawn_is_gone [OF this lookup_run [of "Instant 30" "Instant 50" "counting_hickory 5" "\<lambda>rs. rs" _ "''n''"],
      where v = "''v''" and u = "Instant 90"]
  show ?thesis by simp
qed

theorem refused_changes_no_answer_witness:
  "add (counting_hickory 0) (\<lambda>rs. rs) (Instant 10) (Instant 20) ''n'' ''v'' sample_store =
     Some (Inl DnsWireCapacityReached, sample_store) \<and>
   set (fst (fst (get_with_serial (Instant 40) ''n'' sample_store))) =
     set (fst (fst (get_with_serial (Instant 40) ''n'' sample_store)))"
  using refused_changes_no_answer [OF sample_store_wf sample_add_refused, of "Instant 40" "''n''"]
    sample_add_refused by simp

theorem store_never_overfull_witness:
  "card (rr_keys (store_view one_record)) \<le> 5 \<and>
   fits (counting_hickory 5) sample_capacity (store_values one_record ''n'') = Some True"
  by (rule store_never_overfull [OF sample_run [unfolded sample_store_def] counting_drop_complete])
    (simp_all add: counting_fits)

end
