(* ===== verification/F64.thy ===== *)
theory F64
  imports Prelude "HOL-Library.Log_Nat"
begin

text \<open>
  The part of IEEE 754 double precision that \<open>src/api.rs\<close> uses: results that are not negative and
  far below the overflow threshold. A finite \<open>f64\<close> is the rational it stands for; an arithmetic
  operation is the exact operation followed by \<open>f64_round\<close>, rounding to the nearest multiple of
  the unit in the last place, ties to even. Proved of it here: it is monotone, leaves
  representable values as they are (whole numbers up to 2^53 among them), and subtracting one from
  a representable value of at least one is exact.
\<close>

subsection \<open>Definitions\<close>

definition bin_exponent :: "rat \<Rightarrow> int" where
  "bin_exponent x =
     (let (a, b) = quotient_of x; e = bitlen a - bitlen b
      in if 2 powi e \<le> x then e else e - 1)"

definition ulp_exponent :: "rat \<Rightarrow> int" where
  "ulp_exponent x = max (bin_exponent x - 52) (- 1074)"

definition round_half_even :: "rat \<Rightarrow> int" where
  "round_half_even r =
     (let f = \<lfloor>r\<rfloor>; d = r - of_int f
      in if d < 1 / 2 then f else if d > 1 / 2 then f + 1 else if even f then f else f + 1)"

definition f64_round :: "rat \<Rightarrow> rat" where
  "f64_round x =
     (if x \<le> 0 then 0
      else let u = 2 powi ulp_exponent x in of_int (round_half_even (x / u)) * u)"

text \<open>\<open>usize as f64\<close>, and \<open>Duration::as_secs_f64\<close>: whole seconds plus nanoseconds over 10^9.\<close>

definition f64_of_nat :: "nat \<Rightarrow> rat" where
  "f64_of_nat n = f64_round (of_nat n)"

definition as_secs_f64 :: "duration \<Rightarrow> rat" where
  "as_secs_f64 d =
     f64_round (f64_of_nat (d div 1000000000) +
       f64_round (f64_of_nat (d mod 1000000000) / f64_of_nat 1000000000))"

subsection \<open>Rounding to a whole number\<close>

lemma round_half_even_of_int [simp]: "round_half_even (of_int n) = n"
  by (simp add: round_half_even_def)

lemma round_half_even_bounds: "\<lfloor>r\<rfloor> \<le> round_half_even r" "round_half_even r \<le> \<lfloor>r\<rfloor> + 1"
  by (auto simp: round_half_even_def Let_def)

lemma round_half_even_mono:
  assumes "r \<le> s"
  shows "round_half_even r \<le> round_half_even s"
proof (cases "\<lfloor>r\<rfloor> = \<lfloor>s\<rfloor>")
  case True
  with assms show ?thesis by (auto simp: round_half_even_def Let_def)
next
  case False
  with assms have "\<lfloor>r\<rfloor> + 1 \<le> \<lfloor>s\<rfloor>" using floor_mono [OF assms] by linarith
  with round_half_even_bounds [of r] round_half_even_bounds [of s] show ?thesis by linarith
qed

lemma round_half_even_le_int: "r \<le> of_int n \<Longrightarrow> round_half_even r \<le> n"
  using round_half_even_mono [of r "of_int n"] by simp

lemma round_half_even_ge_int: "of_int n \<le> r \<Longrightarrow> n \<le> round_half_even r"
  using round_half_even_mono [of "of_int n" r] by simp

subsection \<open>The exponent\<close>

lemma pow2_pos [simp]: "(0 :: rat) < 2 powi e"
  by simp

lemma pow2_add: "(2 :: rat) powi (a + b) = 2 powi a * 2 powi b"
  by (simp add: power_int_add)

lemma pow2_nat: "0 \<le> n \<Longrightarrow> (2 :: rat) powi n = 2 ^ nat n"
  by (simp add: power_int_def)

lemma pow2_le_iff [simp]: "(2 :: rat) powi a \<le> 2 powi b \<longleftrightarrow> a \<le> b"
  using power_int_strict_increasing [of b a "2 :: rat"] power_int_increasing [of a b "2 :: rat"] by force

lemma pow2_diff: "(2 :: rat) powi (a - b) = 2 powi a / 2 powi b"
  by (simp add: power_int_diff)

lemma bitlen_pow2_bounds:
  assumes "0 < a"
  shows "(2 :: rat) powi (bitlen a - 1) \<le> of_int a" "of_int a < (2 :: rat) powi (bitlen a)"
proof -
  have p: "0 < bitlen a" using assms bitlen_nonneg [of a] bitlen_eq_zero_iff [of a] by linarith
  have b: "2 ^ nat (bitlen a - 1) \<le> a \<and> a < 2 ^ nat (bitlen a)" using bitlen_bounds assms by blast
  have "(of_int (2 ^ nat (bitlen a - 1)) :: rat) \<le> of_int a" "(of_int a :: rat) < of_int (2 ^ nat (bitlen a))"
    using b by (simp_all only: of_int_le_iff of_int_less_iff)
  then show "(2 :: rat) powi (bitlen a - 1) \<le> of_int a" "of_int a < (2 :: rat) powi (bitlen a)"
    using p by (simp_all add: pow2_nat)
qed

lemma bin_exponent_bounds:
  assumes "0 < x"
  shows "2 powi (bin_exponent x) \<le> x \<and> x < 2 powi (bin_exponent x + 1)"
proof -
  obtain a b where q: "quotient_of x = (a, b)" by fastforce
  have b: "0 < b" and x: "x = of_int a / of_int b"
    using q by (simp_all add: quotient_of_denom_pos quotient_of_div)
  with assms have a: "0 < a" by (simp add: zero_less_divide_iff)
  note A = bitlen_pow2_bounds [OF a] and B = bitlen_pow2_bounds [OF b]
  have "x < 2 powi bitlen a / 2 powi (bitlen b - 1)"
    unfolding x using A B a b by (intro frac_less) auto
  then have up: "x < 2 powi (bitlen a - bitlen b + 1)" by (simp add: pow2_diff algebra_simps flip: pow2_diff)
  have "2 powi (bitlen a - 1) / 2 powi bitlen b \<le> x"
    unfolding x using A B a b by (intro frac_le) auto
  then have "2 powi (bitlen a - bitlen b - 1) \<le> x" by (simp add: algebra_simps flip: pow2_diff)
  with up show ?thesis by (auto simp: bin_exponent_def q not_le Let_def)
qed

lemma bin_exponent_mono: "0 < x \<Longrightarrow> x \<le> y \<Longrightarrow> bin_exponent x \<le> bin_exponent y"
proof -
  assume "0 < x" and "x \<le> y"
  then have "2 powi (bin_exponent x) < (2 :: rat) powi (bin_exponent y + 1)"
    using bin_exponent_bounds [of x] bin_exponent_bounds [of y] by linarith
  then show ?thesis using pow2_le_iff [of "bin_exponent y + 1" "bin_exponent x"] by linarith
qed

lemma ulp_exponent_mono: "0 < x \<Longrightarrow> x \<le> y \<Longrightarrow> ulp_exponent x \<le> ulp_exponent y"
  using bin_exponent_mono [of x y] by (auto simp: ulp_exponent_def)

subsection \<open>Rounding\<close>

definition f64_rep :: "rat \<Rightarrow> bool" where
  "f64_rep x \<longleftrightarrow> (\<exists>m k. x = of_int m * 2 powi k \<and> 0 \<le> m \<and> m \<le> 2 ^ 53 \<and> - 1074 \<le> k)"

lemma f64_round_0 [simp]: "f64_round 0 = 0"
  by (simp add: f64_round_def)

lemma scaled_bound:
  assumes "0 < x"
  shows "x / 2 powi ulp_exponent x \<le> of_int (2 ^ 53)"
proof -
  have "x \<le> 2 powi (bin_exponent x + 1)" using bin_exponent_bounds [OF assms] by simp
  also have "\<dots> \<le> 2 powi (53 + ulp_exponent x)" by (simp add: ulp_exponent_def)
  finally show ?thesis by (simp add: pow2_add pow2_nat divide_le_eq)
qed

lemma f64_round_nonneg [simp]: "0 \<le> f64_round x"
proof (cases "x \<le> 0")
  case False
  then have "0 \<le> round_half_even (x / 2 powi ulp_exponent x)" by (intro round_half_even_ge_int) simp
  with False show ?thesis by (simp add: f64_round_def Let_def)
qed (simp add: f64_round_def)

lemma f64_round_rep: "f64_rep (f64_round x)"
proof (cases "x \<le> 0")
  case True
  then show ?thesis by (auto simp: f64_round_def f64_rep_def intro!: exI [of _ 0])
next
  case False
  let ?m = "round_half_even (x / 2 powi ulp_exponent x)"
  have "0 \<le> ?m" using False by (intro round_half_even_ge_int) simp
  moreover have "?m \<le> 2 ^ 53" using scaled_bound False by (intro round_half_even_le_int) simp
  ultimately show ?thesis
    using False unfolding f64_rep_def f64_round_def Let_def
    by (intro exI [of _ ?m] exI [of _ "ulp_exponent x"]) (auto simp: ulp_exponent_def)
qed

lemma ulp_exponent_le:
  assumes "x = of_int m * 2 powi k" and "0 < m" and "m < 2 ^ 53" and "- 1074 \<le> k"
  shows "ulp_exponent x \<le> k"
proof -
  have x: "0 < x" using assms(1,2) by simp
  have "(of_int m :: rat) < of_int (2 ^ 53)" using assms(3) by (simp only: of_int_less_iff)
  then have "x < 2 powi (53 + k)" using assms(1) by (simp add: pow2_add pow2_nat)
  then have "2 powi (bin_exponent x) < (2 :: rat) powi (53 + k)"
    using bin_exponent_bounds [OF x] by linarith
  then have "bin_exponent x < 53 + k" using pow2_le_iff [of "53 + k" "bin_exponent x"] by linarith
  with assms(4) show ?thesis by (simp add: ulp_exponent_def)
qed

lemma f64_round_multiple:
  assumes "0 < x" and "x = of_int n * 2 powi ulp_exponent x"
  shows "f64_round x = x"
proof -
  have "x / 2 powi ulp_exponent x = of_int n" using assms(2) by (simp add: divide_eq_eq)
  then have "round_half_even (x / 2 powi ulp_exponent x) = n" by simp
  with assms show ?thesis by (simp add: f64_round_def Let_def)
qed

lemma pow2_multiple: "a \<le> b \<Longrightarrow> \<exists>n. (2 :: rat) powi b = of_int n * 2 powi a"
proof -
  assume "a \<le> b"
  then have "(2 :: rat) powi b = of_int (2 ^ nat (b - a)) * 2 powi a"
    using pow2_add [of "b - a" a] by (simp add: pow2_nat)
  then show ?thesis by blast
qed

lemma f64_round_id:
  assumes "f64_rep x"
  shows "f64_round x = x"
proof -
  from assms obtain m k where x: "x = of_int m * 2 powi k" and m: "0 \<le> m" "m \<le> 2 ^ 53" and k: "- 1074 \<le> k"
    by (auto simp: f64_rep_def)
  consider "m = 0" | "0 < m" "m < 2 ^ 53" | "m = 2 ^ 53" using m by linarith
  then show ?thesis
  proof cases
    case 1
    with x show ?thesis by simp
  next
    case 2
    obtain n where "(2 :: rat) powi k = of_int n * 2 powi ulp_exponent x"
      using pow2_multiple [OF ulp_exponent_le [OF x 2 k]] by blast
    then have "x = of_int (m * n) * 2 powi ulp_exponent x" using x by simp
    with 2 x show ?thesis by (intro f64_round_multiple [of x "m * n"]) simp_all
  next
    case 3
    then have "x = of_int (2 ^ 52) * 2 powi (k + 1)" using x by (simp add: pow2_add)
    moreover from this have "ulp_exponent x \<le> k + 1"
      by (rule ulp_exponent_le) (use k in simp_all)
    then obtain n where "(2 :: rat) powi (k + 1) = of_int n * 2 powi ulp_exponent x" using pow2_multiple by blast
    ultimately have "x = of_int (2 ^ 52 * n) * 2 powi ulp_exponent x" by simp
    with 3 x show ?thesis by (intro f64_round_multiple [of x "2 ^ 52 * n"]) simp_all
  qed
qed

lemma f64_round_mono:
  assumes "x \<le> y"
  shows "f64_round x \<le> f64_round y"
proof (cases "0 < x")
  case False
  then show ?thesis by (simp add: f64_round_def [of x])
next
  case True
  with assms have y: "0 < y" by simp
  let ?p = "ulp_exponent x" and ?q = "ulp_exponent y"
  have rx: "f64_round x = of_int (round_half_even (x / 2 powi ?p)) * 2 powi ?p"
    and ry: "f64_round y = of_int (round_half_even (y / 2 powi ?q)) * 2 powi ?q"
    using True y by (simp_all add: f64_round_def Let_def)
  show ?thesis
  proof (cases "?p = ?q")
    case eq: True
    have "round_half_even (x / 2 powi ?p) \<le> round_half_even (y / 2 powi ?p)"
      using assms by (intro round_half_even_mono divide_right_mono) simp_all
    then show ?thesis by (simp add: rx ry eq)
  next
    case False
    with ulp_exponent_mono [OF True assms] have less: "?p < ?q" by simp
    then have q: "?q = bin_exponent y - 52" and e: "bin_exponent x < bin_exponent y" "?p \<le> ?q - 1"
      by (auto simp: ulp_exponent_def split: if_splits)
    have "round_half_even (x / 2 powi ?p) \<le> 2 ^ 53" using scaled_bound [OF True] by (rule round_half_even_le_int)
    then have "f64_round x \<le> of_int (2 ^ 53) * 2 powi ?p"
      unfolding rx by (intro mult_right_mono) (simp_all only: of_int_le_iff, simp)
    also have "\<dots> \<le> of_int (2 ^ 53) * 2 powi (?q - 1)" using e(2) by (intro mult_left_mono) simp_all
    also have "\<dots> = of_int (2 ^ 52) * 2 powi ?q" by (simp add: pow2_diff)
    also have "\<dots> \<le> f64_round y"
    proof -
      have "2 powi (52 + ?q) \<le> y" using bin_exponent_bounds [OF y] q by simp
      then have "of_int (2 ^ 52) \<le> y / 2 powi ?q" by (simp add: pow2_add pow2_nat le_divide_eq)
      then have "2 ^ 52 \<le> round_half_even (y / 2 powi ?q)" by (rule round_half_even_ge_int)
      then show ?thesis unfolding ry by (intro mult_right_mono) (simp_all only: of_int_le_iff, simp)
    qed
    finally show ?thesis .
  qed
qed

subsection \<open>Exact cases\<close>

lemma f64_rep_of_nat: "n \<le> 2 ^ 53 \<Longrightarrow> f64_rep (of_nat n)"
  unfolding f64_rep_def by (intro exI [of _ "int n"] exI [of _ 0]) simp

lemma f64_of_nat_exact: "n \<le> 2 ^ 53 \<Longrightarrow> f64_of_nat n = of_nat n"
  by (simp add: f64_of_nat_def f64_round_id f64_rep_of_nat)

lemma f64_rep_nonneg: "f64_rep x \<Longrightarrow> 0 \<le> x"
  by (auto simp: f64_rep_def)

lemma f64_rep_minus_one:
  assumes "f64_rep x" and "1 \<le> x" and "x \<le> 2 ^ 53"
  shows "f64_rep (x - 1)"
proof -
  from assms(1) obtain m k where x: "x = of_int m * 2 powi k" and m: "0 \<le> m" "m \<le> 2 ^ 53" and k: "- 1074 \<le> k"
    by (auto simp: f64_rep_def)
  show ?thesis
  proof (cases "0 \<le> k")
    case True
    define n where "n = m * 2 ^ nat k"
    have x: "x = of_int n" using x True by (simp add: n_def pow2_nat)
    have "(of_int n :: rat) \<le> of_int (2 ^ 53)" using assms(3) x by simp
    then have "n \<le> 2 ^ 53" by (simp only: of_int_le_iff)
    moreover have "1 \<le> n" using assms(2) x by simp
    ultimately have "1 \<le> n" and "n \<le> 2 ^ 53" by simp_all
    then show ?thesis unfolding f64_rep_def x by (intro exI [of _ "n - 1"] exI [of _ 0]) simp
  next
    case False
    define one j :: int where "one = 2 ^ nat (- k)" and "j = m - one"
    have one: "1 = of_int one * (2 :: rat) powi k" and "0 \<le> one"
      using pow2_add [of "- k" k] False by (simp_all add: one_def pow2_nat)
    then have eq: "x - 1 = of_int j * 2 powi k" using x by (simp add: j_def algebra_simps)
    have "0 \<le> x - 1" using assms(2) by simp
    then have "0 \<le> j" using pow2_pos [of k] unfolding eq
      by (auto simp: zero_le_mult_iff dest: leD)
    moreover have "j \<le> 2 ^ 53" using m(2) \<open>0 \<le> one\<close> by (simp add: j_def)
    ultimately show ?thesis unfolding f64_rep_def using eq k by blast
  qed
qed

lemma f64_minus_one: "f64_rep x \<Longrightarrow> 1 \<le> x \<Longrightarrow> x \<le> 2 ^ 53 \<Longrightarrow> f64_round (x - 1) = x - 1"
  by (rule f64_round_id [OF f64_rep_minus_one])

lemma as_secs_0 [simp]: "as_secs_f64 0 = 0"
  by (simp add: as_secs_f64_def f64_of_nat_def)

lemma as_secs_nonneg [simp]: "0 \<le> as_secs_f64 d"
  by (simp add: as_secs_f64_def)

text \<open>A duration of at least \<open>s\<close> whole seconds reads as at least \<open>s\<close>.\<close>

lemma as_secs_ge:
  assumes "s \<le> 2 ^ 53" and "duration_from_secs s \<le> d"
  shows "of_nat s \<le> as_secs_f64 d"
proof -
  have "s \<le> d div 1000000000"
    using div_le_mono [OF assms(2), of 1000000000] by (simp add: duration_from_secs_def)
  then have "f64_of_nat s \<le> f64_of_nat (d div 1000000000)"
    unfolding f64_of_nat_def by (intro f64_round_mono) simp
  then have "of_nat s \<le> f64_of_nat (d div 1000000000) +
      f64_round (f64_of_nat (d mod 1000000000) / f64_of_nat 1000000000)"
    using f64_round_nonneg [of "f64_of_nat (d mod 1000000000) / f64_of_nat 1000000000"]
    unfolding f64_of_nat_exact [OF assms(1)] by linarith
  from f64_round_mono [OF this] show ?thesis
    by (simp add: as_secs_f64_def f64_round_id [OF f64_rep_of_nat [OF assms(1)]])
qed

end
