(* ===== verification/Gate.thy ===== *)
theory Gate
  imports F64
begin

text \<open>
  The request gate of \<open>src/api.rs\<close>: a token bucket in double precision behind a mutex (each check
  is one atomic step; a poisoned mutex is used as it is), and a semaphore for the requests in
  flight. \<open>tokio\<close>'s semaphore is third-party code: the record \<open>semaphore\<close> holds the calls the
  program makes and \<open>semaphore_law\<close> what their documentation promises. The locale \<open>burst_limiter\<close>
  is a limiter with a whole number of admissions left, interpreted on the token bucket.
\<close>

subsection \<open>Definitions\<close>

record token_bucket =
  tokens :: rat
  last_refill :: instant
  rate_per_second :: rat
  burst :: rat

record 'sem semaphore =
  sem_new :: "nat \<Rightarrow> 'sem"
  sem_try_acquire :: "'sem \<Rightarrow> 'sem option"
  sem_release :: "'sem \<Rightarrow> 'sem"   \<comment> \<open>the drop of a permit\<close>
  sem_available :: "'sem \<Rightarrow> nat"

definition semaphore_law :: "'sem semaphore \<Rightarrow> bool" where
  "semaphore_law S \<longleftrightarrow>
     (\<forall>n. sem_available S (sem_new S n) = n) \<and>
     (\<forall>s. sem_try_acquire S s = None \<longleftrightarrow> sem_available S s = 0) \<and>
     (\<forall>s s'. sem_try_acquire S s = Some s' \<longrightarrow> sem_available S s = Suc (sem_available S s')) \<and>
     (\<forall>s. sem_available S (sem_release S s) = Suc (sem_available S s))"

record 'sem request_gate =
  concurrency :: 'sem
  rate :: token_bucket

definition new_gate :: "'sem semaphore \<Rightarrow> instant \<Rightarrow> nat \<Rightarrow> rat \<Rightarrow> nat \<Rightarrow> 'sem request_gate" where
  "new_gate S now max_concurrent rps brst =
     \<lparr>concurrency = sem_new S max_concurrent,
      rate = \<lparr>tokens = f64_of_nat brst, last_refill = now, rate_per_second = rps,
              burst = f64_of_nat brst\<rparr>\<rparr>"

definition check_bucket :: "instant \<Rightarrow> token_bucket \<Rightarrow> bool \<times> token_bucket" where
  "check_bucket now bucket =
     (let elapsed = as_secs_f64 (duration_since now (last_refill bucket));
          bucket = bucket\<lparr>tokens :=
            min (f64_round (tokens bucket + f64_round (elapsed * rate_per_second bucket))) (burst bucket)\<rparr>;
          bucket = bucket\<lparr>last_refill := now\<rparr>
      in if tokens bucket < 1 then (False, bucket)
         else (True, bucket\<lparr>tokens := f64_round (tokens bucket - 1)\<rparr>))"

definition check_rate :: "instant \<Rightarrow> 'sem request_gate \<Rightarrow> bool \<times> 'sem request_gate" where
  "check_rate now g = (let (ok, b) = check_bucket now (rate g) in (ok, g\<lparr>rate := b\<rparr>))"

definition try_acquire :: "'sem semaphore \<Rightarrow> 'sem request_gate \<Rightarrow> 'sem request_gate option" where
  "try_acquire S g =
     (case sem_try_acquire S (concurrency g) of
        None \<Rightarrow> None
      | Some c \<Rightarrow> Some (g\<lparr>concurrency := c\<rparr>))"

definition release_permit :: "'sem semaphore \<Rightarrow> 'sem request_gate \<Rightarrow> 'sem request_gate" where
  "release_permit S g = g\<lparr>concurrency := sem_release S (concurrency g)\<rparr>"

subsection \<open>The bucket's invariant\<close>

definition bucket_ok :: "token_bucket \<Rightarrow> bool" where
  "bucket_ok b \<longleftrightarrow> f64_rep (tokens b) \<and> f64_rep (burst b) \<and> tokens b \<le> burst b \<and> burst b \<le> 2 ^ 53 \<and>
     0 \<le> rate_per_second b"

definition refilled :: "instant \<Rightarrow> token_bucket \<Rightarrow> rat" where
  "refilled now b =
     min (f64_round (tokens b + f64_round (as_secs_f64 (duration_since now (last_refill b)) * rate_per_second b)))
       (burst b)"

lemma check_bucket_eq:
  "check_bucket now b =
     (if refilled now b < 1 then (False, b\<lparr>tokens := refilled now b, last_refill := now\<rparr>)
      else (True, b\<lparr>tokens := f64_round (refilled now b - 1), last_refill := now\<rparr>))"
  by (simp add: check_bucket_def refilled_def Let_def)

lemma refilled_ok:
  assumes "bucket_ok b"
  shows "f64_rep (refilled now b)" "refilled now b \<le> burst b" "0 \<le> refilled now b"
  using assms f64_rep_nonneg [of "burst b"]
  by (auto simp: refilled_def bucket_ok_def f64_round_rep min_def)

lemma check_bucket_frame [simp]:
  "burst (snd (check_bucket now b)) = burst b" "last_refill (snd (check_bucket now b)) = now"
  "rate_per_second (snd (check_bucket now b)) = rate_per_second b"
  by (simp_all add: check_bucket_eq)

lemma check_bucket_tokens:
  assumes "bucket_ok b"
  shows "fst (check_bucket now b) \<longleftrightarrow> 1 \<le> refilled now b"
    and "tokens (snd (check_bucket now b)) =
      (if 1 \<le> refilled now b then refilled now b - 1 else refilled now b)"
  using assms refilled_ok [OF assms, of now] f64_minus_one [of "refilled now b"]
  by (auto simp: check_bucket_eq bucket_ok_def)

lemma check_bucket_ok:
  assumes "bucket_ok b"
  shows "bucket_ok (snd (check_bucket now b))"
proof -
  note r = refilled_ok [OF assms, of now]
  have "f64_rep (refilled now b - 1)" if "1 \<le> refilled now b"
    using that r assms by (intro f64_rep_minus_one) (auto simp: bucket_ok_def)
  then show ?thesis
    using r assms unfolding bucket_ok_def [of "snd _"] check_bucket_tokens(2) [OF assms]
    by (auto simp: bucket_ok_def)
qed

lemma refilled_same_time:
  assumes "bucket_ok b" and "now \<le> last_refill b"
  shows "refilled now b = tokens b"
proof -
  have "duration_since now (last_refill b) = 0" using assms(2) by (cases now; cases "last_refill b") simp
  then show ?thesis using assms(1) by (simp add: refilled_def bucket_ok_def f64_round_id min_def)
qed

lemma refilled_ge: "bucket_ok b \<Longrightarrow> tokens b \<le> refilled now b"
proof -
  assume ok: "bucket_ok b"
  have "tokens b = f64_round (tokens b)" using ok by (simp add: bucket_ok_def f64_round_id)
  also have "\<dots> \<le> f64_round (tokens b + f64_round (as_secs_f64 (duration_since now (last_refill b)) * rate_per_second b))"
    by (rule f64_round_mono) simp
  finally show ?thesis using ok by (simp add: refilled_def bucket_ok_def)
qed

lemma new_gate_ok: "0 \<le> rps \<Longrightarrow> b \<le> 2 ^ 53 \<Longrightarrow> bucket_ok (rate (new_gate S now mx rps b))"
  by (simp add: new_gate_def bucket_ok_def f64_of_nat_exact f64_rep_of_nat)

subsection \<open>The interface: a limiter with whole admissions left\<close>

locale burst_limiter =
  fixes wf :: "'g \<Rightarrow> bool"
    and asof :: "'g \<Rightarrow> instant"
    and credit :: "'g \<Rightarrow> nat"
    and check :: "instant \<Rightarrow> 'g \<Rightarrow> bool \<times> 'g"
  assumes check_wf: "wf g \<Longrightarrow> wf (snd (check t g))"
    and check_at: "wf g \<Longrightarrow> asof (snd (check t g)) = t"
    and check_now: "wf g \<Longrightarrow> fst (check (asof g) g) \<longleftrightarrow> 0 < credit g"
    and check_credit: "wf g \<Longrightarrow> credit (snd (check (asof g) g)) = credit g - 1"
begin

text \<open>The answers to a number of checks at one instant, and the limiter after them.\<close>

primrec checks :: "nat \<Rightarrow> instant \<Rightarrow> 'g \<Rightarrow> bool list \<times> 'g" where
  "checks 0 t g = ([], g)"
| "checks (Suc n) t g =
     (let (ok, g') = check t g; (oks, g'') = checks n t g' in (ok # oks, g''))"

lemma checks_burst:
  "wf g \<Longrightarrow> asof g = t \<Longrightarrow>
     fst (checks n t g) = replicate (min n (credit g)) True @ replicate (n - credit g) False"
proof (induction n arbitrary: g)
  case 0
  then show ?case by simp
next
  case (Suc n)
  let ?g = "snd (check t g)"
  have "fst (checks (Suc n) t g) = (0 < credit g) # fst (checks n t ?g)"
    using check_now [OF Suc.prems(1)] Suc.prems(2) by (simp add: case_prod_unfold Let_def)
  also have "fst (checks n t ?g) = replicate (min n (credit ?g)) True @ replicate (n - credit ?g) False"
    using Suc.prems by (intro Suc.IH check_wf check_at)
  finally show ?case
    using check_credit [OF Suc.prems(1)] Suc.prems(2) by (cases "credit g") simp_all
qed

end

definition gate_ok :: "'sem request_gate \<Rightarrow> bool" where
  "gate_ok g \<longleftrightarrow> bucket_ok (rate g)"

definition gate_credit :: "'sem request_gate \<Rightarrow> nat" where
  "gate_credit g = nat \<lfloor>tokens (rate g)\<rfloor>"

lemma check_rate_sel [simp]:
  "fst (check_rate now g) = fst (check_bucket now (rate g))"
  "rate (snd (check_rate now g)) = snd (check_bucket now (rate g))"
  "concurrency (snd (check_rate now g)) = concurrency g"
  by (simp_all add: check_rate_def case_prod_unfold Let_def)

interpretation gate: burst_limiter gate_ok "\<lambda>g. last_refill (rate g)" gate_credit check_rate
proof (unfold_locales, goal_cases)
  case (1 g t)
  then show ?case by (simp add: gate_ok_def check_bucket_ok)
next
  case (2 g t)
  then show ?case by simp
next
  case (3 g)
  then show ?case
    by (simp add: gate_ok_def check_bucket_tokens refilled_same_time gate_credit_def)
next
  case (4 g)
  then show ?case
    by (auto simp: gate_ok_def check_bucket_tokens refilled_same_time gate_credit_def nat_diff_distrib)
qed

subsection \<open>Histories of checks\<close>

primrec admissions :: "instant list \<Rightarrow> 'sem request_gate \<Rightarrow> bool list \<times> 'sem request_gate" where
  "admissions [] g = ([], g)"
| "admissions (t # ts) g =
     (let (ok, g') = check_rate t g; (oks, g'') = admissions ts g' in (ok # oks, g''))"

lemma admissions_replicate: "admissions (replicate n t) g = gate.checks n t g"
  by (induction n arbitrary: g) (simp_all add: case_prod_unfold Let_def)

lemma admissions_ok: "gate_ok g \<Longrightarrow> gate_ok (snd (admissions ts g))"
proof (induction ts arbitrary: g)
  case (Cons t ts)
  have "gate_ok (snd (check_rate t g))" using Cons.prems by (rule gate.check_wf)
  from Cons.IH [OF this] show ?case by (simp add: case_prod_unfold Let_def)
qed simp

lemma admissions_burst: "burst (rate (snd (admissions ts g))) = burst (rate g)"
  by (induction ts arbitrary: g) (simp_all add: case_prod_unfold Let_def)

subsection \<open>Properties\<close>

text \<open>
  Whatever the times of the checks, even if the clock were to stand still or step back, the
  bucket never holds a negative number of tokens and never more than its burst, rounding
  included.
\<close>

theorem bucket_within_burst:
  assumes "0 \<le> rps" and "brst \<le> 2 ^ 53"
  shows "let b = rate (snd (admissions ts (new_gate S now mx rps brst)))
    in 0 \<le> tokens b \<and> tokens b \<le> of_nat brst"
proof -
  have "gate_ok (snd (admissions ts (new_gate S now mx rps brst)))"
    using new_gate_ok [OF assms] by (intro admissions_ok) (simp add: gate_ok_def)
  then show ?thesis
    using admissions_burst [of ts "new_gate S now mx rps brst"] assms(2)
    by (auto simp: gate_ok_def bucket_ok_def Let_def f64_rep_nonneg) (simp add: new_gate_def f64_of_nat_exact)
qed

text \<open>
  A fresh gate admits exactly its burst: of any number of requests at the moment it is made,
  the first as many as the burst are admitted and all others are refused.
\<close>

theorem fresh_gate_admits_burst:
  assumes "0 \<le> rps" and "brst \<le> 2 ^ 53"
  shows "fst (admissions (replicate n now) (new_gate S now mx rps brst)) =
    replicate (min n brst) True @ replicate (n - brst) False"
proof -
  have "gate_ok (new_gate S now mx rps brst)"
    using new_gate_ok [OF assms] by (simp add: gate_ok_def)
  moreover have "gate_credit (new_gate S now mx rps brst) = brst"
    using assms(2) by (simp add: gate_credit_def new_gate_def f64_of_nat_exact)
  ultimately show ?thesis
    using gate.checks_burst [of "new_gate S now mx rps brst" now n]
    by (simp add: admissions_replicate) (simp add: new_gate_def)
qed

text \<open>
  C36. The \<open>Retry-After\<close> of one second that a rate-limited client is told is enough: one second
  or more after the last check, a bucket with a burst and a rate of at least one admits, rounding
  included.
\<close>

theorem admitted_after_a_second:
  assumes "gate_ok g" and "1 \<le> burst (rate g)" and "1 \<le> rate_per_second (rate g)"
    and "duration_from_secs 1 \<le> duration_since now (last_refill (rate g))"
  shows "fst (check_rate now g)"
proof -
  let ?b = "rate g" and ?e = "as_secs_f64 (duration_since now (last_refill (rate g)))"
  have ok: "bucket_ok ?b" using assms(1) by (simp add: gate_ok_def)
  have one: "f64_round 1 = 1" using f64_of_nat_exact [of 1] by (simp add: f64_of_nat_def)
  have "1 \<le> ?e" using as_secs_ge [of 1] assms(4) by simp
  then have "1 \<le> ?e * rate_per_second ?b" using mult_mono [of 1 ?e 1 "rate_per_second ?b"] assms(3) by simp
  then have "1 \<le> f64_round (?e * rate_per_second ?b)" using f64_round_mono [of 1] one by simp
  then have "1 \<le> tokens ?b + f64_round (?e * rate_per_second ?b)"
    using ok f64_rep_nonneg [of "tokens ?b"] by (simp add: bucket_ok_def)
  then have "1 \<le> f64_round (tokens ?b + f64_round (?e * rate_per_second ?b))"
    using f64_round_mono [of 1] one by simp
  with assms(2) have "1 \<le> refilled now ?b" by (simp add: refilled_def)
  with check_bucket_tokens(1) [OF ok] show ?thesis by simp
qed

subsection \<open>A counting semaphore\<close>

definition counting_semaphore :: "nat semaphore" where
  "counting_semaphore =
     \<lparr>sem_new = (\<lambda>n. n), sem_try_acquire = (\<lambda>n. if n = 0 then None else Some (n - 1)),
      sem_release = Suc, sem_available = (\<lambda>n. n)\<rparr>"

lemma semaphore_law_counting [simp]: "semaphore_law counting_semaphore"
  by (simp add: semaphore_law_def counting_semaphore_def)

theorem bucket_within_burst_witness:
  "let b = rate (snd (admissions [Instant 5, Instant 3] (new_gate counting_semaphore (Instant 4) 64 20 100)))
   in 0 \<le> tokens b \<and> tokens b \<le> 100"
  using bucket_within_burst [of 20 100 "[Instant 5, Instant 3]" counting_semaphore "Instant 4" 64] by simp

theorem fresh_gate_admits_burst_witness:
  "fst (admissions (replicate 105 (Instant 9)) (new_gate counting_semaphore (Instant 9) 64 20 100)) =
     replicate 100 True @ replicate 5 False"
  using fresh_gate_admits_burst [of 20 100 105 "Instant 9" counting_semaphore 64] by simp

theorem admitted_after_a_second_witness:
  "fst (check_rate (Instant 1000000009) (new_gate counting_semaphore (Instant 9) 64 20 100))"
proof -
  have "gate_ok (new_gate counting_semaphore (Instant 9) 64 20 100)"
    using new_gate_ok [of 20 100 counting_semaphore "Instant 9" 64] by (simp add: gate_ok_def)
  from admitted_after_a_second [OF this, of "Instant 1000000009"] show ?thesis
    by (simp add: new_gate_def f64_of_nat_exact duration_from_secs_def)
qed

end
