(* ===== verification/Api.thy ===== *)
theory Api
  imports Store_Run Gate
begin

text \<open>
  Model of \<open>src/api.rs\<close>: credentials, request validation, the two ACME handlers and the layers
  around them, in the order in which the router stacks them (authentication and admission, then
  the timeout, then the body limit and the JSON extractor, then the handler). The third-party
  code this rests on (\<open>base64\<close>, \<open>subtle\<close>, the extractor and the layers of \<open>axum\<close> and
  \<open>tower_http\<close>, \<open>tokio\<close>'s semaphore) is the record \<open>http_lib\<close>. JSON bodies are kept as the
  values that are serialised. A header map is an association list under lower-case names.
\<close>

subsection \<open>Data\<close>

definition MAX_TXT_VALUE_LEN :: nat where "MAX_TXT_VALUE_LEN = 255"
definition MAX_REQUEST_BODY_LEN :: nat where "MAX_REQUEST_BODY_LEN = 1024"
definition REQUEST_TIMEOUT :: duration where "REQUEST_TIMEOUT = duration_from_secs 10"
definition MAX_CONCURRENT_REQUESTS :: nat where "MAX_CONCURRENT_REQUESTS = 64"
definition REQUEST_RATE_PER_SECOND :: rat where "REQUEST_RATE_PER_SECOND = 20"
definition REQUEST_RATE_BURST :: nat where "REQUEST_RATE_BURST = 100"

record status_response =
  status_text :: string
  status_domain :: string

record error_response =
  error_text :: string

record present_request =
  fqdn :: string
  present_value :: string

datatype http_body =
  JsonStatus status_response | JsonError error_response | JsonEmpty | OtherBody bytes

record http_response =
  status_code :: nat
  response_headers :: "(string \<times> string) list"
  response_body :: http_body

record 'body http_request =
  headers :: "(string \<times> bytes) list"
  request_body :: 'body

record ('sem, 'body) http_lib =
  base64_decode :: "bytes \<Rightarrow> bytes option"
  ct_eq :: "bytes \<Rightarrow> bytes \<Rightarrow> bool"
  json_present :: "nat \<Rightarrow> 'body http_request \<Rightarrow> http_response + present_request"
    \<comment> \<open>\<open>Json<PresentRequest>\<close> behind a body limit: it reads the content type and the body\<close>
  timeout_response :: "nat \<Rightarrow> http_response"   \<comment> \<open>\<open>TimeoutLayer::with_status_code\<close>\<close>
  sem_lib :: "'sem semaphore"

record ('nm, 'sem) api_state =
  api_config :: config
  api_acme :: "'nm acme_records"
  api_gate :: "'sem request_gate"

subsection \<open>Responses\<close>

definition make_error :: "nat \<Rightarrow> string \<Rightarrow> nat \<times> error_response" where
  "make_error status msg = (status, \<lparr>error_text = msg\<rparr>)"

definition into_response :: "nat \<times> error_response \<Rightarrow> http_response" where
  "into_response r = \<lparr>status_code = fst r, response_headers = [], response_body = JsonError (snd r)\<rparr>"

definition bad_request :: "string \<Rightarrow> nat \<times> error_response" where
  "bad_request msg = make_error 400 msg"

definition service_unavailable :: "string \<Rightarrow> nat \<times> error_response" where
  "service_unavailable msg = make_error 503 msg"

definition unauthorized :: "string \<Rightarrow> http_response" where
  "unauthorized msg =
     (into_response (make_error 401 msg))
       \<lparr>response_headers := [(''www-authenticate'',
          ''Basic realm='' @ [CHR 0x22] @ ''safexip'' @ [CHR 0x22] @ '', charset='' @ [CHR 0x22] @
          ''UTF-8'' @ [CHR 0x22])]\<rparr>"

definition rate_limited :: http_response where
  "rate_limited =
     (into_response (make_error 429 ''request rate limit reached''))
       \<lparr>response_headers := [(''retry-after'', ''1'')]\<rparr>"

subsection \<open>Credentials and validation\<close>

definition check_basic_auth ::
    "('sem, 'body) http_lib \<Rightarrow> (string \<times> bytes) list \<Rightarrow> config \<Rightarrow> string + unit" where
  "check_basic_auth L hs c =
     (case map_of hs ''authorization'' of
        None \<Rightarrow> Inl ''missing Basic auth''
      | Some raw \<Rightarrow>
          if 32 \<notin> set raw then Inl ''malformed Basic auth''
          else let scheme = takeWhile (\<lambda>byte. byte \<noteq> 32) raw;
                   encoded = dropWhile (\<lambda>byte. byte \<noteq> 32) raw
               in if \<not> eq_ignore_ascii_case (map char_of_byte scheme) ''Basic''
                    then Inl ''missing Basic auth''
                  else let encoded = dropWhile (\<lambda>byte. byte = 32) (drop 1 encoded)
                       in if encoded = [] \<or> 32 \<in> set encoded then Inl ''malformed Basic auth''
                          else case Option.bind (base64_decode L encoded) from_utf8 of
                                 None \<Rightarrow> Inl ''malformed Basic auth''
                               | Some decoded \<Rightarrow>
                                   (case split_once CHR '':'' decoded of
                                      None \<Rightarrow> Inl ''malformed Basic auth''
                                    | Some (user, pass) \<Rightarrow>
                                        if ct_eq L (as_bytes pass) (as_bytes (api_key c)) then Inr ()
                                        else Inl ''invalid credentials''))"

definition validate_request :: "present_request \<Rightarrow> config \<Rightarrow> (nat \<times> error_response) + string" where
  "validate_request body c =
     (let name = to_ascii_lowercase (trim_end_matches CHR ''.'' (fqdn body))
      in if name \<noteq> acme_name c
           then Inl (bad_request ''fqdn is not this zone's ACME challenge name'')
         else if present_value body = [] then Inl (bad_request ''token must not be empty'')
         else if length (present_value body) > MAX_TXT_VALUE_LEN
           then Inl (bad_request ''token exceeds the DNS TXT string limit'')
         else Inr name)"

subsection \<open>Handlers\<close>

definition health :: "('nm, 'sem) api_state \<Rightarrow> status_response" where
  "health s = \<lparr>status_text = ''ok'', status_domain = domain (api_config s)\<rparr>"

fun add_error_response :: "add_error \<Rightarrow> nat \<times> error_response" where
  "add_error_response TokenLimitReached = service_unavailable ''active token limit reached''"
| "add_error_response DnsWireCapacityReached =
     service_unavailable ''active TXT records have reached DNS TCP capacity''"

definition present :: "'nm hickory \<Rightarrow> (zone_records \<Rightarrow> zone_records) \<Rightarrow> instant \<Rightarrow> instant \<Rightarrow>
    present_request \<Rightarrow> ('nm, 'sem) api_state \<Rightarrow>
    (((nat \<times> error_response) + unit) \<times> ('nm, 'sem) api_state) option" where
  "present H ho now later body s =
     (case validate_request body (api_config s) of
        Inl e \<Rightarrow> Some (Inl e, s)
      | Inr name \<Rightarrow> do {
          (r, ar) \<leftarrow> add H ho now later name (present_value body) (api_acme s);
          Some (case r of Inl error \<Rightarrow> Inl (add_error_response error) | Inr _ \<Rightarrow> Inr (),
                s\<lparr>api_acme := ar\<rparr>)
        })"

definition cleanup :: "instant \<Rightarrow> present_request \<Rightarrow> ('nm, 'sem) api_state \<Rightarrow>
    ((nat \<times> error_response) + unit) \<times> ('nm, 'sem) api_state" where
  "cleanup now body s =
     (case validate_request body (api_config s) of
        Inl e \<Rightarrow> (Inl e, s)
      | Inr name \<Rightarrow> (Inr (), s\<lparr>api_acme := remove now name (present_value body) (api_acme s)\<rparr>))"

definition json_result :: "(nat \<times> error_response) + unit \<Rightarrow> http_response" where
  "json_result r =
     (case r of
        Inl e \<Rightarrow> into_response e
      | Inr _ \<Rightarrow> \<lparr>status_code = 200, response_headers = [], response_body = JsonEmpty\<rparr>)"

subsection \<open>The layers\<close>

text \<open>
  Authentication and admission; \<open>next\<close> is what the layer wraps, run with one permit taken.
\<close>

definition authorize_and_admit :: "('sem, 'body) http_lib \<Rightarrow> instant \<Rightarrow>
    ('body http_request \<Rightarrow> ('nm, 'sem) api_state \<Rightarrow> (http_response \<times> ('nm, 'sem) api_state) option) \<Rightarrow>
    'body http_request \<Rightarrow> ('nm, 'sem) api_state \<Rightarrow> (http_response \<times> ('nm, 'sem) api_state) option" where
  "authorize_and_admit L now nxt req s =
     (case check_basic_auth L (headers req) (api_config s) of
        Inl message \<Rightarrow> Some (unauthorized message, s)
      | Inr _ \<Rightarrow>
          let (ok, g) = check_rate now (api_gate s); s = s\<lparr>api_gate := g\<rparr>
          in if \<not> ok then Some (rate_limited, s)
             else case try_acquire (sem_lib L) (api_gate s) of
                    None \<Rightarrow> Some (into_response (service_unavailable ''concurrent request limit reached''), s)
                  | Some g \<Rightarrow> do {
                      (r, s) \<leftarrow> nxt req (s\<lparr>api_gate := g\<rparr>);
                      Some (r, s\<lparr>api_gate := release_permit (sem_lib L) (api_gate s)\<rparr>)
                    })"

text \<open>
  What surrounds one request: the clock reading of the rate check and the two of the store, and
  whether the inner layers finish within the timeout. A handler is only ever suspended before it
  takes the store's lock, so a request cut off by the timeout has not reached the store.
\<close>

record arrival =
  at_gate :: instant
  at_store :: instant
  at_deadline :: instant
  in_time :: bool

datatype route = Health | Present | Cleanup

definition inner_layers :: "('sem, 'body) http_lib \<Rightarrow> bool \<Rightarrow>
    (present_request \<Rightarrow> ('nm, 'sem) api_state \<Rightarrow> (((nat \<times> error_response) + unit) \<times> ('nm, 'sem) api_state) option) \<Rightarrow>
    'body http_request \<Rightarrow> ('nm, 'sem) api_state \<Rightarrow> (http_response \<times> ('nm, 'sem) api_state) option" where
  "inner_layers L timely handler req s =
     (if \<not> timely then Some (timeout_response L 408, s)
      else case json_present L MAX_REQUEST_BODY_LEN req of
             Inl rejection \<Rightarrow> Some (rejection, s)
           | Inr body \<Rightarrow> do { (r, s) \<leftarrow> handler body s; Some (json_result r, s) })"

definition serve :: "'nm hickory \<Rightarrow> (zone_records \<Rightarrow> zone_records) \<Rightarrow> ('sem, 'body) http_lib \<Rightarrow>
    arrival \<Rightarrow> route \<Rightarrow> 'body http_request \<Rightarrow> ('nm, 'sem) api_state \<Rightarrow>
    (http_response \<times> ('nm, 'sem) api_state) option" where
  "serve H ho L a rt req s =
     (case rt of
        Health \<Rightarrow>
          Some (\<lparr>status_code = 200, response_headers = [], response_body = JsonStatus (health s)\<rparr>, s)
      | Present \<Rightarrow>
          authorize_and_admit L (at_gate a)
            (inner_layers L (in_time a) (present H ho (at_store a) (at_deadline a))) req s
      | Cleanup \<Rightarrow>
          authorize_and_admit L (at_gate a)
            (inner_layers L (in_time a) (\<lambda>body s. Some (cleanup (at_store a) body s))) req s)"

definition router_with_limits :: "'sem semaphore \<Rightarrow> instant \<Rightarrow> config \<Rightarrow> 'nm acme_records \<Rightarrow>
    nat \<Rightarrow> rat \<Rightarrow> nat \<Rightarrow> ('nm, 'sem) api_state" where
  "router_with_limits S now c ar max_concurrent rps rate_burst =
     \<lparr>api_config = c, api_acme = ar, api_gate = new_gate S now max_concurrent rps rate_burst\<rparr>"

definition saturating_mul :: "nat \<Rightarrow> nat \<Rightarrow> nat" where
  "saturating_mul a b = min (a * b) USIZE_MAX"

definition router :: "'sem semaphore \<Rightarrow> instant \<Rightarrow> config \<Rightarrow> 'nm acme_records \<Rightarrow> ('nm, 'sem) api_state" where
  "router S now c ar =
     (let rate_burst = max REQUEST_RATE_BURST (saturating_mul (max_tokens c) 2)
      in router_with_limits S now c ar MAX_CONCURRENT_REQUESTS REQUEST_RATE_PER_SECOND rate_burst)"

end
