(* ===== verification/Api_Spec.thy ===== *)
theory Api_Spec
  imports Api
begin

text \<open>
  What the HTTP API promises: who gets in, what a request without credentials can reach (nothing),
  which requests are valid, how the store's errors become status codes, that no request makes the
  server panic or leak a permit, and the limits of the gate.
\<close>

subsection \<open>Laws of the libraries\<close>

definition ct_eq_law :: "('sem, 'body) http_lib \<Rightarrow> bool" where
  "ct_eq_law L \<longleftrightarrow> (\<forall>a b. ct_eq L a b \<longleftrightarrow> a = b)"

definition api_ok :: "'nm hickory \<Rightarrow> ('nm, 'sem) api_state \<Rightarrow> bool" where
  "api_ok H s \<longleftrightarrow> store_wf (api_acme s) \<and> soa_ok H (cap_zone (wire_capacity (api_acme s))) \<and>
     gate_ok (api_gate s)"

definition permits :: "'sem semaphore \<Rightarrow> 'sem request_gate \<Rightarrow> nat" where
  "permits S g = sem_available S (concurrency g)"

lemma permits_release: "semaphore_law S \<Longrightarrow> permits S (release_permit S g) = Suc (permits S g)"
  by (simp add: permits_def release_permit_def semaphore_law_def)

lemma try_acquire_None: "semaphore_law S \<Longrightarrow> try_acquire S g = None \<longleftrightarrow> permits S g = 0"
  by (auto simp: permits_def try_acquire_def semaphore_law_def split: option.splits)

lemma try_acquire_Some:
  "semaphore_law S \<Longrightarrow> try_acquire S g = Some g' \<Longrightarrow> permits S g = Suc (permits S g') \<and> rate g' = rate g"
  by (auto simp: permits_def try_acquire_def semaphore_law_def split: option.splits)

lemma check_rate_permits [simp]: "permits S (snd (check_rate now g)) = permits S g"
  by (simp add: permits_def)

subsection \<open>Credentials\<close>

lemma takeWhile_dropWhile_split:
  assumes "x \<in> set xs"
  shows "xs = takeWhile (\<lambda>y. y \<noteq> x) xs @ x # drop 1 (dropWhile (\<lambda>y. y \<noteq> x) xs)"
  using assms by (induction xs) auto

lemma dropWhile_eq_replicate: "\<exists>k. xs = replicate k x @ dropWhile (\<lambda>y. y = x) xs"
proof (induction xs)
  case (Cons y ys)
  then obtain k where k: "ys = replicate k x @ dropWhile (\<lambda>y. y = x) ys" by blast
  show ?case
  proof (cases "y = x")
    case True
    with k have "y # ys = replicate (Suc k) x @ dropWhile (\<lambda>y. y = x) (y # ys)" by simp
    then show ?thesis by blast
  qed (auto intro: exI [of _ 0])
qed simp

lemma dropWhile_replicate: "t = [] \<or> hd t \<noteq> x \<Longrightarrow> dropWhile (\<lambda>y. y = x) (replicate k x @ t) = t"
  by (induction k; cases t) auto

text \<open>The header a client has to send, as a relation between its bytes and the API key.\<close>

definition basic_header :: "('sem, 'body) http_lib \<Rightarrow> config \<Rightarrow> bytes \<Rightarrow> bool" where
  "basic_header L c raw \<longleftrightarrow>
     (\<exists>scheme k tok user. raw = as_bytes scheme @ replicate (Suc k) 32 @ tok \<and>
        eq_ignore_ascii_case scheme ''Basic'' \<and> tok \<noteq> [] \<and> 32 \<notin> set tok \<and>
        base64_decode L tok = Some (as_bytes (user @ '':'' @ api_key c)) \<and>
        valid_utf8 (as_bytes (user @ '':'' @ api_key c)) \<and> CHR '':'' \<notin> set user)"

lemma no_space_basic:
  assumes "eq_ignore_ascii_case scheme ''Basic''"
  shows "32 \<notin> set (as_bytes scheme)"
proof
  assume "32 \<in> set (as_bytes scheme)"
  then obtain x where x: "x \<in> set scheme" and w: "32 = (word_of_nat (of_char x) :: u8)"
    by (auto simp: as_bytes_def)
  have "unat (32 :: u8) = of_char x" unfolding w by simp
  then have "(of_char x :: nat) = of_char CHR '' ''" by simp
  then have sp: "x = CHR '' ''" by (simp only: of_char_eq_iff)
  have "ascii_lower x \<in> set (to_ascii_lowercase ''Basic'')"
    using assms x by (metis eq_ignore_ascii_case_def image_eqI set_map to_ascii_lowercase_def)
  then show False by (simp add: sp to_ascii_lowercase_def ascii_lower_def char_of_eq_iff
        eq_commute [of "CHR '' ''"])
qed

lemma header_parts:
  assumes "32 \<in> set raw"
  obtains sch k tok where "raw = sch @ 32 # replicate k 32 @ tok" "32 \<notin> set sch" "tok = [] \<or> hd tok \<noteq> (32 :: u8)"
proof -
  define sch where "sch = takeWhile (\<lambda>y. y \<noteq> 32) raw"
  define rest where "rest = drop 1 (dropWhile (\<lambda>y. y \<noteq> 32) raw)"
  define tok where "tok = dropWhile (\<lambda>y. y = 32) rest"
  have raw: "raw = sch @ 32 # rest"
    unfolding sch_def rest_def by (rule takeWhile_dropWhile_split [OF assms])
  obtain k where "rest = replicate k 32 @ tok"
    using dropWhile_eq_replicate [of rest 32, folded tok_def] by (elim exE)
  with raw have "raw = sch @ 32 # replicate k 32 @ tok" by simp
  moreover have "32 \<notin> set sch" by (auto simp: sch_def dest: set_takeWhileD)
  moreover have "tok = [] \<or> hd tok \<noteq> 32"
    using hd_dropWhile [of "\<lambda>y. y = 32" rest] by (auto simp: tok_def)
  ultimately show thesis by (rule that)
qed

lemma check_basic_auth_parts:
  assumes "map_of hs ''authorization'' = Some (sch @ 32 # replicate k 32 @ tok)" and "32 \<notin> set sch"
    and "tok = [] \<or> hd tok \<noteq> 32"
  shows "check_basic_auth L hs c =
    (if \<not> eq_ignore_ascii_case (map char_of_byte sch) ''Basic'' then Inl ''missing Basic auth''
     else if tok = [] \<or> 32 \<in> set tok then Inl ''malformed Basic auth''
     else case Option.bind (base64_decode L tok) from_utf8 of
            None \<Rightarrow> Inl ''malformed Basic auth''
          | Some decoded \<Rightarrow>
              (case split_once CHR '':'' decoded of
                 None \<Rightarrow> Inl ''malformed Basic auth''
               | Some (user, pass) \<Rightarrow>
                   if ct_eq L (as_bytes pass) (as_bytes (api_key c)) then Inr ()
                   else Inl ''invalid credentials''))"
proof -
  have "takeWhile (\<lambda>b. b \<noteq> 32) (sch @ 32 # replicate k 32 @ tok) = sch"
    and "dropWhile (\<lambda>b. b \<noteq> 32) (sch @ 32 # replicate k 32 @ tok) = 32 # replicate k 32 @ tok"
    using assms(2) by (induction sch) auto
  then show ?thesis
    using assms(1) dropWhile_replicate [OF assms(3), of k] by (simp add: check_basic_auth_def Let_def)
qed

lemma check_basic_auth_eq:
  assumes "ct_eq_law L" and h: "map_of hs ''authorization'' = Some raw"
  shows "check_basic_auth L hs c = Inr () \<longleftrightarrow> basic_header L c raw"
proof
  assume ok: "check_basic_auth L hs c = Inr ()"
  then have "32 \<in> set raw" using h by (auto simp: check_basic_auth_def split: if_splits)
  then obtain sch k tok where r: "raw = sch @ 32 # replicate k 32 @ tok" "32 \<notin> set sch" "tok = [] \<or> hd tok \<noteq> 32"
    by (rule header_parts)
  from ok check_basic_auth_parts [OF h [unfolded r(1)] r(2,3), of L c] assms(1) obtain decoded user where
    "eq_ignore_ascii_case (map char_of_byte sch) ''Basic''" "tok \<noteq> []" "32 \<notin> set tok"
    "Option.bind (base64_decode L tok) from_utf8 = Some decoded"
    "split_once CHR '':'' decoded = Some (user, api_key c)"
    by (auto simp: ct_eq_law_def split: if_splits option.splits prod.splits)
  then show "basic_header L c raw"
    unfolding basic_header_def r(1)
    by (intro exI [of _ "map char_of_byte sch"] exI [of _ k] exI [of _ tok] exI [of _ user])
      (auto simp: bind_eq_Some_conv from_utf8_eq_Some split_once_eq_Some)
next
  assume "basic_header L c raw"
  then obtain scheme k tok user where r: "raw = as_bytes scheme @ replicate (Suc k) 32 @ tok"
      and b: "eq_ignore_ascii_case scheme ''Basic''" "tok \<noteq> []" "32 \<notin> set tok"
        "base64_decode L tok = Some (as_bytes (user @ '':'' @ api_key c))"
        "valid_utf8 (as_bytes (user @ '':'' @ api_key c))" "CHR '':'' \<notin> set user"
    unfolding basic_header_def by blast
  have raw: "raw = as_bytes scheme @ 32 # replicate k 32 @ tok" using r by simp
  have tok: "tok = [] \<or> hd tok \<noteq> 32" using b(2,3) hd_in_set by metis
  have "split_once CHR '':'' (user @ '':'' @ api_key c) = Some (user, api_key c)"
    using b(6) by (simp add: split_once_eq_Some)
  moreover have "from_utf8 (as_bytes (user @ '':'' @ api_key c)) = Some (user @ '':'' @ api_key c)"
    using b(5) by (simp add: from_utf8_eq_Some)
  ultimately show "check_basic_auth L hs c = Inr ()"
    using check_basic_auth_parts [OF h [unfolded raw] no_space_basic [OF b(1)] tok, of L c] b assms(1)
    by (simp add: ct_eq_law_def)
qed

subsection \<open>Validation\<close>

lemma validate_request_eq_Inr:
  "validate_request b c = Inr n \<longleftrightarrow>
     n = acme_name c \<and> to_lowercase (trim_end_matches CHR ''.'' (fqdn b)) = acme_name c \<and>
     1 \<le> length (present_value b) \<and> length (present_value b) \<le> 255"
  by (auto simp: validate_request_def Let_def to_ascii_lowercase_eq MAX_TXT_VALUE_LEN_def Suc_le_eq)

lemma validate_request_Inl: "validate_request b c = Inl e \<Longrightarrow> fst e = 400"
  by (auto simp: validate_request_def Let_def bad_request_def make_error_def split: if_splits)

subsection \<open>The handlers\<close>

lemma present_total [panic_free]:
  assumes "api_ok H s"
  shows "\<exists>r s'. present H ho now later b s = Some (r, s') \<and> api_ok H s' \<and>
    api_gate s' = api_gate s \<and> api_config s' = api_config s"
proof (cases "validate_request b (api_config s)")
  case (Inl e)
  with assms show ?thesis by (simp add: present_def)
next
  case (Inr name)
  have wf: "store_wf (api_acme s)" and soa: "soa_ok H (cap_zone (wire_capacity (api_acme s)))"
    using assms by (simp_all add: api_ok_def)
  obtain r ar where a: "add H ho now later name (present_value b) (api_acme s) = Some (r, ar)"
    using add_total [OF soa] by fastforce
  with Inr assms add_wf [OF a wf] add_frame [OF a] show ?thesis by (simp add: present_def api_ok_def)
qed

lemma cleanup_ok:
  assumes "api_ok H s"
  shows "api_ok H (snd (cleanup now b s)) \<and> api_gate (snd (cleanup now b s)) = api_gate s \<and>
    api_config (snd (cleanup now b s)) = api_config s"
  using assms by (auto simp: cleanup_def api_ok_def remove_view split: sum.splits)

text \<open>What the layers ask of a handler, and what they then keep.\<close>

definition good_handler :: "'nm hickory \<Rightarrow>
    ('a \<Rightarrow> ('nm, 'sem) api_state \<Rightarrow> ('r \<times> ('nm, 'sem) api_state) option) \<Rightarrow> bool" where
  "good_handler H f \<longleftrightarrow> (\<forall>x s. api_ok H s \<longrightarrow>
     (\<exists>r s'. f x s = Some (r, s') \<and> api_ok H s' \<and> api_gate s' = api_gate s \<and>
        api_config s' = api_config s))"

lemma good_handlerI:
  "(\<And>x s. api_ok H s \<Longrightarrow> \<exists>r s'. f x s = Some (r, s') \<and> api_ok H s' \<and> api_gate s' = api_gate s \<and>
     api_config s' = api_config s) \<Longrightarrow> good_handler H f"
  by (simp add: good_handler_def)

lemma good_handlerE:
  assumes "good_handler H f" and "api_ok H s"
  obtains r s' where "f x s = Some (r, s')" "api_ok H s'" "api_gate s' = api_gate s"
    "api_config s' = api_config s"
  using assms unfolding good_handler_def by blast

lemma good_present: "good_handler H (present H ho now later)"
  by (intro good_handlerI present_total)

lemma good_cleanup: "good_handler H (\<lambda>b s. Some (cleanup now b s))"
proof (rule good_handlerI)
  fix b and s :: "('a, 'b) api_state"
  assume "api_ok H s"
  from cleanup_ok [OF this, of now b] show "\<exists>r s'. Some (cleanup now b s) = Some (r, s') \<and>
      api_ok H s' \<and> api_gate s' = api_gate s \<and> api_config s' = api_config s"
    by (cases "cleanup now b s") simp
qed

lemma good_inner_layers:
  assumes "good_handler H f"
  shows "good_handler H (inner_layers L timely f)"
proof (rule good_handlerI)
  fix req and s :: "('a, 'b) api_state"
  assume ok: "api_ok H s"
  show "\<exists>r s'. inner_layers L timely f req s = Some (r, s') \<and> api_ok H s' \<and> api_gate s' = api_gate s \<and>
      api_config s' = api_config s"
  proof (cases "json_present L MAX_REQUEST_BODY_LEN req")
    case (Inl rej)
    with ok show ?thesis by (simp add: inner_layers_def)
  next
    case (Inr b)
    show ?thesis by (rule good_handlerE [OF assms ok, of b]) (use Inr ok in \<open>simp add: inner_layers_def\<close>)
  qed
qed

lemma authorize_total:
  assumes "semaphore_law (sem_lib L)" and "api_ok H s" and "good_handler H f"
  shows "\<exists>r s'. authorize_and_admit L now f req s = Some (r, s') \<and> api_ok H s' \<and>
    permits (sem_lib L) (api_gate s') = permits (sem_lib L) (api_gate s) \<and> api_config s' = api_config s"
proof (cases "check_basic_auth L (headers req) (api_config s)")
  case (Inl m)
  with assms show ?thesis by (simp add: authorize_and_admit_def)
next
  case (Inr u)
  let ?g = "snd (check_rate now (api_gate s))"
  have gate: "gate_ok ?g" using assms(2) by (simp add: api_ok_def gate.check_wf)
  show ?thesis
  proof (cases "fst (check_rate now (api_gate s)) \<and> permits (sem_lib L) ?g \<noteq> 0")
    case False
    then show ?thesis
      using Inr assms(2) gate try_acquire_None [OF assms(1), of ?g]
      by (auto simp: authorize_and_admit_def case_prod_unfold Let_def api_ok_def)
  next
    case True
    then obtain g' where g': "try_acquire (sem_lib L) ?g = Some g'"
      using try_acquire_None [OF assms(1), of ?g] by auto
    have p: "permits (sem_lib L) ?g = Suc (permits (sem_lib L) g')" "rate g' = rate ?g"
      using try_acquire_Some [OF assms(1) g'] by simp_all
    then have "api_ok H (s\<lparr>api_gate := g'\<rparr>)" using assms(2) gate by (simp add: api_ok_def gate_ok_def)
    then obtain r s' where "f req (s\<lparr>api_gate := g'\<rparr>) = Some (r, s')" "api_ok H s'" "api_gate s' = g'"
        "api_config s' = api_config s"
      using good_handlerE [OF assms(3), of "s\<lparr>api_gate := g'\<rparr>" req] by auto
    then show ?thesis
      using Inr True g' p permits_release [OF assms(1), of g']
      by (auto simp: authorize_and_admit_def case_prod_unfold Let_def api_ok_def gate_ok_def
          release_permit_def)
  qed
qed

subsection \<open>Properties\<close>

text \<open>
  C17. Credentials, soundly and completely: a request is let in exactly when it has an
  Authorization header that is the word Basic in any case, one or more spaces and a base64 text
  without spaces that decodes to valid UTF-8 with a colon, behind the first of which stands
  exactly the API key. The user name is free.
\<close>

theorem auth_exact:
  assumes "ct_eq_law L"
  shows "check_basic_auth L hs c = Inr () \<longleftrightarrow>
    (\<exists>raw. map_of hs ''authorization'' = Some raw \<and> basic_header L c raw)"
proof (cases "map_of hs ''authorization''")
  case None
  then show ?thesis by (simp add: check_basic_auth_def)
next
  case (Some raw)
  with check_basic_auth_eq [OF assms Some] show ?thesis by simp
qed

text \<open>
  C18. A request to either ACME endpoint whose credentials are not accepted is answered 401 with a
  Basic challenge, whatever its body holds and however the clock stands, and leaves the whole
  state as it was: the records, the token bucket and the permits.
\<close>

theorem unauthorized_reaches_nothing:
  assumes "check_basic_auth L (headers req) (api_config s) = Inl message" and "rt \<noteq> Health"
  shows "serve H ho L a rt req s = Some (unauthorized message, s) \<and>
    status_code (unauthorized message) = 401 \<and>
    ''www-authenticate'' \<in> fst ` set (response_headers (unauthorized message))"
  using assms
  by (cases rt) (simp_all add: serve_def authorize_and_admit_def unauthorized_def into_response_def make_error_def)

text \<open>
  A request is valid exactly when its name, without trailing dots and in lower case, is the
  zone's challenge name, and its token has 1 to 255 bytes, the length of one TXT string; the
  handlers then use the challenge name itself. Everything else is a bad request.
\<close>

theorem validate_request_exact:
  "case validate_request b c of
     Inr n \<Rightarrow> n = acme_name c \<and> to_ascii_lowercase (trim_end_matches CHR ''.'' (fqdn b)) = acme_name c \<and>
       length (present_value b) \<in> {1..255}
   | Inl e \<Rightarrow> fst e = 400 \<and>
       \<not> (to_ascii_lowercase (trim_end_matches CHR ''.'' (fqdn b)) = acme_name c \<and>
          length (present_value b) \<in> {1..255})"
proof (cases "validate_request b c")
  case (Inl e)
  then have "validate_request b c \<noteq> Inr (acme_name c)" by simp
  with Inl show ?thesis
    unfolding validate_request_eq_Inr by (auto simp: validate_request_Inl to_ascii_lowercase_eq)
next
  case (Inr n)
  then show ?thesis using validate_request_eq_Inr [of b c n] by (simp add: to_ascii_lowercase_eq)
qed

text \<open>
  No request makes the server panic, break the store or the bucket, or keep a permit: from a
  well-formed state every request to every endpoint gets a response, in a well-formed state with
  the same configuration and as many permits as before.
\<close>

theorem every_request_answered:
  assumes "semaphore_law (sem_lib L)" and "api_ok H s"
  shows "\<exists>r s'. serve H ho L a rt req s = Some (r, s') \<and> api_ok H s' \<and>
    permits (sem_lib L) (api_gate s') = permits (sem_lib L) (api_gate s) \<and> api_config s' = api_config s"
proof (cases rt)
  case Health
  with assms show ?thesis by (simp add: serve_def)
next
  case Present
  then show ?thesis
    using authorize_total [OF assms good_inner_layers [OF good_present]] by (simp add: serve_def)
next
  case Cleanup
  then show ?thesis
    using authorize_total [OF assms good_inner_layers [OF good_cleanup]] by (simp add: serve_def)
qed

lemma authorize_Some:
  assumes "authorize_and_admit L now f req s = Some (r, s')" and "api_acme s' \<noteq> api_acme s"
  obtains g' t where "check_basic_auth L (headers req) (api_config s) = Inr ()"
    "try_acquire (sem_lib L) (snd (check_rate now (api_gate s))) = Some g'"
    "f req (s\<lparr>api_gate := g'\<rparr>) = Some (r, t)" "api_acme s' = api_acme t"
proof (cases "check_basic_auth L (headers req) (api_config s)")
  case (Inl m)
  with assms show thesis by (simp add: authorize_and_admit_def)
next
  case (Inr u)
  with assms that show thesis
    by (auto simp: authorize_and_admit_def case_prod_unfold Let_def bind_eq_Some_conv
        split: if_splits option.splits)
qed

lemma inner_layers_Some:
  assumes "inner_layers L timely f req s = Some (r, t)" and "api_acme t \<noteq> api_acme s"
  obtains b x where "timely" "json_present L 1024 req = Inr b" "f b s = Some (x, t)"
    "r = json_result x"
  using assms
  by (auto simp: inner_layers_def bind_eq_Some_conv MAX_REQUEST_BODY_LEN_def split: if_splits sum.splits)

text \<open>
  The records change only for those who may change them: if a request leaves other records
  than it found, it went to one of the two ACME endpoints with accepted credentials, was read
  within the size limit and in time, and was valid.
\<close>

theorem records_change_needs_credentials:
  assumes "serve H ho L a rt req s = Some (r, s')" and "api_acme s' \<noteq> api_acme s"
  shows "rt \<noteq> Health \<and> in_time a \<and> check_basic_auth L (headers req) (api_config s) = Inr () \<and>
    (\<exists>b. json_present L 1024 req = Inr b \<and>
       validate_request b (api_config s) = Inr (acme_name (api_config s)))"
proof -
  have valid: "is_ok (validate_request b c) \<Longrightarrow> validate_request b c = Inr (acme_name c)" for b c
    using validate_request_eq_Inr by (fastforce simp: is_ok_iff)
  show ?thesis
  proof (cases rt)
    case Health
    with assms show ?thesis by (simp add: serve_def)
  next
    case Present
    with assms(1) have "authorize_and_admit L (at_gate a)
        (inner_layers L (in_time a) (present H ho (at_store a) (at_deadline a))) req s = Some (r, s')"
      by (simp add: serve_def)
    then obtain g t where g: "check_basic_auth L (headers req) (api_config s) = Inr ()"
        and t: "inner_layers L (in_time a) (present H ho (at_store a) (at_deadline a)) req (s\<lparr>api_gate := g\<rparr>) = Some (r, t)"
          "api_acme s' = api_acme t"
      using assms(2) by (rule authorize_Some)
    obtain b x where "in_time a" "json_present L 1024 req = Inr b"
        and p: "present H ho (at_store a) (at_deadline a) b (s\<lparr>api_gate := g\<rparr>) = Some (x, t)"
      by (rule inner_layers_Some [OF t(1)]) (use assms(2) t(2) in auto)
    moreover have "is_ok (validate_request b (api_config s))"
      using p t(2) assms(2) by (cases "validate_request b (api_config s)") (auto simp: present_def)
    ultimately show ?thesis using Present g valid by auto
  next
    case Cleanup
    with assms(1) have "authorize_and_admit L (at_gate a)
        (inner_layers L (in_time a) (\<lambda>b s. Some (cleanup (at_store a) b s))) req s = Some (r, s')"
      by (simp add: serve_def)
    then obtain g t where g: "check_basic_auth L (headers req) (api_config s) = Inr ()"
        and t: "inner_layers L (in_time a) (\<lambda>b s. Some (cleanup (at_store a) b s)) req (s\<lparr>api_gate := g\<rparr>) = Some (r, t)"
          "api_acme s' = api_acme t"
      using assms(2) by (rule authorize_Some)
    obtain b x where "in_time a" "json_present L 1024 req = Inr b"
        and p: "Some (cleanup (at_store a) b (s\<lparr>api_gate := g\<rparr>)) = Some (x, t)"
      by (rule inner_layers_Some [OF t(1)]) (use assms(2) t(2) in auto)
    moreover have "is_ok (validate_request b (api_config s))"
      using p t(2) assms(2) by (cases "validate_request b (api_config s)") (auto simp: cleanup_def)
    ultimately show ?thesis using Cleanup g valid by auto
  qed
qed

lemma serve_present_admitted:
  assumes "semaphore_law (sem_lib L)" and "check_basic_auth L (headers req) (api_config s) = Inr ()"
    and "fst (check_rate (at_gate a) (api_gate s))" and "0 < permits (sem_lib L) (api_gate s)"
    and "in_time a" and "json_present L 1024 req = Inr b"
    and "validate_request b (api_config s) = Inr n"
    and "add H ho (at_store a) (at_deadline a) n (present_value b) (api_acme s) = Some (res, ar)"
  obtains s' where "serve H ho L a Present req s =
      Some (json_result (case res of Inl e \<Rightarrow> Inl (add_error_response e) | Inr u \<Rightarrow> Inr ()), s')"
    "api_acme s' = ar"
proof -
  obtain g' where "try_acquire (sem_lib L) (snd (check_rate (at_gate a) (api_gate s))) = Some g'"
    using try_acquire_None [OF assms(1), of "snd (check_rate (at_gate a) (api_gate s))"] assms(4) by auto
  with assms show thesis
    by (intro that [of "s\<lparr>api_gate := release_permit (sem_lib L) g', api_acme := ar\<rparr>"])
      (simp_all add: serve_def authorize_and_admit_def case_prod_unfold Let_def inner_layers_def
        MAX_REQUEST_BODY_LEN_def present_def)
qed

lemma serve_cleanup_admitted:
  assumes "semaphore_law (sem_lib L)" and "check_basic_auth L (headers req) (api_config s) = Inr ()"
    and "fst (check_rate (at_gate a) (api_gate s))" and "0 < permits (sem_lib L) (api_gate s)"
    and "in_time a" and "json_present L 1024 req = Inr b"
    and "validate_request b (api_config s) = Inr n"
  obtains s' where "serve H ho L a Cleanup req s = Some (json_result (Inr ()), s')"
    "api_acme s' = remove (at_store a) n (present_value b) (api_acme s)"
proof -
  obtain g' where "try_acquire (sem_lib L) (snd (check_rate (at_gate a) (api_gate s))) = Some g'"
    using try_acquire_None [OF assms(1), of "snd (check_rate (at_gate a) (api_gate s))"] assms(4) by auto
  with assms show thesis
    by (intro that [of "s\<lparr>api_gate := release_permit (sem_lib L) g',
        api_acme := remove (at_store a) n (present_value b) (api_acme s)\<rparr>"])
      (simp_all add: serve_def authorize_and_admit_def case_prod_unfold Let_def inner_layers_def
        MAX_REQUEST_BODY_LEN_def cleanup_def)
qed

text \<open>
  C34. What a client is told about a valid presentation that is let in: 200 when the value was
  recorded or refreshed, 503 with the limit that was reached otherwise; the store afterwards is
  the store's own result.
\<close>

theorem present_outcome:
  assumes "semaphore_law (sem_lib L)" and "check_basic_auth L (headers req) (api_config s) = Inr ()"
    and "fst (check_rate (at_gate a) (api_gate s))" and "0 < permits (sem_lib L) (api_gate s)"
    and "in_time a" and "json_present L 1024 req = Inr b"
    and "validate_request b (api_config s) = Inr n"
    and "add H ho (at_store a) (at_deadline a) n (present_value b) (api_acme s) = Some (res, ar)"
  shows "\<exists>r s'. serve H ho L a Present req s = Some (r, s') \<and> api_acme s' = ar \<and>
    (case res of
       Inr _ \<Rightarrow> status_code r = 200 \<and> response_body r = JsonEmpty
     | Inl TokenLimitReached \<Rightarrow> status_code r = 503 \<and>
         response_body r = JsonError \<lparr>error_text = ''active token limit reached''\<rparr>
     | Inl DnsWireCapacityReached \<Rightarrow> status_code r = 503 \<and>
         response_body r = JsonError \<lparr>error_text = ''active TXT records have reached DNS TCP capacity''\<rparr>)"
  by (rule serve_present_admitted [OF assms])
    (auto simp: json_result_def into_response_def service_unavailable_def make_error_def
      split: sum.splits add_error.splits)

subsection \<open>Requests in flight\<close>

text \<open>
  Requests overlap: a permit is taken when a request is admitted and given back when it is done,
  with rate checks of other requests in between. The second component counts those in flight.
\<close>

inductive gate_run :: "'sem semaphore \<Rightarrow> 'sem request_gate \<Rightarrow> 'sem request_gate \<Rightarrow> nat \<Rightarrow> bool"
  for S g0 where
  start: "gate_run S g0 g0 0"
| checked: "gate_run S g0 g k \<Longrightarrow> gate_run S g0 (snd (check_rate t g)) k"
| admitted: "gate_run S g0 g k \<Longrightarrow> try_acquire S g = Some g' \<Longrightarrow> gate_run S g0 g' (Suc k)"
| finished: "gate_run S g0 g (Suc k) \<Longrightarrow> gate_run S g0 (release_permit S g) k"

lemma gate_run_permits:
  assumes "semaphore_law S" and "gate_run S g0 g k"
  shows "permits S g + k = permits S g0"
  using assms(2)
  by (induction rule: gate_run.induct)
    (auto simp: permits_release [OF assms(1)] dest: try_acquire_Some [OF assms(1)])

text \<open>
  In any interleaving of requests to the server's router, at most 64 are in flight at once,
  and one more is turned away if and only if 64 are.
\<close>

theorem at_most_64_in_flight:
  assumes "semaphore_law S" and "gate_run S (api_gate (router S now c ar)) g k"
  shows "k \<le> 64 \<and> (try_acquire S g = None \<longleftrightarrow> k = 64)"
proof -
  have "permits S (api_gate (router S now c ar)) = 64"
    using assms(1)
    by (simp add: router_def router_with_limits_def new_gate_def permits_def semaphore_law_def
        MAX_CONCURRENT_REQUESTS_def Let_def)
  with gate_run_permits [OF assms] try_acquire_None [OF assms(1), of g] show ?thesis by auto
qed

lemma router_burst:
  assumes "max_tokens c \<le> 2 ^ 52"
  shows "api_gate (router S now c ar) =
    new_gate S now MAX_CONCURRENT_REQUESTS REQUEST_RATE_PER_SECOND (max 100 (2 * max_tokens c))"
proof -
  have "max REQUEST_RATE_BURST (saturating_mul (max_tokens c) 2) = max 100 (2 * max_tokens c)"
    using assms by (auto simp: REQUEST_RATE_BURST_def saturating_mul_def USIZE_MAX_def)
  then show ?thesis by (simp add: router_def router_with_limits_def Let_def)
qed

lemma router_gate_ok: "max_tokens c \<le> 2 ^ 52 \<Longrightarrow> gate_ok (api_gate (router S now c ar))"
  unfolding gate_ok_def
  by (subst router_burst) (auto simp: REQUEST_RATE_PER_SECOND_def intro: new_gate_ok)

text \<open>
  C35. The burst of the server's router covers a full renewal: presenting and withdrawing as many
  tokens as the token limit allows, and never fewer than 100 requests, are all admitted at once;
  the next request is refused.
\<close>

theorem burst_covers_all_tokens:
  assumes "max_tokens c \<le> 2 ^ 52"
  shows "fst (admissions (replicate n now) (api_gate (router S now c ar))) =
    replicate (min n (max 100 (2 * max_tokens c))) True @ replicate (n - max 100 (2 * max_tokens c)) False"
proof -
  let ?b = "max 100 (2 * max_tokens c)" and ?g = "api_gate (router S now c ar)"
  have "?b \<le> 2 ^ 53" using assms by auto
  then have "gate_credit ?g = ?b"
    by (simp add: router_burst [OF assms] gate_credit_def new_gate_def f64_of_nat_exact)
  moreover have "last_refill (rate ?g) = now" by (simp add: router_burst [OF assms] new_gate_def)
  ultimately show ?thesis
    using gate.checks_burst [OF router_gate_ok [OF assms], of S now ar now n]
    by (simp add: admissions_replicate)
qed

end
