(* ===== verification/Dns.thy ===== *)
theory Dns
  imports Store_Run
begin

text \<open>
  Model of \<open>src/dns.rs\<close>: from the bytes of a query to the bytes of the answer. The handler's
  configuration does not change; its challenge store does, because every lookup prunes it, so the
  operations return the handler. \<open>now\<close> is the clock reading of the one lookup a query makes. The
  \<open>unwrap\<close> calls are branches to \<open>None\<close>; the two loops over a literal array are unrolled.
\<close>

subsection \<open>Definitions\<close>

definition MAX_UDP_PAYLOAD :: u16 where
  "MAX_UDP_PAYLOAD = 1232"

record 'nm dns_handler =
  config :: config
  acme :: "'nm acme_records"

definition resolve_a :: "config \<Rightarrow> string \<Rightarrow> ipv4 option" where
  "resolve_a c qname =
     (if qname = ns_hostname c \<or> qname = ns_hostname2 c \<or> qname = domain c then Some (ns_ip c)
      else case parse_xip_ip qname (domain c) of Some ip \<Rightarrow> Some ip | None \<Rightarrow> None)"

definition txt_records :: "'nm hickory \<Rightarrow> config \<Rightarrow> string \<Rightarrow> string list \<Rightarrow> 'nm rr list" where
  "txt_records H c qname values =
     (if qname \<noteq> acme_name c then []
      else case from_ascii H qname of
             Inl _ \<Rightarrow> []
           | Inr name \<Rightarrow> map (txt_record name (txt_ttl c)) values)"

definition name_exists :: "config \<Rightarrow> string \<Rightarrow> bool" where
  "name_exists c qname =
     (if qname = domain c \<or> qname = ns_hostname c \<or> qname = ns_hostname2 c then True
      else if qname = acme_name c then True
      else if parse_xip_ip qname (domain c) \<noteq> None then True
      else False)"

definition a_record :: "config \<Rightarrow> 'nm \<Rightarrow> ipv4 \<Rightarrow> 'nm rr" where
  "a_record c name ip =
     \<lparr>rr_name = name, rr_ttl = default_ttl c,
      rr_data = RA (case ip of Ipv4 o0 o1 o2 o3 \<Rightarrow> Ipv4 o0 o1 o2 o3)\<rparr>"

definition ns_glue :: "'nm hickory \<Rightarrow> config \<Rightarrow> 'nm rr list option" where
  "ns_glue H c = do {
     ns1 \<leftarrow> expect (from_ascii H (ns_hostname c));
     ns2 \<leftarrow> expect (from_ascii H (ns_hostname2 c));
     Some [a_record c ns1 (ns_ip c), a_record c ns2 (ns_ip c)]
   }"

definition soa :: "'nm hickory \<Rightarrow> config \<Rightarrow> u32 \<Rightarrow> 'nm rr option" where
  "soa H c ser = do {
     zone \<leftarrow> expect (from_ascii H (domain c));
     ns \<leftarrow> expect (from_ascii H (ns_hostname c));
     soa_record H zone ns ser
   }"

definition ns_record :: "config \<Rightarrow> 'nm \<Rightarrow> 'nm \<Rightarrow> 'nm rr" where
  "ns_record c zone ns = \<lparr>rr_name = zone, rr_ttl = default_ttl c, rr_data = RNS ns\<rparr>"

definition nxdomain_unless :: "bool \<Rightarrow> 'nm message \<Rightarrow> 'nm message" where
  "nxdomain_unless exists m = (if \<not> exists then m\<lparr>response_code := NXDomain\<rparr> else m)"

text \<open>The dispatch on the query type, the last part of \<open>build_response\<close>.\<close>

definition answer_query :: "'nm hickory \<Rightarrow> config \<Rightarrow> 'nm \<Rightarrow> string \<Rightarrow> record_type \<Rightarrow> string list \<Rightarrow>
    'nm rr \<Rightarrow> 'nm message \<Rightarrow> 'nm message option" where
  "answer_query H c qname qname_str qtype txt_values soa_rr m =
     (case qtype of
        SOA \<Rightarrow>
          Some (if qname_str = domain c then add_answer soa_rr m
                else nxdomain_unless (name_exists c qname_str) m)
      | NS \<Rightarrow>
          if qname_str = domain c then do {
            zone \<leftarrow> expect (from_ascii H (domain c));
            ns1 \<leftarrow> expect (from_ascii H (ns_hostname c));
            let m = add_answer (ns_record c zone ns1) m;
            ns2 \<leftarrow> expect (from_ascii H (ns_hostname2 c));
            let m = add_answer (ns_record c zone ns2) m;
            glue \<leftarrow> ns_glue H c;
            Some (fold add_additional glue m)
          } else Some (nxdomain_unless (name_exists c qname_str) m)
      | A \<Rightarrow>
          Some (case resolve_a c qname_str of
                  Some ip \<Rightarrow> add_answer (a_record c qname ip) m
                | None \<Rightarrow> nxdomain_unless (name_exists c qname_str) m)
      | TXT \<Rightarrow>
          (let records = txt_records H c qname_str txt_values
           in Some (if records = [] then nxdomain_unless (name_exists c qname_str) m
                    else fold add_answer records m))
      | _ \<Rightarrow> Some (nxdomain_unless (name_exists c qname_str) m))"

definition qname_text :: "'nm hickory \<Rightarrow> 'nm \<Rightarrow> string" where
  "qname_text H qname = to_lowercase (trim_end_matches CHR ''.'' (to_ascii H qname))"

definition response_edns :: "'nm hickory \<Rightarrow> edns \<Rightarrow> edns" where
  "response_edns H request_edns =
     set_dnssec_ok H (dnssec_ok request_edns)
       (set_max_payload H (min (max_payload request_edns) MAX_UDP_PAYLOAD) (edns_new H))"

definition response_header :: "'nm hickory \<Rightarrow> 'nm message \<Rightarrow> 'nm message" where
  "response_header H request =
     (let m = message_response H (msg_id request) (op_code request);
          m = m\<lparr>authoritative := True, recursion_desired := recursion_desired request,
                recursion_available := False\<rparr>
      in case msg_edns request of None \<Rightarrow> m | Some e \<Rightarrow> set_edns (response_edns H e) m)"

definition refuse :: "response_code \<Rightarrow> 'nm message \<Rightarrow> 'nm message" where
  "refuse rc m = m\<lparr>authoritative := False, response_code := rc\<rparr>"

definition build_response :: "'nm hickory \<Rightarrow> instant \<Rightarrow> 'nm message \<Rightarrow> 'nm dns_handler \<Rightarrow>
    ('nm message \<times> 'nm dns_handler) option" where
  "build_response H now request h =
     (let m = response_header H request
      in if (case msg_edns request of None \<Rightarrow> False | Some e \<Rightarrow> version e \<noteq> 0)
           then Some (refuse BADVERS m, h)
         else if op_code request \<noteq> Query then Some (refuse NotImp m, h)
         else if length (queries request) \<noteq> 1 then Some (refuse FormErr m, h)
         else let query = queries request ! 0;
                  qname = q_name query; qtype = q_type query;
                  qname_str = qname_text H qname;
                  m = add_query query m
              in if q_class query \<notin> {IN, ANY} then Some (refuse NotImp m, h)
                 else if \<not> is_our_domain qname_str (domain (config h))
                   then Some (refuse Refused m, h)
                 else
                   let ((txt_values, ser), records) =
                         (if qtype = TXT \<and> qname_str = acme_name (config h)
                          then get_with_serial now qname_str (acme h)
                          else let (ser, records) = read_serial now (acme h)
                               in (([], ser), records))
                   in do {
                        soa_rr \<leftarrow> soa H (config h) ser;
                        m \<leftarrow> answer_query H (config h) qname qname_str qtype txt_values soa_rr
                               (add_authority soa_rr m);
                        Some (m, h\<lparr>acme := records\<rparr>)
                      })"

definition servfail :: "'nm hickory \<Rightarrow> 'nm message \<Rightarrow> bytes" where
  "servfail H request =
     (let m = message_response H (msg_id request) (op_code request);
          m = m\<lparr>response_code := ServFail, recursion_desired := recursion_desired request\<rparr>;
          m = add_queries (queries request) m
      in case to_vec H m of Some encoded \<Rightarrow> encoded | None \<Rightarrow> [])"

definition encode_complete_or_servfail :: "'nm hickory \<Rightarrow> 'nm message \<Rightarrow> 'nm message \<Rightarrow> bytes" where
  "encode_complete_or_servfail H request m =
     (case to_vec H m of
        Some encoded \<Rightarrow>
          (case from_vec H encoded of
             Some decoded \<Rightarrow> if \<not> truncation decoded then encoded else servfail H request
           | None \<Rightarrow> servfail H request)
      | None \<Rightarrow> servfail H request)"

definition handle :: "'nm hickory \<Rightarrow> instant \<Rightarrow> bytes \<Rightarrow> 'nm dns_handler \<Rightarrow>
    (bytes \<times> 'nm dns_handler) option" where
  "handle H now raw h =
     (case from_vec H raw of
        None \<Rightarrow> Some ([], h)
      | Some request \<Rightarrow>
          if message_type request \<noteq> QueryMessage then Some ([], h)
          else do {
            (m, h) \<leftarrow> build_response H now request h;
            Some (encode_complete_or_servfail H request m, h)
          })"

definition handle_udp :: "'nm hickory \<Rightarrow> instant \<Rightarrow> bytes \<Rightarrow> 'nm dns_handler \<Rightarrow>
    (bytes \<times> 'nm dns_handler) option" where
  "handle_udp H now raw h =
     (case from_vec H raw of
        None \<Rightarrow> Some ([], h)
      | Some request \<Rightarrow>
          if message_type request \<noteq> QueryMessage then Some ([], h)
          else let payload = unat (min (message_max_payload H request) MAX_UDP_PAYLOAD) in do {
            (m, h) \<leftarrow> build_response H now request h;
            let encoded = encode_complete_or_servfail H request m;
            Some (if length encoded \<le> payload then encoded
                  else case to_vec H (truncate_message H m) of
                         Some encoded \<Rightarrow> encoded
                       | None \<Rightarrow> servfail H request, h)
          })"

end
