(* ===== verification/Dns_Spec.thy ===== *)
theory Dns_Spec
  imports Dns
begin

text \<open>
  What the DNS handler promises. The lemmas reduce \<open>build_response\<close> to its dispatch for a query
  that gets that far, and discharge its \<open>unwrap\<close> calls from an accepted configuration; the
  properties then give response codes, answers, serials and sizes for every query.
\<close>

subsection \<open>Accepted configurations\<close>

definition handler_ok :: "'nm hickory \<Rightarrow> 'nm dns_handler \<Rightarrow> bool" where
  "handler_ok H h \<longleftrightarrow> valid_config H (config h) \<and> store_wf (acme h) \<and>
     soa_ok H (cap_zone (wire_capacity (acme h)))"

lemma valid_names:
  assumes "valid_config H c"
  obtains zone ns1 ns2 an where "from_ascii H (domain c) = Inr zone"
    "from_ascii H (ns_hostname c) = Inr ns1" "from_ascii H (ns_hostname2 c) = Inr ns2"
    "from_ascii H (acme_name c) = Inr an" "soa_ok H zone"
proof -
  from assms have "is_ok (from_ascii H (domain c))" "is_ok (from_ascii H (ns_hostname c))"
    "is_ok (from_ascii H (ns_hostname2 c))" and v: "validate H c = Some (Inr ())"
    by (simp_all add: valid_config_def config_in_range_def normal_name_def)
  with validate_okD(4) [OF v] valid_config_soa_ok [OF assms] show thesis
    unfolding is_ok_iff using that by blast
qed

lemma valid_in_zone:
  assumes "valid_config H c"
  shows "is_our_domain (ns_hostname c) (domain c)" "is_our_domain (ns_hostname2 c) (domain c)"
    "is_our_domain (acme_name c) (domain c)"
  using assms validate_okD(2,3) [of H c] ends_with_in_zone
  by (auto simp: valid_config_def acme_name_def is_our_domain_iff)

lemma soa_Some:
  assumes "from_ascii H (domain c) = Inr zone" and "from_ascii H (ns_hostname c) = Inr ns"
    and "soa_ok H zone"
  obtains rn where "soa H c ser = Some \<lparr>rr_name = zone, rr_ttl = 10,
    rr_data = RSOA ns rn ser 3600 900 86400 10\<rparr>"
proof -
  obtain rn where "from_ascii H (''admin.'' @ to_ascii H zone) = Inr rn"
    using assms(3) by (auto simp: soa_ok_def is_ok_iff)
  with assms have "soa H c ser = Some \<lparr>rr_name = zone, rr_ttl = 10,
      rr_data = RSOA ns rn ser 3600 900 86400 10\<rparr>"
    by (simp add: soa_def soa_record_def)
  then show thesis by (rule that)
qed

lemma soa_eq_Some:
  "soa H c ser = Some r \<Longrightarrow> \<exists>zone ns rn. from_ascii H (domain c) = Inr zone \<and>
     from_ascii H (ns_hostname c) = Inr ns \<and>
     r = \<lparr>rr_name = zone, rr_ttl = 10, rr_data = RSOA ns rn ser 3600 900 86400 10\<rparr>"
  by (auto simp: soa_def soa_record_def bind_eq_Some_conv)

lemma a_record_simp [simp]: "a_record c n ip = \<lparr>rr_name = n, rr_ttl = default_ttl c, rr_data = RA ip\<rparr>"
  by (cases ip) (simp add: a_record_def)

lemma ns_glue_Some:
  "from_ascii H (ns_hostname c) = Inr ns1 \<Longrightarrow> from_ascii H (ns_hostname2 c) = Inr ns2 \<Longrightarrow>
     ns_glue H c = Some [a_record c ns1 (ns_ip c), a_record c ns2 (ns_ip c)]"
  by (simp add: ns_glue_def)

subsection \<open>Names\<close>

lemma resolve_a_exists: "resolve_a c q = Some ip \<Longrightarrow> name_exists c q"
  by (auto simp: resolve_a_def name_exists_def split: if_splits option.splits)

lemma name_exists_iff:
  "name_exists c q \<longleftrightarrow> q \<in> {domain c, ns_hostname c, ns_hostname2 c, acme_name c} \<or>
     parse_xip_ip q (domain c) \<noteq> None"
  by (auto simp: name_exists_def)

lemma resolve_a_eq_None: "resolve_a c q = None \<longleftrightarrow>
  q \<notin> {domain c, ns_hostname c, ns_hostname2 c} \<and> parse_xip_ip q (domain c) = None"
  by (auto simp: resolve_a_def split: option.splits)

lemma txt_records_exists: "txt_records H c q vs \<noteq> [] \<Longrightarrow> name_exists c q"
  by (auto simp: txt_records_def name_exists_def)

subsection \<open>The dispatch\<close>

lemma nxdomain_unless_sel [simp]:
  "answers (nxdomain_unless b m) = answers m" "authorities (nxdomain_unless b m) = authorities m"
  "additionals (nxdomain_unless b m) = additionals m" "queries (nxdomain_unless b m) = queries m"
  "authoritative (nxdomain_unless b m) = authoritative m" "msg_edns (nxdomain_unless b m) = msg_edns m"
  "truncation (nxdomain_unless b m) = truncation m" "msg_id (nxdomain_unless b m) = msg_id m"
  "response_code (nxdomain_unless b m) = (if b then response_code m else NXDomain)"
  by (simp_all add: nxdomain_unless_def)

lemma answer_query_total [panic_free]:
  assumes "valid_config H c"
  shows "\<exists>m'. answer_query H c qn qs qt vs soa_rr m = Some m'"
proof -
  obtain zone ns1 ns2 an where "from_ascii H (domain c) = Inr zone"
    "from_ascii H (ns_hostname c) = Inr ns1" "from_ascii H (ns_hostname2 c) = Inr ns2"
    using valid_names [OF assms] .
  then show ?thesis
    by (auto simp: answer_query_def Let_def ns_glue_def split: record_type.splits option.splits)
qed

lemma answer_query_rcode:
  assumes "answer_query H c qn qs qt vs soa_rr m = Some m'" and "response_code m = NoError"
  shows "response_code m' = (if name_exists c qs then NoError else NXDomain)"
  using assms resolve_a_exists [of c qs] txt_records_exists [of H c qs vs]
  by (auto simp: answer_query_def Let_def bind_eq_Some_conv fold_add_answer fold_add_additional
      message_build_defs name_exists_iff [of c "domain c"]
      split: record_type.splits option.splits if_splits)

lemma answer_query_frame:
  assumes "answer_query H c qn qs qt vs soa_rr m = Some m'"
  shows "authorities m' = authorities m" "queries m' = queries m" "authoritative m' = authoritative m"
    "msg_edns m' = msg_edns m" "msg_id m' = msg_id m" "truncation m' = truncation m"
  using assms
  by (auto simp: answer_query_def Let_def bind_eq_Some_conv fold_add_answer fold_add_additional
      message_build_defs split: record_type.splits option.splits if_splits)

subsection \<open>The whole response\<close>

text \<open>The conditions under which a query reaches the dispatch, each the negation of a guard.\<close>

definition edns_supported :: "'nm message \<Rightarrow> bool" where
  "edns_supported request \<longleftrightarrow> (case msg_edns request of None \<Rightarrow> True | Some e \<Rightarrow> version e = 0)"

definition accepted :: "'nm hickory \<Rightarrow> config \<Rightarrow> 'nm message \<Rightarrow> 'nm question \<Rightarrow> bool" where
  "accepted H c request q \<longleftrightarrow> edns_supported request \<and> op_code request = Query \<and>
     queries request = [q] \<and> q_class q \<in> {IN, ANY} \<and>
     is_our_domain (qname_text H (q_name q)) (domain c)"

definition txt_values :: "config \<Rightarrow> 'nm acme_records \<Rightarrow> string \<Rightarrow> record_type \<Rightarrow> string list" where
  "txt_values c ar qs qt = (if qt = TXT \<and> qs = acme_name c then store_values ar qs else [])"

lemma build_response_accepted:
  assumes "accepted H (config h) request q"
  shows "build_response H now request h =
    (let ar = refresh_zone now (acme h); qs = qname_text H (q_name q)
     in do {
       soa_rr \<leftarrow> soa H (config h) (store_serial ar);
       m \<leftarrow> answer_query H (config h) (q_name q) qs (q_type q) (txt_values (config h) ar qs (q_type q))
              soa_rr (add_authority soa_rr (add_query q (response_header H request)));
       Some (m, h\<lparr>acme := ar\<rparr>)
     })"
  using assms
  by (auto simp: build_response_def accepted_def edns_supported_def Let_def txt_values_def
      get_with_serial_def read_serial_def store_defs case_prod_unfold split: option.splits)

lemma response_header_sel [simp]:
  assumes "response_law H"
  shows "answers (response_header H r) = []" "authorities (response_header H r) = []"
    "additionals (response_header H r) = []" "queries (response_header H r) = []"
    "response_code (response_header H r) = NoError" "authoritative (response_header H r)"
    "msg_id (response_header H r) = msg_id r" "op_code (response_header H r) = op_code r"
    "truncation (response_header H r) = False"
    "message_type (response_header H r) = ResponseMessage"
    "recursion_desired (response_header H r) = recursion_desired r"
    "recursion_available (response_header H r) = False"
    "msg_edns (response_header H r) = map_option (response_edns H) (msg_edns r)"
  using assms
  by (simp_all add: response_header_def response_law_def Let_def message_build_defs split: option.splits)

lemma accepted_response:
  assumes "handler_ok H h" and "accepted H (config h) request q"
  obtains m zone ns rn where
    "build_response H now request h = Some (m, h\<lparr>acme := refresh_zone now (acme h)\<rparr>)"
    "from_ascii H (domain (config h)) = Inr zone" "from_ascii H (ns_hostname (config h)) = Inr ns"
    "soa H (config h) (store_serial (refresh_zone now (acme h))) = Some \<lparr>rr_name = zone, rr_ttl = 10,
       rr_data = RSOA ns rn (store_serial (refresh_zone now (acme h))) 3600 900 86400 10\<rparr>"
    "answer_query H (config h) (q_name q) (qname_text H (q_name q)) (q_type q)
       (txt_values (config h) (refresh_zone now (acme h)) (qname_text H (q_name q)) (q_type q))
       \<lparr>rr_name = zone, rr_ttl = 10,
         rr_data = RSOA ns rn (store_serial (refresh_zone now (acme h))) 3600 900 86400 10\<rparr>
       (add_authority \<lparr>rr_name = zone, rr_ttl = 10,
         rr_data = RSOA ns rn (store_serial (refresh_zone now (acme h))) 3600 900 86400 10\<rparr>
         (add_query q (response_header H request))) = Some m"
proof -
  have v: "valid_config H (config h)" using assms(1) by (simp add: handler_ok_def)
  obtain zone ns where n: "from_ascii H (domain (config h)) = Inr zone"
      "from_ascii H (ns_hostname (config h)) = Inr ns" "soa_ok H zone"
    using valid_names [OF v] .
  obtain rn where s: "soa H (config h) (store_serial (refresh_zone now (acme h))) =
      Some \<lparr>rr_name = zone, rr_ttl = 10,
        rr_data = RSOA ns rn (store_serial (refresh_zone now (acme h))) 3600 900 86400 10\<rparr>"
    using soa_Some [OF n] .
  let ?soa = "\<lparr>rr_name = zone, rr_ttl = 10,
    rr_data = RSOA ns rn (store_serial (refresh_zone now (acme h))) 3600 900 86400 10\<rparr>"
  obtain m where m: "answer_query H (config h) (q_name q) (qname_text H (q_name q)) (q_type q)
       (txt_values (config h) (refresh_zone now (acme h)) (qname_text H (q_name q)) (q_type q)) ?soa
       (add_authority ?soa (add_query q (response_header H request))) = Some m"
    using answer_query_total [OF v] by blast
  then have "build_response H now request h = Some (m, h\<lparr>acme := refresh_zone now (acme h)\<rparr>)"
    by (simp add: build_response_accepted [OF assms(2)] Let_def s)
  from that [OF this n(1,2) s m] show thesis .
qed

text \<open>The guards, as the response code they give; the reference for \<open>build_response\<close>.\<close>

definition spec_rcode :: "'nm hickory \<Rightarrow> config \<Rightarrow> 'nm message \<Rightarrow> response_code" where
  "spec_rcode H c request =
     (if \<not> edns_supported request then BADVERS
      else if op_code request \<noteq> Query then NotImp
      else case queries request of
        [q] \<Rightarrow>
          if q_class q \<notin> {IN, ANY} then NotImp
          else if \<not> is_our_domain (qname_text H (q_name q)) (domain c) then Refused
          else if name_exists c (qname_text H (q_name q)) then NoError else NXDomain
      | _ \<Rightarrow> FormErr)"

lemma queries_cases:
  obtains (one) q where "queries r = [q]" | (other) "length (queries r) \<noteq> 1" "\<forall>q. queries r \<noteq> [q]"
proof (cases "queries r")
  case Nil
  then show thesis by (intro other) auto
next
  case (Cons q qs)
  then show thesis by (cases qs) (auto intro: one other)
qed

lemma accepted_rcode: "(\<exists>q. accepted H c request q) \<longleftrightarrow> spec_rcode H c request \<in> {NoError, NXDomain}"
  by (cases request rule: queries_cases)
    (auto simp: accepted_def spec_rcode_def split: list.splits)

lemma rejected_response:
  assumes "\<forall>q. \<not> accepted H (config h) request q"
  obtains m where "build_response H now request h = Some (refuse (spec_rcode H (config h) request) m, h)"
    "m = response_header H request \<and> spec_rcode H (config h) request \<noteq> Refused \<or>
     (\<exists>q. queries request = [q] \<and> m = add_query q (response_header H request))"
proof (cases "edns_supported request \<and> op_code request = Query")
  case False
  then have "build_response H now request h =
      Some (refuse (spec_rcode H (config h) request) (response_header H request), h)"
    by (auto simp: build_response_def spec_rcode_def edns_supported_def Let_def split: option.splits)
  moreover have "spec_rcode H (config h) request \<noteq> Refused" using False by (auto simp: spec_rcode_def)
  ultimately show thesis using that by blast
next
  case True
  show thesis
  proof (cases request rule: queries_cases)
    case (one q)
    with True assms have "q_class q \<notin> {IN, ANY} \<or> \<not> is_our_domain (qname_text H (q_name q)) (domain (config h))"
      by (auto simp: accepted_def)
    with True one have "build_response H now request h = Some (refuse (spec_rcode H (config h) request)
        (add_query q (response_header H request)), h)"
      by (auto simp: build_response_def spec_rcode_def edns_supported_def Let_def split: option.splits)
    then show thesis by (rule that) (use one in blast)
  next
    case other
    then have formerr: "spec_rcode H (config h) request = FormErr"
      using True by (auto simp: spec_rcode_def split: list.splits)
    with True other have "build_response H now request h =
        Some (refuse (spec_rcode H (config h) request) (response_header H request), h)"
      by (auto simp: build_response_def edns_supported_def Let_def split: option.splits)
    with formerr show thesis using that by (auto intro: that)
  qed
qed

lemma refuse_sel [simp]:
  "answers (refuse rc m) = answers m" "authorities (refuse rc m) = authorities m"
  "additionals (refuse rc m) = additionals m" "queries (refuse rc m) = queries m"
  "authoritative (refuse rc m) = False" "response_code (refuse rc m) = rc"
  "msg_id (refuse rc m) = msg_id m" "msg_edns (refuse rc m) = msg_edns m"
  "truncation (refuse rc m) = truncation m"
  by (simp_all add: refuse_def)

lemma build_sel [simp]:
  "answers (add_query q m) = answers m" "answers (add_authority r m) = answers m"
  "authorities (add_query q m) = authorities m" "authorities (add_authority r m) = authorities m @ [r]"
  "authoritative (add_query q m) = authoritative m" "authoritative (add_authority r m) = authoritative m"
  "response_code (add_query q m) = response_code m" "response_code (add_authority r m) = response_code m"
  "queries (add_query q m) = queries m @ [q]" "queries (add_authority r m) = queries m"
  "additionals (add_query q m) = additionals m" "additionals (add_authority r m) = additionals m"
  "msg_edns (add_query q m) = msg_edns m" "msg_edns (add_authority r m) = msg_edns m"
  "msg_id (add_query q m) = msg_id m" "msg_id (add_authority r m) = msg_id m"
  by (simp_all add: message_build_defs)

lemma refresh_zone_ok: "handler_ok H h \<Longrightarrow> handler_ok H (h\<lparr>acme := refresh_zone now (acme h)\<rparr>)"
  by (simp add: handler_ok_def refresh_zone_view)

lemma build_response_total [panic_free]:
  assumes "handler_ok H h"
  obtains m h' where "build_response H now request h = Some (m, h')" "handler_ok H h'"
    "config h' = config h" "acme h' = acme h \<or> acme h' = refresh_zone now (acme h)"
proof (cases "\<exists>q. accepted H (config h) request q")
  case True
  then obtain q where q: "accepted H (config h) request q" by blast
  show thesis
    by (rule accepted_response [OF assms q, of now]) (auto intro: that refresh_zone_ok [OF assms])
next
  case False
  then show thesis using rejected_response [of H h request now] assms that by (metis (no_types))
qed

lemma build_response_rcode:
  assumes "handler_ok H h" and "response_law H" and "build_response H now request h = Some (m, h')"
  shows "response_code m = spec_rcode H (config h) request"
proof (cases "\<exists>q. accepted H (config h) request q")
  case True
  then obtain q where q: "accepted H (config h) request q" by blast
  then have s: "spec_rcode H (config h) request =
      (if name_exists (config h) (qname_text H (q_name q)) then NoError else NXDomain)"
    by (simp add: spec_rcode_def accepted_def)
  show ?thesis
    by (rule accepted_response [OF assms(1) q, of now])
      (use assms s in \<open>auto dest: answer_query_rcode\<close>)
next
  case False
  then obtain m' where "build_response H now request h = Some (refuse (spec_rcode H (config h) request) m', h)"
    using rejected_response [of H h request now] by metis
  with assms(3) show ?thesis by auto
qed

lemma header_frame:
  assumes "answer_query H c qn qs qt vs soa_rr m = Some m'"
  shows "op_code m' = op_code m" "message_type m' = message_type m"
    "recursion_desired m' = recursion_desired m" "recursion_available m' = recursion_available m"
  using assms
  by (auto simp: answer_query_def Let_def bind_eq_Some_conv fold_add_answer fold_add_additional
      message_build_defs nxdomain_unless_def split: record_type.splits option.splits if_splits)

lemma header_build [simp]:
  "op_code (add_query q m) = op_code m" "op_code (add_authority r m) = op_code m"
  "op_code (refuse rc m) = op_code m" "message_type (add_query q m) = message_type m"
  "message_type (add_authority r m) = message_type m" "message_type (refuse rc m) = message_type m"
  "recursion_desired (add_query q m) = recursion_desired m"
  "recursion_desired (add_authority r m) = recursion_desired m"
  "recursion_desired (refuse rc m) = recursion_desired m"
  "recursion_available (add_query q m) = recursion_available m"
  "recursion_available (add_authority r m) = recursion_available m"
  "recursion_available (refuse rc m) = recursion_available m"
  "truncation (add_query q m) = truncation m" "truncation (add_authority r m) = truncation m"
  by (simp_all add: message_build_defs refuse_def)

subsection \<open>Properties of the response\<close>

text \<open>
  C19. The response code of every query, in order of precedence: BADVERS for an EDNS version other
  than 0, NotImp for an operation that is not a query, FormErr unless there is exactly one
  question, NotImp for a class that is not Internet or any, Refused outside the zone, and then
  NXDomain or NoError as the name exists or not, whatever the record type. The response is
  authoritative in exactly the last two cases; in all others it has no records and the store is
  not touched.
\<close>

theorem response_code_correct:
  assumes "handler_ok H h" and "response_law H" and "build_response H now request h = Some (m, h')"
  shows "response_code m = spec_rcode H (config h) request \<and>
    (authoritative m \<longleftrightarrow> response_code m \<in> {NoError, NXDomain}) \<and>
    (authoritative m \<or> answers m = [] \<and> authorities m = [] \<and> additionals m = [] \<and> h' = h)"
proof (cases "\<exists>q. accepted H (config h) request q")
  case True
  then obtain q where q: "accepted H (config h) request q" by blast
  have "authoritative m"
    by (rule accepted_response [OF assms(1) q, of now])
      (use assms in \<open>auto dest: answer_query_frame(3)\<close>)
  with build_response_rcode [OF assms] True accepted_rcode [of H "config h" request] show ?thesis by auto
next
  case False
  then obtain m' where m': "build_response H now request h = Some (refuse (spec_rcode H (config h) request) m', h)"
      "m' = response_header H request \<and> spec_rcode H (config h) request \<noteq> Refused \<or>
       (\<exists>q. queries request = [q] \<and> m' = add_query q (response_header H request))"
    using rejected_response [of H h request now] by metis
  have "spec_rcode H (config h) request \<notin> {NoError, NXDomain}"
    using False accepted_rcode [of H "config h" request] by blast
  with m' assms show ?thesis by auto
qed

text \<open>The queries whose question is repeated.\<close>

definition well_formed_query :: "'nm message \<Rightarrow> bool" where
  "well_formed_query request \<longleftrightarrow> edns_supported request \<and> op_code request = Query \<and> length (queries request) = 1"

lemma rejected_question:
  assumes "\<forall>q. \<not> accepted H (config h) request q" and "response_law H"
    and "build_response H now request h = Some (m, h')"
  shows "queries m = (if well_formed_query request then queries request else [])"
proof (cases "well_formed_query request")
  case False
  then have "m = refuse (response_code m) (response_header H request)"
    using assms(3)
    by (auto simp: build_response_def well_formed_query_def edns_supported_def Let_def refuse_def split: option.splits if_splits)
  then have "queries m = queries (response_header H request)" by (metis refuse_sel(4))
  with False show ?thesis using assms(2) by simp
next
  case True
  then obtain q where q: "queries request = [q]" by (auto simp: well_formed_query_def length_Suc_conv)
  with True assms(1) have "q_class q \<notin> {IN, ANY} \<or> \<not> is_our_domain (qname_text H (q_name q)) (domain (config h))"
    by (auto simp: accepted_def well_formed_query_def)
  with True q assms(3) have "\<exists>rc. m = refuse rc (add_query q (response_header H request))"
    by (cases "q_class q \<notin> {IN, ANY}")
      (auto simp: build_response_def well_formed_query_def edns_supported_def Let_def split: option.splits if_splits)
  with True q assms(2) show ?thesis by auto
qed

text \<open>
  C39. A response belongs to its query: it is a response with the query's id, operation code and
  recursion-desired flag, it offers no recursion, it carries EDNS exactly when the query does, and
  it is not marked truncated. The question is repeated as it came, letter case included, when the
  query has one question, is a standard query and is of a version of EDNS that is spoken; any
  other response (BADVERS, NOTIMP for another operation code, FORMERR) has no question.
\<close>

theorem response_matches_query:
  assumes "handler_ok H h" and "response_law H" and "build_response H now request h = Some (m, h')"
  shows "message_type m = ResponseMessage \<and> msg_id m = msg_id request \<and> op_code m = op_code request \<and>
    recursion_desired m = recursion_desired request \<and> \<not> recursion_available m \<and> \<not> truncation m \<and>
    msg_edns m = map_option (response_edns H) (msg_edns request) \<and>
    queries m = (if edns_supported request \<and> op_code request = Query \<and> length (queries request) = 1
                 then queries request else [])"
proof (cases "\<exists>q. accepted H (config h) request q")
  case True
  then obtain q where q: "accepted H (config h) request q" by blast
  then have "queries request = [q]" "edns_supported request" "op_code request = Query" by (simp_all add: accepted_def)
  then show ?thesis
    by (rule_tac accepted_response [OF assms(1) q, of now])
      (use assms in \<open>auto dest: answer_query_frame header_frame\<close>)
next
  case False
  then have no: "\<forall>q. \<not> accepted H (config h) request q" by blast
  obtain m' where m': "build_response H now request h = Some (refuse (spec_rcode H (config h) request) m', h)"
      "m' = response_header H request \<or> (\<exists>q. m' = add_query q (response_header H request))"
    using rejected_response [OF no, of now] by metis
  from rejected_question [OF no assms(2,3)] m' assms show ?thesis by (auto simp: well_formed_query_def)
qed

text \<open>
  C21. The rule of RFC 8020: whether a name of the zone is denied does not depend on the record
  type asked for or on letter case, and the denied names are exactly those that are none of the
  four configured names and carry no address.
\<close>

theorem denial_independent_of_type:
  assumes "handler_ok H h" and "response_law H"
    and "accepted H (config h) request q" and "accepted H (config h) request' q'"
    and "qname_text H (q_name q') = qname_text H (q_name q)"
    and "build_response H now request h = Some (m, h1)" and "build_response H later request' h = Some (m', h2)"
  shows "response_code m' = response_code m \<and>
    (response_code m = NXDomain \<longleftrightarrow>
       qname_text H (q_name q) \<notin> {domain (config h), ns_hostname (config h), ns_hostname2 (config h),
         acme_name (config h)} \<and>
       parse_xip_ip (qname_text H (q_name q)) (domain (config h)) = None)"
  using build_response_rcode [OF assms(1,2,6)] build_response_rcode [OF assms(1,2,7)] assms(3-5)
  by (auto simp: spec_rcode_def accepted_def name_exists_iff)

end
