(* ===== verification/Dns_Answers.thy ===== *)
theory Dns_Answers
  imports Dns_Spec
begin

text \<open>
  The records the DNS handler answers with, per record type, and the bytes it sends: over TCP a
  complete message or a server failure, over UDP no more than the negotiated payload unless the
  answer is the library's truncated form. Ends with the interface \<open>dns_service\<close> through which the
  listeners of \<open>src/main.rs\<close> use the handler.
\<close>

subsection \<open>Answers by type\<close>

lemma accepted_sections:
  assumes "handler_ok H h" and "response_law H" and "accepted H (config h) request q"
    and "build_response H now request h = Some (m, h')"
  obtains zone ns rn soa_rr where "h' = h\<lparr>acme := refresh_zone now (acme h)\<rparr>"
    "from_ascii H (domain (config h)) = Inr zone" "from_ascii H (ns_hostname (config h)) = Inr ns"
    "soa_rr = \<lparr>rr_name = zone, rr_ttl = 10,
       rr_data = RSOA ns rn (store_serial (acme h')) 3600 900 86400 10\<rparr>"
    "authorities m = [soa_rr]" "soa H (config h) (store_serial (acme h')) = Some soa_rr"
    "answer_query H (config h) (q_name q) (qname_text H (q_name q)) (q_type q)
       (txt_values (config h) (acme h') (qname_text H (q_name q)) (q_type q)) soa_rr
       (add_authority soa_rr (add_query q (response_header H request))) = Some m"
proof (rule accepted_response [OF assms(1,3), of now])
  fix m' zone ns rn
  assume b: "build_response H now request h = Some (m', h\<lparr>acme := refresh_zone now (acme h)\<rparr>)"
    and n: "from_ascii H (domain (config h)) = Inr zone" "from_ascii H (ns_hostname (config h)) = Inr ns"
    and s: "soa H (config h) (store_serial (refresh_zone now (acme h))) = Some \<lparr>rr_name = zone, rr_ttl = 10,
       rr_data = RSOA ns rn (store_serial (refresh_zone now (acme h))) 3600 900 86400 10\<rparr>"
    and a: "answer_query H (config h) (q_name q) (qname_text H (q_name q)) (q_type q)
       (txt_values (config h) (refresh_zone now (acme h)) (qname_text H (q_name q)) (q_type q))
       \<lparr>rr_name = zone, rr_ttl = 10,
         rr_data = RSOA ns rn (store_serial (refresh_zone now (acme h))) 3600 900 86400 10\<rparr>
       (add_authority \<lparr>rr_name = zone, rr_ttl = 10,
         rr_data = RSOA ns rn (store_serial (refresh_zone now (acme h))) 3600 900 86400 10\<rparr>
         (add_query q (response_header H request))) = Some m'"
  have eq: "m' = m" "h' = h\<lparr>acme := refresh_zone now (acme h)\<rparr>" using b assms(4) by auto
  show thesis
  proof (rule that [OF eq(2) n refl])
    show "authorities m = [\<lparr>rr_name = zone, rr_ttl = 10,
        rr_data = RSOA ns rn (store_serial (acme h')) 3600 900 86400 10\<rparr>]"
      using answer_query_frame(1) [OF a] assms(2) eq by simp
  qed (use a s eq in simp_all)
qed

text \<open>
  Every answer about a name of the zone, negative ones included, carries exactly one authority
  record: the SOA of the zone, with the first nameserver as primary, a TTL and a negative-caching
  time of 10 seconds, and the serial of the store version the answer was read from.
\<close>

theorem soa_in_authority:
  assumes "handler_ok H h" and "response_law H" and "accepted H (config h) request q"
    and "build_response H now request h = Some (m, h')"
  shows "\<exists>zone ns rn. from_ascii H (domain (config h)) = Inr zone \<and>
    from_ascii H (ns_hostname (config h)) = Inr ns \<and>
    authorities m = [\<lparr>rr_name = zone, rr_ttl = 10,
      rr_data = RSOA ns rn (store_serial (acme h')) 3600 900 86400 10\<rparr>]"
  by (rule accepted_sections [OF assms]) blast

lemma txt_answer:
  assumes "handler_ok H h" and "response_law H" and "accepted H (config h) request q"
    and "build_response H now request h = Some (m, h')"
    and "q_type q = TXT" and "qname_text H (q_name q) = acme_name (config h)"
  shows "\<exists>name. from_ascii H (acme_name (config h)) = Inr name \<and>
    answers m = map (txt_record name (txt_ttl (config h))) (store_values (acme h') (acme_name (config h))) \<and>
    set (store_values (acme h') (acme_name (config h))) =
      {v. expire now (store_view (acme h)) (acme_name (config h)) v \<noteq> None} \<and>
    map (soa_serial \<circ> rr_data) (authorities m) = [store_serial (acme h')]"
proof -
  have v: "valid_config H (config h)" and wf: "store_wf (acme h)"
    using assms(1) by (simp_all add: handler_ok_def)
  obtain name where n: "from_ascii H (acme_name (config h)) = Inr name" using valid_names [OF v] .
  show ?thesis
  proof (rule accepted_sections [OF assms(1-4)])
    fix zone ns rn soa_rr
    assume h': "h' = h\<lparr>acme := refresh_zone now (acme h)\<rparr>"
      and s: "soa_rr = \<lparr>rr_name = zone, rr_ttl = 10,
        rr_data = RSOA ns rn (store_serial (acme h')) 3600 900 86400 10\<rparr>" "authorities m = [soa_rr]"
      and a: "answer_query H (config h) (q_name q) (qname_text H (q_name q)) (q_type q)
       (txt_values (config h) (acme h') (qname_text H (q_name q)) (q_type q)) soa_rr
       (add_authority soa_rr (add_query q (response_header H request))) = Some m"
    have "answers m = map (txt_record name (txt_ttl (config h))) (store_values (acme h') (acme_name (config h)))"
      using a assms(2,5,6) n
      by (auto simp: answer_query_def txt_records_def txt_values_def Let_def fold_add_answer split: if_splits)
    moreover have "set (store_values (acme h') (acme_name (config h))) =
        {v. expire now (store_view (acme h)) (acme_name (config h)) v \<noteq> None}"
      using acme.get_values [OF wf, of now "acme_name (config h)"] by (simp add: h' fst_get_with_serial)
    ultimately show ?thesis using n s by simp
  qed
qed

text \<open>
  C20. A TXT query for the challenge name is answered with one record per value that is live at
  the moment of the query, in the order of presentation and with the configured TTL, and with
  nothing else; the authority section of the same message has the serial of that same version.
\<close>

theorem txt_answer_live_values:
  assumes "handler_ok H h" and "response_law H" and "accepted H (config h) request q"
    and "build_response H now request h = Some (m, h')"
    and "q_type q = TXT" and "qname_text H (q_name q) = acme_name (config h)"
  shows "\<exists>name. from_ascii H (acme_name (config h)) = Inr name \<and>
    answers m = map (txt_record name (txt_ttl (config h))) (store_values (acme h') (acme_name (config h))) \<and>
    set (store_values (acme h') (acme_name (config h))) =
      {v. expire now (store_view (acme h)) (acme_name (config h)) v \<noteq> None} \<and>
    map (soa_serial \<circ> rr_data) (authorities m) = [store_serial (acme h')]"
  using assms by (rule txt_answer)

text \<open>
  An address query in the zone gets at most one record, owned by the name as it was asked:
  the server's own address for the zone and its nameservers, otherwise the address written in the
  name; with neither there is no answer.
\<close>

theorem a_answer_address:
  assumes "handler_ok H h" and "response_law H" and "accepted H (config h) request q"
    and "build_response H now request h = Some (m, h')" and "q_type q = A"
  shows "answers m =
    (let text = qname_text H (q_name q); c = config h;
         address = (if text \<in> {domain c, ns_hostname c, ns_hostname2 c} then Some (ns_ip c)
                    else parse_xip_ip text (domain c))
     in case address of
          None \<Rightarrow> []
        | Some ip \<Rightarrow> [\<lparr>rr_name = q_name q, rr_ttl = default_ttl c, rr_data = RA ip\<rparr>])"
proof (rule accepted_sections [OF assms(1-4)])
  fix soa_rr
  assume "answer_query H (config h) (q_name q) (qname_text H (q_name q)) (q_type q)
     (txt_values (config h) (acme h') (qname_text H (q_name q)) (q_type q)) soa_rr
     (add_authority soa_rr (add_query q (response_header H request))) = Some m"
  then have m: "m = (case resolve_a (config h) (qname_text H (q_name q)) of
      Some ip \<Rightarrow> add_answer (a_record (config h) (q_name q) ip)
        (add_authority soa_rr (add_query q (response_header H request)))
    | None \<Rightarrow> nxdomain_unless (name_exists (config h) (qname_text H (q_name q)))
        (add_authority soa_rr (add_query q (response_header H request))))"
    using assms(5) by (simp add: answer_query_def)
  show ?thesis
    unfolding m using assms(2)
    by (auto simp: resolve_a_def add_answer_def Let_def split: option.splits)
qed


text \<open>
  C38. The apex of the zone: an NS query gets both nameservers and an address record for each in
  the additional section, an SOA query gets the very SOA record of the authority section.
\<close>

theorem apex_answers:
  assumes "handler_ok H h" and "response_law H" and "accepted H (config h) request q"
    and "build_response H now request h = Some (m, h')"
    and "qname_text H (q_name q) = domain (config h)" and "q_type q \<in> {NS, SOA}"
  shows "if q_type q = SOA then answers m = authorities m
    else \<exists>zone ns1 ns2. from_ascii H (domain (config h)) = Inr zone \<and>
      from_ascii H (ns_hostname (config h)) = Inr ns1 \<and> from_ascii H (ns_hostname2 (config h)) = Inr ns2 \<and>
      map rr_data (answers m) = [RNS ns1, RNS ns2] \<and> map rr_name (answers m) = [zone, zone] \<and>
      map rr_name (additionals m) = [ns1, ns2] \<and>
      map rr_data (additionals m) = [RA (ns_ip (config h)), RA (ns_ip (config h))]"
proof -
  have v: "valid_config H (config h)" using assms(1) by (simp add: handler_ok_def)
  obtain zone ns1 ns2 where n: "from_ascii H (domain (config h)) = Inr zone"
      "from_ascii H (ns_hostname (config h)) = Inr ns1" "from_ascii H (ns_hostname2 (config h)) = Inr ns2"
    using valid_names [OF v] .
  show ?thesis
  proof (rule accepted_sections [OF assms(1-4)])
    fix soa_rr
    assume s: "authorities m = [soa_rr]"
      and a: "answer_query H (config h) (q_name q) (qname_text H (q_name q)) (q_type q)
       (txt_values (config h) (acme h') (qname_text H (q_name q)) (q_type q)) soa_rr
       (add_authority soa_rr (add_query q (response_header H request))) = Some m"
    show ?thesis
      using a assms(2,5,6) n s
      by (auto simp: answer_query_def ns_glue_Some [OF n(2,3)] fold_add_additional ns_record_def)
        (auto simp: message_build_defs)
  qed
qed

text \<open>
  No record is invented: a type the zone has no data of gets no answer, an NS or SOA query has
  answers only at the apex, and a TXT query only at the challenge name.
\<close>

theorem no_data_elsewhere:
  assumes "handler_ok H h" and "response_law H" and "accepted H (config h) request q"
    and "build_response H now request h = Some (m, h')" and "answers m \<noteq> []"
  shows "q_type q \<in> {SOA, NS} \<and> qname_text H (q_name q) = domain (config h) \<or>
    q_type q = TXT \<and> qname_text H (q_name q) = acme_name (config h) \<or> q_type q = A"
proof (rule accepted_sections [OF assms(1-4)])
  fix soa_rr
  assume "answer_query H (config h) (q_name q) (qname_text H (q_name q)) (q_type q)
     (txt_values (config h) (acme h') (qname_text H (q_name q)) (q_type q)) soa_rr
     (add_authority soa_rr (add_query q (response_header H request))) = Some m"
  then show ?thesis
    using assms(2,5)
    by (auto simp: answer_query_def txt_records_def Let_def split: record_type.splits if_splits)
qed

lemma answer_query_same:
  assumes "answer_query H c qn qs qt vs soa_rr m = Some r" and "answer_query H c qn' qs qt vs soa_rr m' = Some r'"
    and "answers m = []" "answers m' = []" "additionals m = []" "additionals m' = []"
  shows "map rr_data (answers r') = map rr_data (answers r) \<and> additionals r' = additionals r"
  using assms
  by (cases qt; cases "resolve_a c qs")
    (auto simp: answer_query_def Let_def bind_eq_Some_conv fold_add_answer fold_add_additional
      add_answer_def nxdomain_unless_def split: if_splits)

text \<open>
  C37. Letter case decides nothing: two queries at the same moment that differ only in the case of
  the name, as with the randomised case of some resolvers, get the same code, the same authority
  and additional records and the same answer data.
\<close>

theorem case_insensitive:
  assumes "handler_ok H h" and "response_law H"
    and "accepted H (config h) request q" and "accepted H (config h) request' q'"
    and "q_type q' = q_type q" and "to_lowercase (to_ascii H (q_name q')) = to_lowercase (to_ascii H (q_name q))"
    and "build_response H now request h = Some (m, h1)" and "build_response H now request' h = Some (m', h2)"
  shows "response_code m' = response_code m \<and> authorities m' = authorities m \<and>
    additionals m' = additionals m \<and> map rr_data (answers m') = map rr_data (answers m) \<and> h2 = h1"
proof -
  have same: "qname_text H (q_name q') = qname_text H (q_name q)"
    by (simp add: qname_text_def assms(6) flip: trim_end_matches_lowercase)
  have code: "response_code m' = response_code m"
    using build_response_rcode [OF assms(1,2,7)] build_response_rcode [OF assms(1,2,8)] assms(3,4) same
    by (auto simp: spec_rcode_def accepted_def)
  show ?thesis
  proof (rule accepted_sections [OF assms(1-3,7)], rule accepted_sections [OF assms(1,2,4,8)])
    fix s1 s2
    assume h: "h1 = h\<lparr>acme := refresh_zone now (acme h)\<rparr>" "h2 = h\<lparr>acme := refresh_zone now (acme h)\<rparr>"
      and s: "authorities m = [s1]" "authorities m' = [s2]" "soa H (config h) (store_serial (acme h1)) = Some s1"
        "soa H (config h) (store_serial (acme h2)) = Some s2"
      and a: "answer_query H (config h) (q_name q) (qname_text H (q_name q)) (q_type q)
         (txt_values (config h) (acme h1) (qname_text H (q_name q)) (q_type q)) s1
         (add_authority s1 (add_query q (response_header H request))) = Some m"
        "answer_query H (config h) (q_name q') (qname_text H (q_name q')) (q_type q')
         (txt_values (config h) (acme h2) (qname_text H (q_name q')) (q_type q')) s2
         (add_authority s2 (add_query q' (response_header H request'))) = Some m'"
    have "h2 = h1" and "s2 = s1" using h s by auto
    with answer_query_same [OF a(1) a(2) [unfolded same assms(5) \<open>h2 = h1\<close> \<open>s2 = s1\<close>]] assms(2) s code
    show ?thesis by simp
  qed
qed

subsection \<open>Bytes\<close>

text \<open>
  C22. What goes out over TCP, for every request: nothing when the request cannot be read or is not
  a query; otherwise an encoding of the response that reads back complete, or the encoded server
  failure for this request. The handler never panics and stays well formed, so this holds of every
  later request too.
\<close>

theorem tcp_reply_complete_or_servfail:
  assumes "handler_ok H h"
  shows "\<exists>reply h'. handle H now raw h = Some (reply, h') \<and> handler_ok H h' \<and> config h' = config h \<and>
    (case from_vec H raw of
       None \<Rightarrow> reply = [] \<and> h' = h
     | Some request \<Rightarrow>
         if message_type request \<noteq> QueryMessage then reply = [] \<and> h' = h
         else reply = servfail H request \<or>
           (\<exists>m d. build_response H now request h = Some (m, h') \<and> to_vec H m = Some reply \<and>
              from_vec H reply = Some d \<and> \<not> truncation d))"
proof (cases "from_vec H raw")
  case None
  with assms show ?thesis by (simp add: handle_def)
next
  case (Some request)
  show ?thesis
  proof (rule build_response_total [OF assms, of now request])
    fix m h'
    assume "build_response H now request h = Some (m, h')" "handler_ok H h'" "config h' = config h"
    with Some assms show ?thesis
      by (auto simp: handle_def encode_complete_or_servfail_def split: option.splits)
  qed
qed

text \<open>
  C23. What goes out over UDP: the handler never panics; a reply is at most 1232 bytes and at most
  what the request's EDNS allows, unless it is the truncated form of the response (which tells
  the client to use TCP) or, where even that cannot be encoded, the server failure.
\<close>

theorem udp_reply_bounded:
  assumes "handler_ok H h"
  shows "\<exists>reply h'. handle_udp H now raw h = Some (reply, h') \<and> handler_ok H h' \<and> config h' = config h \<and>
    (reply = [] \<or>
     (\<exists>request m. from_vec H raw = Some request \<and> message_type request = QueryMessage \<and>
        build_response H now request h = Some (m, h') \<and>
        (length reply \<le> 1232 \<and> length reply \<le> unat (message_max_payload H request) \<or>
         to_vec H (truncate_message H m) = Some reply \<or>
         to_vec H (truncate_message H m) = None \<and> reply = servfail H request)))"
proof (cases "from_vec H raw")
  case None
  with assms show ?thesis by (simp add: handle_udp_def)
next
  case (Some request)
  have le: "l \<le> unat (min (message_max_payload H request) MAX_UDP_PAYLOAD) \<longleftrightarrow>
      l \<le> 1232 \<and> l \<le> unat (message_max_payload H request)" for l
    by (auto simp: min_def word_le_nat_alt MAX_UDP_PAYLOAD_def)
  show ?thesis
  proof (rule build_response_total [OF assms, of now request])
    fix m h'
    assume "build_response H now request h = Some (m, h')" "handler_ok H h'" "config h' = config h"
    with Some assms show ?thesis
      by (cases "message_type request") (auto simp: handle_udp_def Let_def le split: option.splits)
  qed
qed

end
