(* ===== verification/Server.thy ===== *)
theory Server
  imports Dns_Answers Gate
begin

text \<open>
  Model of the listeners of \<open>src/main.rs\<close>: the framing and the request loop of one TCP connection,
  the datagram loop, and the permits that bound the open connections. A connection is the bytes
  its client sends before it closes, fails or stalls (the code leaves the loop in the same way in
  all three cases); \<open>wr i\<close> says whether the write of the reply to message \<open>i\<close> succeeds in time,
  \<open>clock i\<close> is the time of that message, and \<open>env i\<close> what the other tasks did to the shared state
  before it. The loops are parameterised by the handler, an interface given by the locale
  \<open>dns_service\<close>.
\<close>

subsection \<open>Framing\<close>

definition from_be_bytes :: "u8 \<Rightarrow> u8 \<Rightarrow> nat" where
  "from_be_bytes hi lo = 256 * unat hi + unat lo"

definition to_be_bytes :: "nat \<Rightarrow> bytes" where
  "to_be_bytes n = [word_of_nat (n div 256), word_of_nat (n mod 256)]"

lemma to_be_bytes_inverse:
  assumes "n < 65536"
  shows "\<exists>hi lo. to_be_bytes n = [hi, lo] \<and> from_be_bytes hi lo = n"
proof -
  have "unat (word_of_nat (n div 256) :: u8) = n div 256" "unat (word_of_nat (n mod 256) :: u8) = n mod 256"
    using assms by (simp_all add: unat_of_nat)
  then show ?thesis by (simp add: to_be_bytes_def from_be_bytes_def)
qed

lemma length_to_be_bytes [simp]: "length (to_be_bytes n) = 2"
  by (simp add: to_be_bytes_def)

type_synonym 's service = "instant \<Rightarrow> bytes \<Rightarrow> 's \<Rightarrow> (bytes \<times> 's) option"

subsection \<open>One TCP connection\<close>

text \<open>
  The loop over the messages of a connection: the replies written, framed, and the state after the
  last message. Each round consumes the two length bytes, so the loop ends with the input.
\<close>

function tcp_session :: "'s service \<Rightarrow> (nat \<Rightarrow> bool) \<Rightarrow> (nat \<Rightarrow> instant) \<Rightarrow> (nat \<Rightarrow> 's \<Rightarrow> 's) \<Rightarrow>
    nat \<Rightarrow> bytes \<Rightarrow> 's \<Rightarrow> (bytes list \<times> 's) option" where
  "tcp_session svc wr clock env i [] s = Some ([], s)"
| "tcp_session svc wr clock env i [b] s = Some ([], s)"
| "tcp_session svc wr clock env i (b0 # b1 # rest) s =
     (let msg_len = from_be_bytes b0 b1
      in if msg_len = 0 then Some ([], s)
         else if length rest < msg_len then Some ([], s)
         else case svc (clock i) (take msg_len rest) (env i s) of
                None \<Rightarrow> None
              | Some (reply, s) \<Rightarrow>
                  if reply = [] then Some ([], s)
                  else if length reply > 65535 then Some ([], s)
                  else if \<not> wr i then Some ([], s)
                  else map_option (\<lambda>(out, s). ((to_be_bytes (length reply) @ reply) # out, s))
                         (tcp_session svc wr clock env (Suc i) (drop msg_len rest) s))"
  by pat_completeness auto
termination
  by (relation "measure (\<lambda>(svc, wr, clock, env, i, inp, s). length inp)") auto

text \<open>How a client reads frames, and the frames a client sends.\<close>

function read_frames :: "bytes \<Rightarrow> bytes list" where
  "read_frames [] = []"
| "read_frames [b] = []"
| "read_frames (b0 # b1 # rest) =
     (let n = from_be_bytes b0 b1
      in if n = 0 \<or> length rest < n then [] else take n rest # read_frames (drop n rest))"
  by pat_completeness auto
termination
  by (relation "measure length") auto

definition frame :: "bytes \<Rightarrow> bytes" where
  "frame m = to_be_bytes (length m) @ m"

lemma frame_cases:
  assumes "length m < 65536"
  obtains hi lo where "frame m = hi # lo # m" "from_be_bytes hi lo = length m"
  using to_be_bytes_inverse [OF assms] by (auto simp: frame_def)

lemma read_frames_frame:
  assumes "0 < length m" and "length m < 65536"
  shows "read_frames (frame m @ rest) = m # read_frames rest"
  by (rule frame_cases [OF assms(2)]) (use assms(1) in simp)

lemma read_frames_concat:
  "\<forall>m\<in>set ms. 0 < length m \<and> length m < 65536 \<Longrightarrow> read_frames (concat (map frame ms)) = ms"
  by (induction ms) (auto simp: read_frames_frame)

subsection \<open>One round of the loop\<close>

text \<open>One round of the loop, when a whole message is there.\<close>

lemma tcp_session_message:
  assumes "0 < length m" and "length m < 65536"
  shows "tcp_session svc wr clock env i (frame m @ rest) s =
    (case svc (clock i) m (env i s) of
       None \<Rightarrow> None
     | Some (reply, s) \<Rightarrow>
         if reply = [] then Some ([], s)
         else if length reply > 65535 then Some ([], s)
         else if \<not> wr i then Some ([], s)
         else map_option (\<lambda>(out, s). (frame reply # out, s))
                (tcp_session svc wr clock env (Suc i) rest s))"
  by (rule frame_cases [OF assms(2)]) (use assms(1) in \<open>simp add: frame_def Let_def split: option.split prod.split\<close>)

text \<open>The replies to a list of messages, one after the other.\<close>

primrec answer_all :: "'s service \<Rightarrow> (nat \<Rightarrow> instant) \<Rightarrow> (nat \<Rightarrow> 's \<Rightarrow> 's) \<Rightarrow> nat \<Rightarrow> bytes list \<Rightarrow> 's \<Rightarrow>
    (bytes list \<times> 's) option" where
  "answer_all svc clock env i [] s = Some ([], s)"
| "answer_all svc clock env i (m # ms) s =
     (case svc (clock i) m (env i s) of
        None \<Rightarrow> None
      | Some (reply, s) \<Rightarrow>
          map_option (\<lambda>(rs, s). (reply # rs, s)) (answer_all svc clock env (Suc i) ms s))"

text \<open>Whether the reply to message \<open>i\<close> goes out.\<close>

definition sendable :: "(nat \<Rightarrow> bool) \<Rightarrow> nat \<Rightarrow> bytes \<Rightarrow> bool" where
  "sendable wr i reply \<longleftrightarrow> reply \<noteq> [] \<and> length reply \<le> 65535 \<and> wr i"

text \<open>Any other start of the input ends the loop.\<close>

lemma tcp_session_cases:
  obtains (stop) "\<And>s. tcp_session svc wr clock env i inp s = Some ([], s)" "read_frames inp = []"
  | (message) m rest where "inp = frame m @ rest" "0 < length m" "length m < 65536"
proof (cases "\<exists>b0 b1 r. inp = b0 # b1 # r \<and> 0 < from_be_bytes b0 b1 \<and> from_be_bytes b0 b1 \<le> length r")
  case False
  then have "tcp_session svc wr clock env i inp s = Some ([], s)" for s
    by (cases inp rule: read_frames.cases) (auto simp: Let_def not_le)
  moreover have "read_frames inp = []"
    using False by (cases inp rule: read_frames.cases) (auto simp: Let_def not_le)
  ultimately show thesis by (rule stop)
next
  case True
  then obtain b0 b1 r where i: "inp = b0 # b1 # r" "0 < from_be_bytes b0 b1" "from_be_bytes b0 b1 \<le> length r"
    by blast
  have bound: "unat b0 < 256" "unat b1 < 256"
    using unsigned_less [of b0] unsigned_less [of b1] by simp_all
  let ?m = "take (from_be_bytes b0 b1) r"
  have len: "length ?m = from_be_bytes b0 b1" using i(3) by simp
  have "to_be_bytes (from_be_bytes b0 b1) = [b0, b1]"
    using bound by (simp add: to_be_bytes_def from_be_bytes_def)
  then have "inp = frame ?m @ drop (from_be_bytes b0 b1) r" using i(1) by (simp add: frame_def len del: length_take)
  moreover have "length ?m < 65536" unfolding len using bound by (simp add: from_be_bytes_def)
  ultimately show thesis using message i(2) len by metis
qed

subsection \<open>Datagrams\<close>

text \<open>
  The UDP loop over the datagrams that arrive: each is cut to the receive buffer, and an empty
  reply is not sent.
\<close>

definition UDP_BUFFER :: nat where "UDP_BUFFER = 1500"

fun udp_loop :: "'s service \<Rightarrow> (nat \<Rightarrow> instant) \<Rightarrow> (nat \<Rightarrow> 's \<Rightarrow> 's) \<Rightarrow> nat \<Rightarrow> bytes list \<Rightarrow> 's \<Rightarrow>
    (bytes option list \<times> 's) option" where
  "udp_loop svc clock env i [] s = Some ([], s)"
| "udp_loop svc clock env i (d # ds) s =
     (case svc (clock i) (take UDP_BUFFER d) (env i s) of
        None \<Rightarrow> None
      | Some (reply, s) \<Rightarrow>
          map_option (\<lambda>(out, s). ((if reply = [] then None else Some reply) # out, s))
            (udp_loop svc clock env (Suc i) ds s))"

subsection \<open>Connections\<close>

definition MAX_HTTP_CONNECTIONS :: nat where "MAX_HTTP_CONNECTIONS = 128"
definition MAX_CONNECTIONS :: nat where "MAX_CONNECTIONS = 1024"

text \<open>
  The HTTP listener accepts first and drops the connection when no permit is free. The TCP DNS
  listener waits for a permit first (\<open>None\<close>: it has to wait) and gives it back when the accept
  fails. A connection's task gives its permit back when it ends.
\<close>

definition http_accept :: "'sem semaphore \<Rightarrow> 'sem \<Rightarrow> bool \<times> 'sem" where
  "http_accept S p = (case sem_try_acquire S p of None \<Rightarrow> (False, p) | Some p \<Rightarrow> (True, p))"

definition tcp_accept :: "'sem semaphore \<Rightarrow> bool \<Rightarrow> 'sem \<Rightarrow> (bool \<times> 'sem) option" where
  "tcp_accept S conn_ok p =
     (case sem_try_acquire S p of
        None \<Rightarrow> None
      | Some p \<Rightarrow> Some (if conn_ok then (True, p) else (False, sem_release S p)))"

inductive http_connections :: "'sem semaphore \<Rightarrow> 'sem \<Rightarrow> nat \<Rightarrow> bool" for S where
  http_start: "http_connections S (sem_new S MAX_HTTP_CONNECTIONS) 0"
| http_open: "http_connections S p k \<Longrightarrow> http_accept S p = (True, p') \<Longrightarrow> http_connections S p' (Suc k)"
| http_drop: "http_connections S p k \<Longrightarrow> http_accept S p = (False, p') \<Longrightarrow> http_connections S p' k"
| http_close: "http_connections S p (Suc k) \<Longrightarrow> http_connections S (sem_release S p) k"

inductive tcp_connections :: "'sem semaphore \<Rightarrow> 'sem \<Rightarrow> nat \<Rightarrow> bool" for S where
  tcp_start: "tcp_connections S (sem_new S MAX_CONNECTIONS) 0"
| tcp_open: "tcp_connections S p k \<Longrightarrow> tcp_accept S a p = Some (True, p') \<Longrightarrow> tcp_connections S p' (Suc k)"
| tcp_failed: "tcp_connections S p k \<Longrightarrow> tcp_accept S a p = Some (False, p') \<Longrightarrow> tcp_connections S p' k"
| tcp_close: "tcp_connections S p (Suc k) \<Longrightarrow> tcp_connections S (sem_release S p) k"

lemma sem_laws:
  assumes "semaphore_law S"
  shows "sem_available S (sem_new S n) = n" "sem_try_acquire S p = None \<longleftrightarrow> sem_available S p = 0"
    "sem_try_acquire S p = Some p' \<Longrightarrow> sem_available S p = Suc (sem_available S p')"
    "sem_available S (sem_release S p) = Suc (sem_available S p)"
  using assms unfolding semaphore_law_def by blast+

lemma http_connections_permits:
  assumes "semaphore_law S" and "http_connections S p k"
  shows "sem_available S p + k = 128"
  using assms(2)
  by (induction rule: http_connections.induct)
    (auto simp: sem_laws [OF assms(1)] MAX_HTTP_CONNECTIONS_def http_accept_def
      dest: sem_laws(3) [OF assms(1)] split: option.splits)

lemma tcp_connections_permits:
  assumes "semaphore_law S" and "tcp_connections S p k"
  shows "sem_available S p + k = 1024"
  using assms(2)
  by (induction rule: tcp_connections.induct)
    (auto simp: sem_laws [OF assms(1)] MAX_CONNECTIONS_def tcp_accept_def
      dest: sem_laws(3) [OF assms(1)] split: option.splits if_splits)

subsection \<open>The handler, as the listeners see it\<close>

locale dns_service =
  fixes inv :: "'s \<Rightarrow> bool"
    and svc :: "'s service"
  assumes svc_total: "inv s \<Longrightarrow> \<exists>reply s'. svc now raw s = Some (reply, s') \<and> inv s'"
begin

text \<open>
  A connection never panics, whatever its client sends, as long as the other tasks keep the
  invariant. It answers the messages in order up to the first reply that is not sent; what it writes
  are the replies before that one, framed.
\<close>

lemma session_total:
  assumes env: "\<forall>i s. inv s \<longrightarrow> inv (env i s)" and "inv s"
  shows "\<exists>sent unsent s'. tcp_session svc wr clock env i inp s = Some (map frame sent, s') \<and> inv s' \<and>
    answer_all svc clock env i (take (length sent + length unsent) (read_frames inp)) s = Some (sent @ unsent, s') \<and>
    (\<forall>j<length sent. sendable wr (i + j) (sent ! j)) \<and>
    (unsent = [] \<and> length sent = length (read_frames inp) \<or>
     (\<exists>r. unsent = [r] \<and> \<not> sendable wr (i + length sent) r))"
  using assms(2)
proof (induction "length inp" arbitrary: i inp s rule: less_induct)
  case less
  show ?case
  proof (cases rule: tcp_session_cases [of svc wr clock env i inp])
    case stop
    with less.prems show ?thesis by (intro exI [of _ "[]"]) simp
  next
    case (message m rest)
    obtain reply s1 where r: "svc (clock i) m (env i s) = Some (reply, s1)" "inv s1"
      using svc_total env less.prems by blast
    note one = tcp_session_message [OF message(2,3), of svc wr clock env i rest s]
    show ?thesis
    proof (cases "sendable wr i reply")
      case False
      with one r show ?thesis unfolding message(1) read_frames_frame [OF message(2,3)]
        by (intro exI [of _ "[]"] exI [of _ "[reply]"] exI [of _ s1]) (auto simp: sendable_def)
    next
      case True
      have "length rest < length inp" by (simp add: message(1) frame_def)
      from less.hyps [OF this r(2), of "Suc i"] obtain sent unsent s2 where IH:
        "tcp_session svc wr clock env (Suc i) rest s1 = Some (map frame sent, s2)" "inv s2"
        "answer_all svc clock env (Suc i) (take (length sent + length unsent) (read_frames rest)) s1 = Some (sent @ unsent, s2)"
        "\<forall>j<length sent. sendable wr (Suc i + j) (sent ! j)"
        "unsent = [] \<and> length sent = length (read_frames rest) \<or> (\<exists>r. unsent = [r] \<and> \<not> sendable wr (Suc i + length sent) r)"
        by blast
      have "\<forall>j<length (reply # sent). sendable wr (i + j) ((reply # sent) ! j)"
        using True IH(4) by (auto simp: less_Suc_eq_0_disj)
      moreover have "tcp_session svc wr clock env i inp s = Some (map frame (reply # sent), s2)"
        using True one r(1) IH(1) unfolding message(1) by (simp add: sendable_def)
      ultimately show ?thesis
        using r(1) IH(2,3,5) unfolding message(1) read_frames_frame [OF message(2,3)]
        by (intro exI [of _ "reply # sent"] exI [of _ unsent] exI [of _ s2]) simp
    qed
  qed
qed

text \<open>The datagram loop serves every datagram.\<close>

lemma udp_total:
  assumes env: "\<forall>i s. inv s \<longrightarrow> inv (env i s)" and "inv s"
  shows "\<exists>out s'. udp_loop svc clock env i ds s = Some (out, s') \<and> inv s' \<and> length out = length ds"
  using assms(2)
proof (induction ds arbitrary: i s)
  case (Cons d ds)
  obtain reply s1 where r: "svc (clock i) (take UDP_BUFFER d) (env i s) = Some (reply, s1)" "inv s1"
    using svc_total env Cons.prems by blast
  from Cons.IH [OF r(2), of "Suc i"] r(1) show ?case by auto
qed simp

end

subsection \<open>The interpretation on the DNS handler\<close>

lemma handle_total [panic_free]:
  assumes "handler_ok H h"
  shows "\<exists>reply h'. handle H now raw h = Some (reply, h') \<and> handler_ok H h'"
proof (cases "from_vec H raw")
  case (Some request)
  show ?thesis
    by (rule build_response_total [OF assms, of now request]) (use Some assms in \<open>auto simp: handle_def\<close>)
qed (use assms in \<open>simp add: handle_def\<close>)

lemma handle_udp_total [panic_free]:
  assumes "handler_ok H h"
  shows "\<exists>reply h'. handle_udp H now raw h = Some (reply, h') \<and> handler_ok H h'"
proof (cases "from_vec H raw")
  case (Some request)
  show ?thesis
    by (rule build_response_total [OF assms, of now request])
      (use Some assms in \<open>auto simp: handle_udp_def Let_def\<close>)
qed (use assms in \<open>simp add: handle_udp_def\<close>)

interpretation tcp: dns_service "handler_ok H" "handle H" for H
  by unfold_locales (rule handle_total)

interpretation udp: dns_service "handler_ok H" "handle_udp H" for H
  by unfold_locales (rule handle_udp_total)

subsection \<open>Properties\<close>

text \<open>
  C33. A TCP connection, whatever its client sends, whichever writes succeed, and in any
  interleaving with other tasks that keep the handler well formed. It ends without a panic. Its
  messages are handled in order; what the client gets are exactly the handler's replies to them,
  each as one frame, in the order of the messages, and it reads them back as those replies. The
  connection goes on to the last whole message, or stops at the first whose reply is empty, does
  not fit a frame or cannot be written.
\<close>

theorem tcp_connection_frames:
  assumes "\<forall>i h. handler_ok H h \<longrightarrow> handler_ok H (env i h)" and "handler_ok H h"
  shows "\<exists>sent unsent h'. tcp_session (handle H) wr clock env i inp h = Some (map frame sent, h') \<and> handler_ok H h' \<and>
    answer_all (handle H) clock env i (take (length sent + length unsent) (read_frames inp)) h = Some (sent @ unsent, h') \<and>
    read_frames (concat (map frame sent)) = sent \<and>
    (\<forall>j<length sent. sendable wr (i + j) (sent ! j)) \<and>
    (unsent = [] \<and> length sent = length (read_frames inp) \<or>
     (\<exists>r. unsent = [r] \<and> \<not> sendable wr (i + length sent) r))"
proof -
  obtain sent unsent h' where r: "tcp_session (handle H) wr clock env i inp h = Some (map frame sent, h')" "handler_ok H h'"
    "answer_all (handle H) clock env i (take (length sent + length unsent) (read_frames inp)) h = Some (sent @ unsent, h')"
    "\<forall>j<length sent. sendable wr (i + j) (sent ! j)"
    "unsent = [] \<and> length sent = length (read_frames inp) \<or> (\<exists>r. unsent = [r] \<and> \<not> sendable wr (i + length sent) r)"
    using tcp.session_total [OF assms, of wr clock i inp] by blast
  have "\<forall>m\<in>set sent. 0 < length m \<and> length m < 65536"
  proof
    fix m assume "m \<in> set sent"
    then obtain j where "sendable wr (i + j) m" using r(4) by (auto simp: in_set_conv_nth)
    then show "0 < length m \<and> length m < 65536" by (simp add: sendable_def)
  qed
  from read_frames_concat [OF this] r show ?thesis by blast
qed

text \<open>
  C32. A conversation in order: when a client sends messages of 1 to 65535 bytes back to back, and
  the handler's successive replies are not empty, fit a frame and are written, the client gets
  exactly those replies, framed, in the order of its messages.
\<close>

theorem tcp_conversation:
  assumes "\<forall>m\<in>set ms. 0 < length m \<and> length m < 65536"
    and "answer_all (handle H) clock env i ms h = Some (replies, h')"
    and "\<forall>r\<in>set replies. 0 < length r \<and> length r < 65536" and "\<forall>i. wr i"
  shows "tcp_session (handle H) wr clock env i (concat (map frame ms)) h = Some (map frame replies, h')"
  using assms(1-3)
proof (induction ms arbitrary: i h replies)
  case Nil
  then show ?case by simp
next
  case (Cons m ms)
  then obtain reply h1 rs where "handle H (clock i) m (env i h) = Some (reply, h1)"
      "answer_all (handle H) clock env (Suc i) ms h1 = Some (rs, h')" "replies = reply # rs"
    by (auto split: option.splits)
  with Cons assms(4) show ?case by (simp add: tcp_session_message)
qed

text \<open>
  The datagram loop survives every datagram: for any sequence of them, of any content and
  length, it never panics and handles each exactly once.
\<close>

theorem udp_loop_serves_all:
  assumes "\<forall>i h. handler_ok H h \<longrightarrow> handler_ok H (env i h)" and "handler_ok H h"
  shows "\<exists>out h'. udp_loop (handle_udp H) clock env i ds h = Some (out, h') \<and> handler_ok H h' \<and>
    length out = length ds"
  by (rule udp.udp_total [OF assms])

text \<open>
  Open connections are bounded in every interleaving of accepts and closes: at most 128 over
  HTTP, where one more is dropped exactly when 128 are open, and at most 1024 over TCP DNS, where
  the listener stops accepting exactly when 1024 are.
\<close>

theorem connections_bounded:
  assumes "semaphore_law S"
  shows "(http_connections S p k \<longrightarrow> k \<le> 128 \<and> (fst (http_accept S p) \<longleftrightarrow> k < 128)) \<and>
    (tcp_connections S p k \<longrightarrow> k \<le> 1024 \<and> (tcp_accept S a p = None \<longleftrightarrow> k = 1024))"
proof (intro conjI impI)
  assume "http_connections S p k"
  from http_connections_permits [OF assms this] show "k \<le> 128"
    and "fst (http_accept S p) \<longleftrightarrow> k < 128"
    using sem_laws(2) [OF assms, of p] by (auto simp: http_accept_def split: option.splits)
next
  assume "tcp_connections S p k"
  from tcp_connections_permits [OF assms this] show "k \<le> 1024"
    and "tcp_accept S a p = None \<longleftrightarrow> k = 1024"
    using sem_laws(2) [OF assms, of p] by (auto simp: tcp_accept_def split: option.splits)
qed

end
