(* ===== verification/System.thy ===== *)
theory System
  imports Api_Spec Server
begin

text \<open>
  The program as a whole: start-up (\<open>main\<close> in \<open>src/main.rs\<close>) and the one store that the DNS
  handler and the HTTP API share. An event is one request to a listener with the clock readings it
  makes; because the store is behind a lock, what concurrent tasks do to it is a sequence of
  events. Every event is at most one operation of the store, so a history of the program is a
  history of the store.
\<close>

subsection \<open>State\<close>

record ('nm, 'sem) system =
  sys_config :: config
  sys_acme :: "'nm acme_records"
  sys_gate :: "'sem request_gate"

definition dns_view :: "('nm, 'sem) system \<Rightarrow> 'nm dns_handler" where
  "dns_view s = \<lparr>config = sys_config s, acme = sys_acme s\<rparr>"

definition api_view :: "('nm, 'sem) system \<Rightarrow> ('nm, 'sem) api_state" where
  "api_view s = \<lparr>api_config = sys_config s, api_acme = sys_acme s, api_gate = sys_gate s\<rparr>"

text \<open>
  \<open>main\<close> up to the listeners: the command line, the validation, the store with the serial from the
  wall clock, the router. The outer \<open>option\<close> is a panic, the left value the error it exits with.
\<close>

definition startup :: "'nm hickory \<Rightarrow> clap \<Rightarrow> 'sem semaphore \<Rightarrow> (string \<Rightarrow> string option) \<Rightarrow> int \<Rightarrow> instant \<Rightarrow>
    (string + ('nm, 'sem) system) option" where
  "startup H C S args timestamp now =
     (case parse_config H C args of
        Inl error \<Rightarrow> Some (Inl error)
      | Inr c \<Rightarrow> do {
          checked \<leftarrow> validate H c;
          case checked of
            Inl error \<Rightarrow> Some (Inl (''invalid configuration: '' @ error))
          | Inr _ \<Rightarrow> do {
              cap \<leftarrow> from_config H c;
              let ar = new_records timestamp (token_lifetime c) (max_tokens c) cap;
              let app = router S now c ar;
              Some (Inr \<lparr>sys_config = c, sys_acme = ar, sys_gate = api_gate app\<rparr>)
            }
        })"

subsection \<open>Events\<close>

datatype 'body event =
    HttpRequest arrival route "'body http_request"
  | TcpQuery instant bytes
  | UdpQuery instant bytes

datatype reply = HttpReply http_response | DnsReply bytes

fun sys_step :: "'nm hickory \<Rightarrow> (zone_records \<Rightarrow> zone_records) \<Rightarrow> ('sem, 'body) http_lib \<Rightarrow>
    'body event \<Rightarrow> ('nm, 'sem) system \<Rightarrow> (reply \<times> ('nm, 'sem) system) option" where
  "sys_step H ho L (HttpRequest a rt req) s =
     map_option (\<lambda>(r, t). (HttpReply r, s\<lparr>sys_acme := api_acme t, sys_gate := api_gate t\<rparr>))
       (serve H ho L a rt req (api_view s))"
| "sys_step H ho L (TcpQuery now raw) s =
     map_option (\<lambda>(r, h). (DnsReply r, s\<lparr>sys_acme := acme h\<rparr>)) (handle H now raw (dns_view s))"
| "sys_step H ho L (UdpQuery now raw) s =
     map_option (\<lambda>(r, h). (DnsReply r, s\<lparr>sys_acme := acme h\<rparr>)) (handle_udp H now raw (dns_view s))"

fun ev_start :: "'body event \<Rightarrow> instant" where
  "ev_start (HttpRequest a rt req) = at_store a"
| "ev_start (TcpQuery now raw) = now"
| "ev_start (UdpQuery now raw) = now"

fun ev_end :: "'body event \<Rightarrow> instant" where
  "ev_end (HttpRequest a rt req) = at_deadline a"
| "ev_end (TcpQuery now raw) = now"
| "ev_end (UdpQuery now raw) = now"

inductive sys_run :: "'nm hickory \<Rightarrow> (zone_records \<Rightarrow> zone_records) \<Rightarrow> ('sem, 'body) http_lib \<Rightarrow>
    instant \<Rightarrow> ('nm, 'sem) system \<Rightarrow> 'body event list \<Rightarrow> instant \<Rightarrow> ('nm, 'sem) system \<Rightarrow> bool"
  for H ho L t0 s0 where
  sys_none: "sys_run H ho L t0 s0 [] t0 s0"
| sys_event: "sys_run H ho L t0 s0 evs t s \<Longrightarrow> t \<le> ev_start ev \<Longrightarrow> ev_start ev \<le> ev_end ev \<Longrightarrow>
    sys_step H ho L ev s = Some (out, s') \<Longrightarrow> sys_run H ho L t0 s0 (evs @ [ev]) (ev_end ev) s'"

subsection \<open>The invariant\<close>

definition sys_ok :: "'nm hickory \<Rightarrow> ('nm, 'sem) system \<Rightarrow> bool" where
  "sys_ok H s \<longleftrightarrow> valid_config H (sys_config s) \<and> store_wf (sys_acme s) \<and>
     soa_ok H (cap_zone (wire_capacity (sys_acme s))) \<and> gate_ok (sys_gate s)"

lemma view_sel [simp]:
  "config (dns_view s) = sys_config s" "acme (dns_view s) = sys_acme s"
  "api_config (api_view s) = sys_config s" "api_acme (api_view s) = sys_acme s"
  "api_gate (api_view s) = sys_gate s"
  by (simp_all add: dns_view_def api_view_def)

lemma sys_ok_views: "sys_ok H s \<longleftrightarrow> handler_ok H (dns_view s) \<and> api_ok H (api_view s)"
  by (auto simp: sys_ok_def handler_ok_def api_ok_def)

lemma serve_total:
  assumes "semaphore_law (sem_lib L)" and "api_ok H s"
  shows "\<exists>r s'. serve H ho L a rt req s = Some (r, s') \<and> api_ok H s' \<and> api_config s' = api_config s"
  using authorize_total [OF assms good_inner_layers [OF good_present]]
    authorize_total [OF assms good_inner_layers [OF good_cleanup]] assms(2)
  by (cases rt) (fastforce simp: serve_def)+

lemma sys_step_total [panic_free]:
  assumes "semaphore_law (sem_lib L)" and "sys_ok H s"
  shows "\<exists>out s'. sys_step H ho L ev s = Some (out, s') \<and> sys_ok H s' \<and> sys_config s' = sys_config s"
proof (cases ev)
  case (HttpRequest a rt req)
  obtain r t where "serve H ho L a rt req (api_view s) = Some (r, t)" "api_ok H t"
    using serve_total [OF assms(1), of H "api_view s" ho a rt req] assms(2) by (auto simp: sys_ok_views)
  with HttpRequest assms(2) show ?thesis by (auto simp: sys_ok_def api_ok_def)
next
  case (TcpQuery now raw)
  obtain r h where "handle H now raw (dns_view s) = Some (r, h)" "handler_ok H h"
    using handle_total [of H "dns_view s" now raw] assms(2) by (auto simp: sys_ok_views)
  with TcpQuery assms(2) show ?thesis by (auto simp: sys_ok_def handler_ok_def)
next
  case (UdpQuery now raw)
  obtain r h where "handle_udp H now raw (dns_view s) = Some (r, h)" "handler_ok H h"
    using handle_udp_total [of H "dns_view s" now raw] assms(2) by (auto simp: sys_ok_views)
  with UdpQuery assms(2) show ?thesis by (auto simp: sys_ok_def handler_ok_def)
qed

lemma sys_run_ok:
  assumes "semaphore_law (sem_lib L)" and "sys_run H ho L t0 s0 evs t s" and "sys_ok H s0"
  shows "sys_ok H s \<and> sys_config s = sys_config s0"
  using assms(2,3)
proof (induction rule: sys_run.induct)
  case (sys_event evs t s ev out s')
  then show ?case using sys_step_total [OF assms(1), of H s ho ev] by auto
qed simp

lemma startup_ok:
  assumes "clap_law C" and "startup H C S args timestamp now = Some (Inr s)"
  shows "sys_ok H s" and "\<exists>cap. from_config H (sys_config s) = Some cap \<and>
    sys_acme s = with_serial (token_lifetime (sys_config s)) (max_tokens (sys_config s)) cap (word_of_int timestamp) \<and>
    sys_gate s = api_gate (router S now (sys_config s) (sys_acme s))"
proof -
  obtain c where "parse_config H C args = Inr c"
    using assms(2) by (cases "parse_config H C args") (auto simp: startup_def)
  moreover from this obtain y where "validate H c = Some y"
    using assms(2) by (cases "validate H c") (auto simp: startup_def)
  ultimately have p: "parse_config H C args = Inr c" "validate H c = Some y" by simp_all
  moreover have "y = Inr ()"
    using assms(2) p by (cases y) (simp_all add: startup_def)
  ultimately obtain cap where c: "parse_config H C args = Inr c" "validate H c = Some (Inr ())"
      "from_config H c = Some cap"
      "s = \<lparr>sys_config = c, sys_acme = new_records timestamp (token_lifetime c) (max_tokens c) cap,
        sys_gate = api_gate (router S now c (new_records timestamp (token_lifetime c) (max_tokens c) cap))\<rparr>"
    using assms(2) by (auto simp: startup_def bind_eq_Some_conv Let_def)
  show "\<exists>cap. from_config H (sys_config s) = Some cap \<and>
    sys_acme s = with_serial (token_lifetime (sys_config s)) (max_tokens (sys_config s)) cap (word_of_int timestamp) \<and>
    sys_gate s = api_gate (router S now (sys_config s) (sys_acme s))"
    using c by (simp add: new_records_def)
  have v: "valid_config H c" using parse_config_ok [OF assms(1) c(1)] c(2) by (simp add: valid_config_def)
  have "soa_ok H (cap_zone cap)"
    using valid_config_soa_ok [OF v] c(3) by (simp add: from_config_eq_Some)
  moreover have "gate_ok (api_gate (router S now c ar))" for ar :: "'a acme_records"
    using valid_config_tokens [OF v] by (intro router_gate_ok) simp
  ultimately show "sys_ok H s" using v c(4) by (simp add: sys_ok_def new_records_def)
qed

subsection \<open>What an event does to the store\<close>

lemma serve_store:
  assumes "serve H ho L a rt req s = Some (r, s')"
  obtains (same) "api_acme s' = api_acme s"
  | (presented) b res where "rt = Present" "json_present L 1024 req = Inr b"
      "add H ho (at_store a) (at_deadline a) (acme_name (api_config s)) (present_value b) (api_acme s) =
         Some (res, api_acme s')"
  | (withdrawn) b where "rt = Cleanup" "json_present L 1024 req = Inr b"
      "api_acme s' = remove (at_store a) (acme_name (api_config s)) (present_value b) (api_acme s)"
proof (cases "api_acme s' = api_acme s")
  case True
  then show thesis by (rule same)
next
  case False
  show thesis
  proof (cases rt)
    case Health
    with assms False show thesis by (simp add: serve_def)
  next
    case Present
    with assms have "authorize_and_admit L (at_gate a)
        (inner_layers L (in_time a) (present H ho (at_store a) (at_deadline a))) req s = Some (r, s')"
      by (simp add: serve_def)
    then obtain g t where t: "inner_layers L (in_time a) (present H ho (at_store a) (at_deadline a)) req
        (s\<lparr>api_gate := g\<rparr>) = Some (r, t)" "api_acme s' = api_acme t"
      using False by (rule authorize_Some)
    obtain b x where j: "json_present L 1024 req = Inr b"
        and p: "present H ho (at_store a) (at_deadline a) b (s\<lparr>api_gate := g\<rparr>) = Some (x, t)"
      by (rule inner_layers_Some [OF t(1)]) (use False t(2) in auto)
    show thesis
    proof (cases "validate_request b (api_config s)")
      case (Inl e)
      with p t(2) False show thesis by (auto simp: present_def)
    next
      case (Inr n)
      then have "n = acme_name (api_config s)" by (simp add: validate_request_eq_Inr)
      with Inr p t(2) have "\<exists>res. add H ho (at_store a) (at_deadline a) (acme_name (api_config s))
          (present_value b) (api_acme s) = Some (res, api_acme s')"
        by (auto simp: present_def bind_eq_Some_conv)
      with Present j show thesis using presented by blast
    qed
  next
    case Cleanup
    with assms have "authorize_and_admit L (at_gate a)
        (inner_layers L (in_time a) (\<lambda>b s. Some (cleanup (at_store a) b s))) req s = Some (r, s')"
      by (simp add: serve_def)
    then obtain g t where t: "inner_layers L (in_time a) (\<lambda>b s. Some (cleanup (at_store a) b s)) req
        (s\<lparr>api_gate := g\<rparr>) = Some (r, t)" "api_acme s' = api_acme t"
      using False by (rule authorize_Some)
    obtain b x where j: "json_present L 1024 req = Inr b"
        and p: "Some (cleanup (at_store a) b (s\<lparr>api_gate := g\<rparr>)) = Some (x, t)"
      by (rule inner_layers_Some [OF t(1)]) (use False t(2) in auto)
    show thesis
    proof (cases "validate_request b (api_config s)")
      case (Inl e)
      with p t(2) False show thesis by (auto simp: cleanup_def)
    next
      case (Inr n)
      then have "n = acme_name (api_config s)" by (simp add: validate_request_eq_Inr)
      with Inr p t(2) have "api_acme s' = remove (at_store a) (acme_name (api_config s)) (present_value b) (api_acme s)"
        by (auto simp: cleanup_def)
      with Cleanup j show thesis using withdrawn by blast
    qed
  qed
qed

lemma handle_store:
  assumes "handler_ok H h" and "handle H now raw h = Some (r, h') \<or> handle_udp H now raw h = Some (r, h')"
  shows "acme h' = acme h \<or> acme h' = refresh_zone now (acme h)"
proof (cases "from_vec H raw")
  case None
  with assms(2) show ?thesis by (auto simp: handle_def handle_udp_def)
next
  case (Some request)
  show ?thesis
    by (rule build_response_total [OF assms(1), of now request])
      (use Some assms(2) in \<open>auto simp: handle_def handle_udp_def Let_def split: if_splits\<close>)
qed

text \<open>The values an event may present or withdraw.\<close>

fun ev_touches :: "('sem, 'body) http_lib \<Rightarrow> string \<Rightarrow> 'body event \<Rightarrow> bool" where
  "ev_touches L v (HttpRequest a rt req) \<longleftrightarrow> rt \<noteq> Health \<and>
     (case json_present L 1024 req of Inl _ \<Rightarrow> False | Inr b \<Rightarrow> present_value b = v)"
| "ev_touches L v (TcpQuery now raw) \<longleftrightarrow> False"
| "ev_touches L v (UdpQuery now raw) \<longleftrightarrow> False"

lemma sys_step_store:
  assumes "sys_ok H s" and "sys_step H ho L ev s = Some (out, s')" and "ev_start ev \<le> ev_end ev"
  obtains (same) "sys_acme s' = sys_acme s"
  | (op) p where "exec_op H ho p (sys_acme s) = Some (sys_acme s')" "op_start p = ev_start ev"
      "op_start p \<le> op_end p" "op_end p \<le> ev_end ev" "adds_only (acme_name (sys_config s)) p"
      "\<And>v. touches (acme_name (sys_config s)) v p \<Longrightarrow> ev_touches L v ev"
proof (cases ev)
  case (HttpRequest a rt req)
  with assms(2) obtain r t where t: "serve H ho L a rt req (api_view s) = Some (r, t)" "sys_acme s' = api_acme t"
    by auto
  from t(1) show thesis
  proof (cases rule: serve_store)
    case same
    with t(2) that(1) show thesis by simp
  next
    case (presented b res)
    let ?p = "Add (at_store a) (at_deadline a) (acme_name (sys_config s)) (present_value b)"
    show thesis
      by (rule that(2) [of ?p]) (use presented t(2) HttpRequest assms(3) in auto)
  next
    case (withdrawn b)
    let ?p = "Remove (at_store a) (acme_name (sys_config s)) (present_value b)"
    show thesis
      by (rule that(2) [of ?p]) (use withdrawn t(2) HttpRequest assms(3) in auto)
  qed
next
  case (TcpQuery now raw)
  with assms have "sys_acme s' = sys_acme s \<or> sys_acme s' = refresh_zone now (sys_acme s)"
    using handle_store [of H "dns_view s" now raw] by (fastforce simp: sys_ok_views)
  then show thesis
    by (rule disjE) (use that(1) that(2) [of "ReadSerial now"] TcpQuery in auto)
next
  case (UdpQuery now raw)
  with assms have "sys_acme s' = sys_acme s \<or> sys_acme s' = refresh_zone now (sys_acme s)"
    using handle_store [of H "dns_view s" now raw] by (fastforce simp: sys_ok_views)
  then show thesis
    by (rule disjE) (use that(1) that(2) [of "ReadSerial now"] UdpQuery in auto)
qed

text \<open>A history of the program, seen from the store.\<close>

lemma sys_run_store:
  assumes law: "semaphore_law (sem_lib L)" and "sys_run H ho L t0 s0 evs t s" and "sys_ok H s0"
  shows "\<exists>ops t'. store_run H ho t0 (sys_acme s0) ops t' (sys_acme s) \<and> t' \<le> t \<and>
    length ops \<le> length evs \<and> (\<forall>p\<in>set ops. adds_only (acme_name (sys_config s0)) p) \<and>
    (\<forall>p\<in>set ops. \<forall>v. touches (acme_name (sys_config s0)) v p \<longrightarrow> (\<exists>ev\<in>set evs. ev_touches L v ev))"
  using assms(2,3)
proof (induction rule: sys_run.induct)
  case sys_none
  then show ?case by (intro exI [of _ "[]"] exI [of _ t0]) (simp add: run_none)
next
  case (sys_event evs t s ev out s')
  then obtain ops t' where IH: "store_run H ho t0 (sys_acme s0) ops t' (sys_acme s)" "t' \<le> t"
      "length ops \<le> length evs" "\<forall>p\<in>set ops. adds_only (acme_name (sys_config s0)) p"
      "\<forall>p\<in>set ops. \<forall>v. touches (acme_name (sys_config s0)) v p \<longrightarrow> (\<exists>ev\<in>set evs. ev_touches L v ev)"
    by blast
  have ok: "sys_ok H s" and c: "sys_config s = sys_config s0"
    using sys_run_ok [OF law sys_event.hyps(1) sys_event.prems] by simp_all
  show ?case
    using ok sys_event.hyps(4,3)
  proof (cases rule: sys_step_store)
    case same
    with IH sys_event.hyps(2,3) show ?thesis
      by (intro exI [of _ ops] exI [of _ t']) auto
  next
    case (op p)
    have "store_run H ho t0 (sys_acme s0) (ops @ [p]) (op_end p) (sys_acme s')"
      using sys_event.hyps(2) op IH(2) by (intro store_run_last [OF IH(1)]) simp_all
    with IH op c show ?thesis
      by (intro exI [of _ "ops @ [p]"] exI [of _ "op_end p"]) auto
  qed
qed

lemma sys_run_untouched:
  assumes "semaphore_law (sem_lib L)" and "sys_run H ho L t0 s0 evs t s" and "sys_ok H s0"
    and "\<forall>ev\<in>set evs. \<not> ev_touches L v ev" and "t \<le> u"
  shows "expire u (store_view (sys_acme s)) (acme_name (sys_config s0)) v =
    expire u (store_view (sys_acme s0)) (acme_name (sys_config s0)) v"
proof -
  obtain ops t' where ops: "store_run H ho t0 (sys_acme s0) ops t' (sys_acme s)" "t' \<le> t"
      "\<forall>p\<in>set ops. \<forall>v. touches (acme_name (sys_config s0)) v p \<longrightarrow> (\<exists>ev\<in>set evs. ev_touches L v ev)"
    using sys_run_store [OF assms(1-3)] by auto
  show ?thesis
  proof (rule store_run_untouched [OF ops(1)])
    show "store_wf (sys_acme s0)" using assms(3) by (simp add: sys_ok_def)
    show "\<forall>p\<in>set ops. \<not> touches (acme_name (sys_config s0)) v p" using ops(3) assms(4) by blast
    show "t' \<le> u" using ops(2) assms(5) by (rule order_trans)
  qed
qed

lemma startup_lifetime:
  assumes "clap_law C" and "semaphore_law (sem_lib L)"
    and "startup H C (sem_lib L) args timestamp now = Some (Inr s0)"
    and "sys_run H ho L now s0 evs t s"
  shows "lifetime (sys_acme s) = token_lifetime (sys_config s0)"
proof -
  obtain ops t' where "store_run H ho now (sys_acme s0) ops t' (sys_acme s)"
    using sys_run_store [OF assms(2,4) startup_ok(1) [OF assms(1,3)]] by auto
  moreover have "lifetime (sys_acme s0) = token_lifetime (sys_config s0)"
    using startup_ok(2) [OF assms(1,3)] by (metis fresh_store(8))
  ultimately show ?thesis using store_run_frame by metis
qed

text \<open>An accepted configuration carries the empty answer.\<close>

lemma empty_fits:
  assumes "valid_config H c" and "from_config H c = Some cap" and "drop_complete H cap"
  shows "fits H cap [] = Some True"
proof -
  obtain m where m: "maximum_token_count H cap = Some m" "max_tokens c \<le> m"
    using validate_okD(6) [of H c] assms(1,2) by (auto simp: valid_config_def)
  with wire.maximum_sound [OF m(1)] valid_config_tokens [OF assms(1)]
  have "fits_count H cap m = Some True" by auto
  then have "fits_count H cap 0 = Some True" by (rule fits_count_down [OF assms(3)]) simp
  then show ?thesis by (simp add: fits_count_fits)
qed

lemma one_name_keys: "store_wf ar \<Longrightarrow> one_name n ar \<Longrightarrow> fst ` rr_keys (store_view ar) \<subseteq> {n}"
proof
  fix k assume wf: "store_wf ar" and one: "one_name n ar" and "k \<in> fst ` rr_keys (store_view ar)"
  then obtain v e where "rr (records (state ar)) k v = Some e" by (auto simp: rr_keys_def store_view_def)
  then have "tokens_of (records (state ar)) k \<noteq> []" by (auto simp: rr_def)
  then have "k \<in> fst ` set (records (state ar))" using tokens_of_not_key by blast
  with one show "k \<in> {n}" by (auto simp: one_name_def)
qed

subsection \<open>A presentation that succeeds\<close>

text \<open>Documented behaviour of the timeout layer: it answers with the status it is given.\<close>

definition timeout_law :: "('sem, 'body) http_lib \<Rightarrow> bool" where
  "timeout_law L \<longleftrightarrow> (\<forall>n. status_code (timeout_response L n) = n)"

lemma error_status:
  "status_code (into_response (add_error_response e)) = 503"
  "status_code (into_response (service_unavailable m)) = 503"
  "status_code (unauthorized m) = 401" "status_code rate_limited = 429"
  by (cases e)
    (simp_all add: into_response_def service_unavailable_def make_error_def unauthorized_def rate_limited_def)

lemma authorize_200:
  assumes "authorize_and_admit L now f req s = Some (r, s')" and "status_code r = 200"
  obtains g t where "f req (s\<lparr>api_gate := g\<rparr>) = Some (r, t)" "api_acme s' = api_acme t"
  using assms
  by (auto simp: authorize_and_admit_def case_prod_unfold Let_def bind_eq_Some_conv error_status
      split: if_splits option.splits sum.splits)

lemma inner_200:
  assumes "inner_layers L timely f req s = Some (r, t)" and "status_code r = 200" and "timeout_law L"
    and "json_present L 1024 req = Inr b"
  obtains x where "f b s = Some (x, t)" "r = json_result x"
  using assms
  by (auto simp: inner_layers_def timeout_law_def MAX_REQUEST_BODY_LEN_def bind_eq_Some_conv split: if_splits)

lemma validation_status: "validate_request b c = Inl e \<Longrightarrow> status_code (json_result (Inl e)) = 400"
  by (simp add: json_result_def into_response_def validate_request_Inl)

lemma present_200:
  assumes "serve H ho L a Present req s = Some (r, s')" and "status_code r = 200" and "timeout_law L"
    and "json_present L 1024 req = Inr b"
  shows "add H ho (at_store a) (at_deadline a) (acme_name (api_config s)) (present_value b) (api_acme s) =
    Some (Inr (), api_acme s')"
proof -
  from assms(1) have "authorize_and_admit L (at_gate a)
      (inner_layers L (in_time a) (present H ho (at_store a) (at_deadline a))) req s = Some (r, s')"
    by (simp add: serve_def)
  then obtain g t where t: "inner_layers L (in_time a) (present H ho (at_store a) (at_deadline a)) req
      (s\<lparr>api_gate := g\<rparr>) = Some (r, t)" "api_acme s' = api_acme t"
    using assms(2) by (rule authorize_200)
  obtain x where x: "present H ho (at_store a) (at_deadline a) b (s\<lparr>api_gate := g\<rparr>) = Some (x, t)"
      "r = json_result x"
    using inner_200 [OF t(1) assms(2-4)] .
  show ?thesis
  proof (cases "validate_request b (api_config s)")
    case (Inl e)
    with x assms(2) validation_status [OF Inl] show ?thesis by (auto simp: present_def)
  next
    case (Inr n)
    then have n: "n = acme_name (api_config s)" by (simp add: validate_request_eq_Inr)
    with Inr x(1) obtain res where res: "add H ho (at_store a) (at_deadline a) (acme_name (api_config s))
        (present_value b) (api_acme s) = Some (res, api_acme t)"
      and "x = (case res of Inl error \<Rightarrow> Inl (add_error_response error) | Inr _ \<Rightarrow> Inr ())"
      by (auto simp: present_def bind_eq_Some_conv)
    with x(2) assms(2) have "res = Inr ()"
      by (cases res) (auto simp: json_result_def error_status)
    with res t(2) show ?thesis by simp
  qed
qed

lemma cleanup_200:
  assumes "serve H ho L a Cleanup req s = Some (r, s')" and "status_code r = 200" and "timeout_law L"
    and "json_present L 1024 req = Inr b"
  shows "api_acme s' = remove (at_store a) (acme_name (api_config s)) (present_value b) (api_acme s)"
proof -
  from assms(1) have "authorize_and_admit L (at_gate a)
      (inner_layers L (in_time a) (\<lambda>b s. Some (cleanup (at_store a) b s))) req s = Some (r, s')"
    by (simp add: serve_def)
  then obtain g t where t: "inner_layers L (in_time a) (\<lambda>b s. Some (cleanup (at_store a) b s)) req
      (s\<lparr>api_gate := g\<rparr>) = Some (r, t)" "api_acme s' = api_acme t"
    using assms(2) by (rule authorize_200)
  obtain x where x: "Some (cleanup (at_store a) b (s\<lparr>api_gate := g\<rparr>)) = Some (x, t)" "r = json_result x"
    using inner_200 [OF t(1) assms(2-4)] .
  show ?thesis
  proof (cases "validate_request b (api_config s)")
    case (Inl e)
    with x assms(2) validation_status [OF Inl] show ?thesis by (auto simp: cleanup_def)
  next
    case (Inr n)
    with x t(2) show ?thesis by (auto simp: cleanup_def validate_request_eq_Inr)
  qed
qed

end
