(* ===== verification/Tasks.thy ===== *)
theory Tasks
  imports System
begin

text \<open>
  The HTTP requests of \<open>src/api.rs\<close> as tasks that overlap. \<open>sys_step\<close> serves a request from its
  first to its last step; here a request to an ACME endpoint is the sequence of the steps in which
  \<open>authorize_and_admit\<close> and what it wraps touch shared state: the rate check, the acquisition of a
  permit, the arrival of the body, the store operation of the handler, and the end, which drops
  the permit. Between two of them every other task may run; a request may time out before its
  store operation and its client may go away at any point, which drops the future and with it the
  permit.
\<close>

subsection \<open>One request\<close>

datatype endpoint = ToPresent | ToCleanup

fun route_of :: "endpoint \<Rightarrow> route" where
  "route_of ToPresent = Present"
| "route_of ToCleanup = Cleanup"

text \<open>
  Where a request stands: routed; past the rate limiter; admitted, with a permit, and waiting for
  its body; past the extractor, waiting for the store's lock; with its response, which still has
  to be returned through the layers.
\<close>

datatype stage = Received | Rated | Admitted | Parsed present_request | Answering http_response

fun holds_permit :: "stage \<Rightarrow> bool" where
  "holds_permit Received = False"
| "holds_permit Rated = False"
| "holds_permit _ = True"

record 'body task =
  task_endpoint :: endpoint
  task_request :: "'body http_request"
  task_stage :: stage

datatype move =
  CheckRate instant | Acquire | Extract | Operate instant instant | TimeOut | Respond | Disconnect

fun can_move :: "move \<Rightarrow> stage \<Rightarrow> bool" where
  "can_move (CheckRate now) Received = True"
| "can_move Acquire Rated = True"
| "can_move Extract Admitted = True"
| "can_move (Operate now later) (Parsed body) = True"
| "can_move TimeOut Admitted = True"
| "can_move TimeOut (Parsed body) = True"
| "can_move Respond (Answering r) = True"
| "can_move Disconnect st = True"
| "can_move _ _ = False"

datatype outcome = Continue stage | Reply http_response | Gone

fun run_handler :: "'nm hickory \<Rightarrow> (zone_records \<Rightarrow> zone_records) \<Rightarrow> endpoint \<Rightarrow> instant \<Rightarrow> instant \<Rightarrow>
    present_request \<Rightarrow> ('nm, 'sem) api_state \<Rightarrow>
    (((nat \<times> error_response) + unit) \<times> ('nm, 'sem) api_state) option" where
  "run_handler H ho ToPresent now later body s = present H ho now later body s"
| "run_handler H ho ToCleanup now later body s = Some (cleanup now body s)"

text \<open>
  One step of a request. A move that is not possible at a stage changes nothing; histories below
  take possible moves only.
\<close>

fun task_step :: "'nm hickory \<Rightarrow> (zone_records \<Rightarrow> zone_records) \<Rightarrow> ('sem, 'body) http_lib \<Rightarrow>
    endpoint \<Rightarrow> 'body http_request \<Rightarrow> move \<Rightarrow> stage \<Rightarrow> ('nm, 'sem) api_state \<Rightarrow>
    (outcome \<times> ('nm, 'sem) api_state) option" where
  "task_step H ho L ep req (CheckRate now) Received s =
     (case check_basic_auth L (headers req) (api_config s) of
        Inl message \<Rightarrow> Some (Reply (unauthorized message), s)
      | Inr _ \<Rightarrow>
          let (ok, g) = check_rate now (api_gate s)
          in Some (if ok then Continue Rated else Reply rate_limited, s\<lparr>api_gate := g\<rparr>))"
| "task_step H ho L ep req Acquire Rated s =
     (case try_acquire (sem_lib L) (api_gate s) of
        None \<Rightarrow> Some (Reply (into_response (service_unavailable ''concurrent request limit reached'')), s)
      | Some g \<Rightarrow> Some (Continue Admitted, s\<lparr>api_gate := g\<rparr>))"
| "task_step H ho L ep req Extract Admitted s =
     Some (case json_present L MAX_REQUEST_BODY_LEN req of
             Inl rejection \<Rightarrow> Continue (Answering rejection)
           | Inr body \<Rightarrow> Continue (Parsed body), s)"
| "task_step H ho L ep req (Operate now later) (Parsed body) s =
     map_option (\<lambda>(r, s). (Continue (Answering (json_result r)), s)) (run_handler H ho ep now later body s)"
| "task_step H ho L ep req TimeOut Admitted s = Some (Continue (Answering (timeout_response L 408)), s)"
| "task_step H ho L ep req TimeOut (Parsed body) s = Some (Continue (Answering (timeout_response L 408)), s)"
| "task_step H ho L ep req Respond (Answering r) s =
     Some (Reply r, s\<lparr>api_gate := release_permit (sem_lib L) (api_gate s)\<rparr>)"
| "task_step H ho L ep req Disconnect st s =
     Some (Gone, if holds_permit st then s\<lparr>api_gate := release_permit (sem_lib L) (api_gate s)\<rparr> else s)"
| "task_step H ho L ep req mv st s = Some (Continue st, s)"

lemma can_move_cases [consumes 1, case_names check acquire read_body operate timeout timeout_lock respond disconnect]:
  assumes "can_move mv st"
  obtains now where "mv = CheckRate now" "st = Received"
  | "mv = Acquire" "st = Rated"
  | "mv = Extract" "st = Admitted"
  | now later body where "mv = Operate now later" "st = Parsed body"
  | "mv = TimeOut" "st = Admitted"
  | body where "mv = TimeOut" "st = Parsed body"
  | r where "mv = Respond" "st = Answering r"
  | "mv = Disconnect"
  using assms by (cases mv; cases st) auto

subsection \<open>What a step of a request keeps\<close>

text \<open>The permits a request has after a step.\<close>

fun holding :: "outcome \<Rightarrow> nat" where
  "holding (Continue st) = of_bool (holds_permit st)"
| "holding _ = 0"

lemma run_handler_total [panic_free]:
  assumes "api_ok H s"
  shows "\<exists>r s'. run_handler H ho ep now later b s = Some (r, s') \<and> api_ok H s' \<and>
    api_gate s' = api_gate s \<and> api_config s' = api_config s"
  using present_total [OF assms] cleanup_ok [OF assms]
  by (cases ep) (auto, metis surjective_pairing)

lemma api_ok_gate: "api_ok H s \<Longrightarrow> gate_ok g \<Longrightarrow> api_ok H (s\<lparr>api_gate := g\<rparr>)"
  by (simp add: api_ok_def)

lemma gate_ok_release: "gate_ok (release_permit S g) \<longleftrightarrow> gate_ok g"
  by (simp add: gate_ok_def release_permit_def)

lemma task_step_total [panic_free]:
  assumes "semaphore_law (sem_lib L)" and "api_ok H s" and "can_move mv st"
  shows "\<exists>out s'. task_step H ho L ep req mv st s = Some (out, s') \<and> api_ok H s' \<and>
    api_config s' = api_config s \<and>
    permits (sem_lib L) (api_gate s') + holding out =
      permits (sem_lib L) (api_gate s) + of_bool (holds_permit st)"
  using assms(3)
proof (cases rule: can_move_cases)
  case (check now)
  have g: "gate_ok (snd (check_rate now (api_gate s)))"
    using assms(2) by (simp add: api_ok_def gate.check_wf)
  with check assms(2) show ?thesis
    by (cases "check_basic_auth L (headers req) (api_config s)")
      (auto simp: case_prod_unfold Let_def api_ok_gate)
next
  case acquire
  have g: "api_ok H (s\<lparr>api_gate := g\<rparr>) \<and> permits (sem_lib L) (api_gate s) = Suc (permits (sem_lib L) g)"
    if "try_acquire (sem_lib L) (api_gate s) = Some g" for g
    using try_acquire_Some [OF assms(1) that] assms(2) by (simp add: api_ok_def gate_ok_def)
  with acquire assms(2) show ?thesis by (auto split: option.split)
next
  case read_body
  with assms(2) show ?thesis by (auto split: sum.split)
next
  case (operate now later body)
  obtain r s' where "run_handler H ho ep now later body s = Some (r, s')" "api_ok H s'"
      "api_gate s' = api_gate s" "api_config s' = api_config s"
    using run_handler_total [OF assms(2)] by blast
  with operate show ?thesis by simp
next
  case timeout
  with assms(2) show ?thesis by simp
next
  case (timeout_lock body)
  with assms(2) show ?thesis by simp
next
  case (respond r)
  with assms(2) show ?thesis
    by (simp add: api_ok_def gate_ok_release permits_release [OF assms(1)])
next
  case disconnect
  with assms(2) show ?thesis
    by (simp add: api_ok_def gate_ok_release permits_release [OF assms(1)])
qed

text \<open>Every move brings the request nearer to its end.\<close>

fun stage_rank :: "stage \<Rightarrow> nat" where
  "stage_rank Received = 5"
| "stage_rank Rated = 4"
| "stage_rank Admitted = 3"
| "stage_rank (Parsed body) = 2"
| "stage_rank (Answering r) = 1"

lemma task_step_rank:
  assumes "can_move mv st" and "task_step H ho L ep req mv st s = Some (Continue st', s')"
  shows "stage_rank st' < stage_rank st"
  using assms(1)
  by (cases rule: can_move_cases; use assms(2) in \<open>auto simp: case_prod_unfold Let_def split: sum.splits option.splits if_splits\<close>)

end
