(* ===== verification/Concurrent.thy ===== *)
theory Concurrent
  imports Tasks
begin

text \<open>
  The server with requests in flight: the shared state of \<open>System\<close> and the tasks of the requests
  that have been routed and are not done. A history interleaves the moves of the tasks with DNS
  messages in any order. It records what each event answered and, in a second list, the store
  operations in the order in which they took the store's lock.
\<close>

subsection \<open>State and events\<close>

record ('nm, 'sem, 'body) server =
  srv_system :: "('nm, 'sem) system"
  srv_tasks :: "(nat \<times> 'body task) list"

datatype 'body srv_event =
    GetHealth
  | Post nat endpoint "'body http_request"
  | Move nat move
  | TcpMessage instant bytes
  | Datagram instant bytes

fun enabled :: "'body srv_event \<Rightarrow> ('nm, 'sem, 'body) server \<Rightarrow> bool" where
  "enabled (Post i ep req) s \<longleftrightarrow> map_of (srv_tasks s) i = None"
| "enabled (Move i mv) s \<longleftrightarrow>
     (case map_of (srv_tasks s) i of None \<Rightarrow> False | Some t \<Rightarrow> can_move mv (task_stage t))"
| "enabled _ s \<longleftrightarrow> True"

definition new_task :: "endpoint \<Rightarrow> 'body http_request \<Rightarrow> 'body task" where
  "new_task ep req = \<lparr>task_endpoint = ep, task_request = req, task_stage = Received\<rparr>"

text \<open>The task list after a step of task \<open>i\<close>, and the response the step returns to the client.\<close>

fun settle :: "nat \<Rightarrow> 'body task \<Rightarrow> outcome \<Rightarrow> (nat \<times> 'body task) list \<Rightarrow> (nat \<times> 'body task) list" where
  "settle i t (Continue st) ts = AList.update i (t\<lparr>task_stage := st\<rparr>) ts"
| "settle i t _ ts = AList.delete i ts"

fun answer_of :: "outcome \<Rightarrow> reply option" where
  "answer_of (Reply r) = Some (HttpReply r)"
| "answer_of _ = None"

definition with_api :: "('nm, 'sem) api_state \<Rightarrow> ('nm, 'sem) system \<Rightarrow> ('nm, 'sem) system" where
  "with_api a s = s\<lparr>sys_acme := api_acme a, sys_gate := api_gate a\<rparr>"

fun srv_step :: "'nm hickory \<Rightarrow> (zone_records \<Rightarrow> zone_records) \<Rightarrow> ('sem, 'body) http_lib \<Rightarrow>
    'body srv_event \<Rightarrow> ('nm, 'sem, 'body) server \<Rightarrow> (reply option \<times> ('nm, 'sem, 'body) server) option" where
  "srv_step H ho L GetHealth s =
     Some (Some (HttpReply \<lparr>status_code = 200, response_headers = [],
       response_body = JsonStatus (health (api_view (srv_system s)))\<rparr>), s)"
| "srv_step H ho L (Post i ep req) s = Some (None, s\<lparr>srv_tasks := (i, new_task ep req) # srv_tasks s\<rparr>)"
| "srv_step H ho L (Move i mv) s =
     (case map_of (srv_tasks s) i of
        None \<Rightarrow> Some (None, s)
      | Some t \<Rightarrow>
          map_option (\<lambda>(out, a). (answer_of out,
              \<lparr>srv_system = with_api a (srv_system s), srv_tasks = settle i t out (srv_tasks s)\<rparr>))
            (task_step H ho L (task_endpoint t) (task_request t) mv (task_stage t) (api_view (srv_system s))))"
| "srv_step H ho L (TcpMessage now raw) s =
     map_option (\<lambda>(r, h). (Some (DnsReply r), s\<lparr>srv_system := (srv_system s)\<lparr>sys_acme := acme h\<rparr>\<rparr>))
       (handle H now raw (dns_view (srv_system s)))"
| "srv_step H ho L (Datagram now raw) s =
     map_option (\<lambda>(r, h). (Some (DnsReply r), s\<lparr>srv_system := (srv_system s)\<lparr>sys_acme := acme h\<rparr>\<rparr>))
       (handle_udp H now raw (dns_view (srv_system s)))"

text \<open>The store operations of an event.\<close>

fun query_ops :: "'nm hickory \<Rightarrow> config \<Rightarrow> instant \<Rightarrow> bytes \<Rightarrow> store_op list" where
  "query_ops H c now raw =
     (case from_vec H raw of
        None \<Rightarrow> []
      | Some request \<Rightarrow>
          if message_type request = QueryMessage \<and> spec_rcode H c request \<in> {NoError, NXDomain} then
            (let q = queries request ! 0
             in if q_type q = TXT \<and> qname_text H (q_name q) = acme_name c then [Lookup now (acme_name c)]
                else [ReadSerial now])
          else [])"

fun task_ops :: "config \<Rightarrow> endpoint \<Rightarrow> move \<Rightarrow> stage \<Rightarrow> store_op list" where
  "task_ops c ep (Operate now later) (Parsed body) =
     (case validate_request body c of
        Inl e \<Rightarrow> []
      | Inr n \<Rightarrow> [case ep of ToPresent \<Rightarrow> Add now later n (present_value body)
                            | ToCleanup \<Rightarrow> Remove now n (present_value body)])"
| "task_ops c ep _ _ = []"

fun effects :: "'nm hickory \<Rightarrow> 'body srv_event \<Rightarrow> ('nm, 'sem, 'body) server \<Rightarrow> store_op list" where
  "effects H (Move i mv) s =
     (case map_of (srv_tasks s) i of
        None \<Rightarrow> []
      | Some t \<Rightarrow> task_ops (sys_config (srv_system s)) (task_endpoint t) mv (task_stage t))"
| "effects H (TcpMessage now raw) s = query_ops H (sys_config (srv_system s)) now raw"
| "effects H (Datagram now raw) s = query_ops H (sys_config (srv_system s)) now raw"
| "effects H _ s = []"

text \<open>
  Histories. The clock readings made under the store's lock do not decrease; those of the rate
  check, made under another lock, are not constrained.
\<close>

fun store_clock :: "'body srv_event \<Rightarrow> instant \<Rightarrow> instant \<Rightarrow> bool" where
  "store_clock (Move i (Operate now later)) t t' \<longleftrightarrow> t \<le> now \<and> now \<le> later \<and> t' = later"
| "store_clock (TcpMessage now raw) t t' \<longleftrightarrow> t \<le> now \<and> t' = now"
| "store_clock (Datagram now raw) t t' \<longleftrightarrow> t \<le> now \<and> t' = now"
| "store_clock _ t t' \<longleftrightarrow> t' = t"

inductive srv_run :: "'nm hickory \<Rightarrow> (zone_records \<Rightarrow> zone_records) \<Rightarrow> ('sem, 'body) http_lib \<Rightarrow>
    instant \<Rightarrow> ('nm, 'sem, 'body) server \<Rightarrow> ('body srv_event \<times> reply option) list \<Rightarrow> store_op list \<Rightarrow>
    instant \<Rightarrow> ('nm, 'sem, 'body) server \<Rightarrow> bool"
  for H ho L t0 s0 where
  srv_none: "srv_run H ho L t0 s0 [] [] t0 s0"
| srv_event: "srv_run H ho L t0 s0 tr ops t s \<Longrightarrow> enabled ev s \<Longrightarrow> store_clock ev t t' \<Longrightarrow>
    srv_step H ho L ev s = Some (out, s') \<Longrightarrow>
    srv_run H ho L t0 s0 (tr @ [(ev, out)]) (ops @ effects H ev s) t' s'"

definition serving :: "('nm, 'sem) system \<Rightarrow> ('nm, 'sem, 'body) server" where
  "serving s = \<lparr>srv_system = s, srv_tasks = []\<rparr>"

subsection \<open>The invariant\<close>

definition in_flight :: "('nm, 'sem, 'body) server \<Rightarrow> nat" where
  "in_flight s = length (filter (\<lambda>(i, t). holds_permit (task_stage t)) (srv_tasks s))"

definition srv_ok :: "'nm hickory \<Rightarrow> ('nm, 'sem, 'body) server \<Rightarrow> bool" where
  "srv_ok H s \<longleftrightarrow> sys_ok H (srv_system s) \<and> distinct (map fst (srv_tasks s))"

definition free_permits :: "('sem, 'body) http_lib \<Rightarrow> ('nm, 'sem, 'body) server \<Rightarrow> nat" where
  "free_permits L s = permits (sem_lib L) (sys_gate (srv_system s))"

lemma with_api_sel [simp]:
  "sys_config (with_api a s) = sys_config s" "sys_acme (with_api a s) = api_acme a"
  "sys_gate (with_api a s) = api_gate a"
  by (simp_all add: with_api_def)

lemma with_api_ok: "sys_ok H s \<Longrightarrow> api_ok H a \<Longrightarrow> sys_ok H (with_api a s)"
  by (simp add: sys_ok_def api_ok_def)

lemma distinct_settle: "distinct (map fst ts) \<Longrightarrow> distinct (map fst (settle i t out ts))"
  by (cases out) (auto simp: distinct_update AList.distinct_delete)

lemma count_update:
  assumes "distinct (map fst ts)" and "map_of ts i = Some t"
  shows "length (filter (\<lambda>(i, t). P t) (AList.update i t' ts)) + of_bool (P t) =
    length (filter (\<lambda>(i, t). P t) ts) + of_bool (P t')"
  using assms by (induction ts) (auto split: if_splits)

lemma delete_other: "i \<notin> fst ` set ts \<Longrightarrow> AList.delete i ts = ts"
  by (induction ts) auto

lemma count_delete:
  assumes "distinct (map fst ts)" and "map_of ts i = Some t"
  shows "length (filter (\<lambda>(i, t). P t) (AList.delete i ts)) + of_bool (P t) =
    length (filter (\<lambda>(i, t). P t) ts)"
  using assms by (induction ts) (auto simp: delete_other split: if_splits)

lemma count_settle:
  assumes "distinct (map fst (srv_tasks s))" and "map_of (srv_tasks s) i = Some t"
  shows "in_flight \<lparr>srv_system = y, srv_tasks = settle i t out (srv_tasks s)\<rparr> +
    of_bool (holds_permit (task_stage t)) = in_flight s + holding out"
  using count_update [OF assms, of "\<lambda>t. holds_permit (task_stage t)"]
    count_delete [OF assms, of "\<lambda>t. holds_permit (task_stage t)"]
  by (cases out) (simp_all add: in_flight_def)

lemma srv_step_total [panic_free]:
  assumes "semaphore_law (sem_lib L)" and "srv_ok H s" and "enabled ev s"
  shows "\<exists>out s'. srv_step H ho L ev s = Some (out, s') \<and> srv_ok H s' \<and>
    sys_config (srv_system s') = sys_config (srv_system s) \<and>
    free_permits L s' + in_flight s' = free_permits L s + in_flight s"
proof (cases ev)
  case GetHealth
  with assms(2) show ?thesis by simp
next
  case (Post i ep req)
  with assms(2,3) show ?thesis
    by (auto simp: srv_ok_def free_permits_def in_flight_def new_task_def map_of_eq_None_iff)
next
  case (Move i mv)
  then obtain t where t: "map_of (srv_tasks s) i = Some t" "can_move mv (task_stage t)"
    using assms(3) by (auto split: option.splits)
  have ok: "api_ok H (api_view (srv_system s))" using assms(2) by (simp add: srv_ok_def sys_ok_views)
  obtain out a where a: "task_step H ho L (task_endpoint t) (task_request t) mv (task_stage t)
      (api_view (srv_system s)) = Some (out, a)" "api_ok H a"
      "permits (sem_lib L) (api_gate a) + holding out =
        permits (sem_lib L) (sys_gate (srv_system s)) + of_bool (holds_permit (task_stage t))"
    using task_step_total [OF assms(1) ok t(2), of ho "task_endpoint t" "task_request t"] by auto
  have "distinct (map fst (srv_tasks s))" using assms(2) by (simp add: srv_ok_def)
  from count_settle [OF this t(1), of "with_api a (srv_system s)" out] Move t a assms(2) show ?thesis
    by (simp add: srv_ok_def with_api_ok distinct_settle free_permits_def)
next
  case (TcpMessage now raw)
  with sys_step_total [OF assms(1), of H "srv_system s" ho "TcpQuery now raw"] assms(2) show ?thesis
    by (auto simp: srv_ok_def free_permits_def in_flight_def)
next
  case (Datagram now raw)
  with sys_step_total [OF assms(1), of H "srv_system s" ho "UdpQuery now raw"] assms(2) show ?thesis
    by (auto simp: srv_ok_def free_permits_def in_flight_def)
qed

lemma srv_run_ok:
  assumes "semaphore_law (sem_lib L)" and "srv_run H ho L t0 s0 tr ops t s" and "srv_ok H s0"
  shows "srv_ok H s \<and> sys_config (srv_system s) = sys_config (srv_system s0) \<and>
    free_permits L s + in_flight s = free_permits L s0 + in_flight s0"
  using assms(2,3)
proof (induction rule: srv_run.induct)
  case (srv_event tr ops t s ev t' out s')
  then show ?case using srv_step_total [OF assms(1), of H s ev ho] by auto
qed simp

subsection \<open>The store operations of an event\<close>

lemma query_effects:
  assumes "handler_ok H h" and "handle H now raw h = Some (r, h') \<or> handle_udp H now raw h = Some (r, h')"
  obtains (same) "query_ops H (config h) now raw = []" "acme h' = acme h"
  | (op) p where "query_ops H (config h) now raw = [p]" "exec_op H ho p (acme h) = Some (acme h')"
      "op_start p = now" "op_end p = now" "\<And>n. adds_only n p"
proof (cases "from_vec H raw")
  case None
  with assms(2) show thesis by (intro same) (auto simp: handle_def handle_udp_def)
next
  case (Some request)
  show thesis
  proof (cases "message_type request = QueryMessage \<and> spec_rcode H (config h) request \<in> {NoError, NXDomain}")
    case True
    then obtain q where q: "accepted H (config h) request q" using accepted_rcode by blast
    have "acme h' = refresh_zone now (acme h)"
      by (rule accepted_response [OF assms(1) q, of now])
        (use Some True assms(2) in \<open>auto simp: handle_def handle_udp_def Let_def\<close>)
    with Some True show thesis
      by (intro op [of "if q_type (queries request ! 0) = TXT \<and>
            qname_text H (q_name (queries request ! 0)) = acme_name (config h)
          then Lookup now (acme_name (config h)) else ReadSerial now"]) (auto simp: Let_def)
  next
    case False
    show thesis
    proof (cases "message_type request = QueryMessage")
      case query: True
      with False have "\<forall>q. \<not> accepted H (config h) request q" using accepted_rcode by blast
      then obtain m where "build_response H now request h = Some (refuse (spec_rcode H (config h) request) m, h)"
        using rejected_response [of H h request now] by metis
      with Some False query assms(2) show thesis
        by (intro same) (auto simp: handle_def handle_udp_def Let_def)
    next
      case other: False
      with Some assms(2) show thesis by (intro same) (auto simp: handle_def handle_udp_def)
    qed
  qed
qed

lemma task_effects:
  assumes "task_step H ho L ep req mv st a = Some (out, a')"
  obtains (same) "task_ops (api_config a) ep mv st = []" "api_acme a' = api_acme a"
  | (op) now later b p where "mv = Operate now later" "st = Parsed b"
      "task_ops (api_config a) ep mv st = [p]" "exec_op H ho p (api_acme a) = Some (api_acme a')"
      "op_start p = now" "op_end p = later \<or> op_end p = now"
      "p = Add now later (acme_name (api_config a)) (present_value b) \<or>
       p = Remove now (acme_name (api_config a)) (present_value b)"
proof (cases "\<exists>now later b. mv = Operate now later \<and> st = Parsed b")
  case False
  have "task_ops (api_config a) ep mv st = []" using False by (cases mv; cases st) auto
  moreover have "api_acme a' = api_acme a"
    using False assms by (cases mv; cases st) (auto simp: case_prod_unfold Let_def split: sum.splits option.splits)
  ultimately show thesis by (rule same)
next
  case True
  then obtain now later b where m: "mv = Operate now later" "st = Parsed b" by blast
  with assms obtain r where r: "run_handler H ho ep now later b a = Some (r, a')" by auto
  show thesis
  proof (cases "validate_request b (api_config a)")
    case (Inl e)
    with m r show thesis by (intro same; cases ep) (auto simp: present_def cleanup_def)
  next
    case (Inr n)
    then have n: "n = acme_name (api_config a)" by (simp add: validate_request_eq_Inr)
    show thesis
      by (rule op [OF m, of "case ep of ToPresent \<Rightarrow> Add now later n (present_value b)
            | ToCleanup \<Rightarrow> Remove now n (present_value b)"])
        (use m r Inr n in \<open>cases ep; auto simp: present_def cleanup_def bind_eq_Some_conv\<close>)+
  qed
qed

text \<open>What an event does to the store: nothing, or the one operation in its effects.\<close>

definition store_effect :: "'nm hickory \<Rightarrow> (zone_records \<Rightarrow> zone_records) \<Rightarrow> string \<Rightarrow> instant \<Rightarrow>
    store_op list \<Rightarrow> 'nm acme_records \<Rightarrow> 'nm acme_records \<Rightarrow> instant \<Rightarrow> bool" where
  "store_effect H ho n t ps ar ar' t' \<longleftrightarrow> t \<le> t' \<and> (ps = [] \<and> ar' = ar \<or>
     (\<exists>p. ps = [p] \<and> exec_op H ho p ar = Some ar' \<and> t \<le> op_start p \<and> op_start p \<le> op_end p \<and>
        op_end p \<le> t' \<and> adds_only n p))"

lemma query_store_effect:
  assumes "srv_ok H s" and "t \<le> now"
    and "handle H now raw (dns_view (srv_system s)) = Some (r, h) \<or>
      handle_udp H now raw (dns_view (srv_system s)) = Some (r, h)"
  shows "store_effect H ho n t (query_ops H (sys_config (srv_system s)) now raw)
    (sys_acme (srv_system s)) (acme h) now"
proof -
  have "handler_ok H (dns_view (srv_system s))" using assms(1) by (simp add: srv_ok_def sys_ok_views)
  from this assms(3) show ?thesis
    by (cases rule: query_effects [where ho = ho]) (simp_all add: store_effect_def assms(2))
qed

lemma task_store_effect:
  assumes "task_step H ho L ep req mv st a = Some (out, a')" and "store_clock (Move i mv) t t'"
  shows "store_effect H ho (acme_name (api_config a)) t (task_ops (api_config a) ep mv st)
    (api_acme a) (api_acme a') t'"
  using assms(1)
proof (cases rule: task_effects)
  case same
  have "t \<le> t'" using assms(2) by (cases mv) auto
  with same show ?thesis by (simp add: store_effect_def)
next
  case (op now later b p)
  have "adds_only (acme_name (api_config a)) p" using op(7) by auto
  moreover have "t \<le> now" "now \<le> later" "t' = later" using op(1) assms(2) by auto
  ultimately show ?thesis using op(3-6) unfolding store_effect_def by auto
qed

lemma srv_step_store:
  assumes "srv_ok H s" and "srv_step H ho L ev s = Some (out, s')" and "store_clock ev t t'"
  shows "store_effect H ho (acme_name (sys_config (srv_system s))) t (effects H ev s)
    (sys_acme (srv_system s)) (sys_acme (srv_system s')) t'"
proof (cases ev)
  case (Move i mv)
  show ?thesis
  proof (cases "map_of (srv_tasks s) i")
    case None
    have "t \<le> t'" using assms(3) Move by (cases mv) auto
    with None Move assms show ?thesis by (auto simp: store_effect_def)
  next
    case (Some k)
    with Move assms(2) obtain o' a where a: "task_step H ho L (task_endpoint k) (task_request k) mv
        (task_stage k) (api_view (srv_system s)) = Some (o', a)" "sys_acme (srv_system s') = api_acme a"
      by auto
    from task_store_effect [OF a(1) assms(3) [unfolded Move]] Some Move a(2) show ?thesis by simp
  qed
next
  case (TcpMessage now raw)
  with assms query_store_effect [OF assms(1), of t now raw _ _ ho] show ?thesis by fastforce
next
  case (Datagram now raw)
  with assms query_store_effect [OF assms(1), of t now raw _ _ ho] show ?thesis by fastforce
qed (use assms in \<open>auto simp: store_effect_def\<close>)

text \<open>A history is a history of the store, in the order in which the lock was taken.\<close>

lemma srv_run_store:
  assumes law: "semaphore_law (sem_lib L)" and "srv_run H ho L t0 s0 tr ops t s" and "srv_ok H s0"
  shows "\<exists>t'\<le>t. store_run H ho t0 (sys_acme (srv_system s0)) ops t' (sys_acme (srv_system s)) \<and>
    (\<forall>p\<in>set ops. adds_only (acme_name (sys_config (srv_system s0))) p)"
  using assms(2,3)
proof (induction rule: srv_run.induct)
  case srv_none
  then show ?case by (auto intro: run_none)
next
  case (srv_event tr ops t s ev t' out s')
  then obtain t1 where IH: "t1 \<le> t" "store_run H ho t0 (sys_acme (srv_system s0)) ops t1 (sys_acme (srv_system s))"
      "\<forall>p\<in>set ops. adds_only (acme_name (sys_config (srv_system s0))) p" by blast
  have ok: "srv_ok H s" and c: "sys_config (srv_system s) = sys_config (srv_system s0)"
    using srv_run_ok [OF law srv_event.hyps(1) srv_event.prems] by simp_all
  from srv_step_store [OF ok srv_event.hyps(4,3)] show ?case
    unfolding store_effect_def
  proof (elim conjE disjE exE)
    assume "t \<le> t'" "effects H ev s = []" "sys_acme (srv_system s') = sys_acme (srv_system s)"
    with IH show ?thesis by (auto intro: order_trans)
  next
    fix p
    assume op: "effects H ev s = [p]" "t \<le> op_start p" "op_start p \<le> op_end p" "op_end p \<le> t'"
      "exec_op H ho p (sys_acme (srv_system s)) = Some (sys_acme (srv_system s'))"
      "adds_only (acme_name (sys_config (srv_system s))) p"
    have "store_run H ho t0 (sys_acme (srv_system s0)) (ops @ [p]) (op_end p) (sys_acme (srv_system s'))"
      using op IH(1) by (intro store_run_last [OF IH(2)]) auto
    with op IH(3) c show ?thesis by auto
  qed
qed

end
