(* ===== verification/Concurrent_Spec.thy ===== *)
theory Concurrent_Spec
  imports Concurrent
begin

text \<open>
  What holds of every interleaving: a request that is answered 200 has had its effect on the store
  between being routed and being answered, only requests with accepted credentials ever have one,
  every permit comes back, and a request that has been served in one go is one of the histories.
\<close>

subsection \<open>What is known of a request in flight\<close>

definition task_ok :: "('sem, 'body) http_lib \<Rightarrow> config \<Rightarrow> 'body task \<Rightarrow> bool" where
  "task_ok L c k \<longleftrightarrow>
     (task_stage k \<noteq> Received \<longrightarrow> check_basic_auth L (headers (task_request k)) c = Inr ()) \<and>
     (\<forall>b. task_stage k = Parsed b \<longrightarrow> json_present L 1024 (task_request k) = Inr b)"

lemma new_task_ok: "task_ok L c (new_task ep req)"
  by (simp add: task_ok_def new_task_def)

lemma task_step_ok:
  assumes "can_move mv (task_stage k)" and "task_ok L (api_config a) k"
    and "task_step H ho L (task_endpoint k) (task_request k) mv (task_stage k) a = Some (Continue st, a')"
  shows "task_ok L (api_config a) (k\<lparr>task_stage := st\<rparr>)"
  using assms(1)
  by (cases rule: can_move_cases; use assms(2,3) in
      \<open>auto simp: task_ok_def case_prod_unfold Let_def MAX_REQUEST_BODY_LEN_def
        split: sum.splits option.splits if_splits\<close>)

lemma present_ok:
  assumes "present H ho now later b a = Some (x, a')" and "status_code (json_result x) = 200"
  shows "add H ho now later (acme_name (api_config a)) (present_value b) (api_acme a) = Some (Inr (), api_acme a') \<and>
    validate_request b (api_config a) = Inr (acme_name (api_config a))"
proof (cases "validate_request b (api_config a)")
  case (Inl e)
  with assms validation_status [OF Inl] show ?thesis by (auto simp: present_def)
next
  case (Inr n)
  then have n: "n = acme_name (api_config a)" by (simp add: validate_request_eq_Inr)
  with Inr assms(1) obtain res where res: "add H ho now later (acme_name (api_config a))
      (present_value b) (api_acme a) = Some (res, api_acme a')"
    and "x = (case res of Inl error \<Rightarrow> Inl (add_error_response error) | Inr _ \<Rightarrow> Inr ())"
    by (auto simp: present_def bind_eq_Some_conv)
  with assms(2) have "res = Inr ()" by (cases res) (auto simp: json_result_def error_status)
  with res Inr n show ?thesis by simp
qed

lemma cleanup_ok_200:
  assumes "cleanup now b a = (x, a')" and "status_code (json_result x) = 200"
  shows "api_acme a' = remove now (acme_name (api_config a)) (present_value b) (api_acme a) \<and>
    validate_request b (api_config a) = Inr (acme_name (api_config a))"
proof (cases "validate_request b (api_config a)")
  case (Inl e)
  with assms validation_status [OF Inl] show ?thesis by (auto simp: cleanup_def)
next
  case (Inr n)
  with assms show ?thesis by (auto simp: cleanup_def validate_request_eq_Inr)
qed

text \<open>The step in which a request gets a response with status 200 is its store operation.\<close>

lemma task_step_200:
  assumes "can_move mv st" and "timeout_law L" and "json_present L 1024 req = Inr b"
    and "task_step H ho L ep req mv st a = Some (Continue (Answering r), a')" and "status_code r = 200"
  obtains now later b' where "mv = Operate now later" "st = Parsed b'"
  using assms(1)
proof (cases rule: can_move_cases)
  case (operate now later b')
  then show thesis by (rule that)
qed (use assms(2-5) in \<open>auto simp: timeout_law_def MAX_REQUEST_BODY_LEN_def case_prod_unfold Let_def
      split: sum.splits option.splits if_splits\<close>)

text \<open>The store operation of a presentation or withdrawal of \<open>v\<close>.\<close>

fun request_op :: "endpoint \<Rightarrow> instant \<Rightarrow> instant \<Rightarrow> string \<Rightarrow> string \<Rightarrow> store_op" where
  "request_op ToPresent began later n v = Add began later n v"
| "request_op ToCleanup began later n v = Remove began n v"

lemma operate_200:
  assumes "task_step H ho L ep req (Operate now later) (Parsed b) a = Some (Continue (Answering r), a')"
    and "status_code r = 200"
  shows "task_ops (api_config a) ep (Operate now later) (Parsed b) =
      [request_op ep now later (acme_name (api_config a)) (present_value b)]"
    and "ep = ToPresent \<Longrightarrow>
      add H ho now later (acme_name (api_config a)) (present_value b) (api_acme a) = Some (Inr (), api_acme a')"
    and "ep = ToCleanup \<Longrightarrow> api_acme a' = remove now (acme_name (api_config a)) (present_value b) (api_acme a)"
proof -
  obtain x where x: "run_handler H ho ep now later b a = Some (x, a')" "r = json_result x" using assms(1) by auto
  have 200: "status_code (json_result x) = 200" using assms(2) x(2) by simp
  show "task_ops (api_config a) ep (Operate now later) (Parsed b) =
      [request_op ep now later (acme_name (api_config a)) (present_value b)]"
    using x(1) present_ok [OF _ 200] cleanup_ok_200 [OF _ 200] by (cases ep) force+
  show "ep = ToPresent \<Longrightarrow>
      add H ho now later (acme_name (api_config a)) (present_value b) (api_acme a) = Some (Inr (), api_acme a')"
    using x(1) present_ok [OF _ 200, of H ho now later b a a'] by simp
  show "ep = ToCleanup \<Longrightarrow> api_acme a' = remove now (acme_name (api_config a)) (present_value b) (api_acme a)"
    using x(1) cleanup_ok_200 [OF _ 200, of now b a a'] by simp
qed

lemma set_delete_subset: "set (AList.delete i ts) \<subseteq> set ts"
  by (auto simp: AList.delete_eq)

lemma settle_tasks:
  assumes "\<And>k'. k' \<in> snd ` set ts \<Longrightarrow> P k'" and "\<And>st. out = Continue st \<Longrightarrow> P (k\<lparr>task_stage := st\<rparr>)"
  shows "\<forall>k'\<in>snd ` set (settle i k out ts). P k'"
proof (cases out)
  case (Continue st)
  with assms set_update_subset [of i "k\<lparr>task_stage := st\<rparr>" ts] show ?thesis by force
qed (use assms(1) set_delete_subset [of i ts] in force)+

subsection \<open>Where the operations come from\<close>

text \<open>A request of the history that may have caused a presentation or withdrawal of \<open>v\<close>.\<close>

definition asked :: "('sem, 'body) http_lib \<Rightarrow> config \<Rightarrow> ('body srv_event \<times> reply option) list \<Rightarrow>
    endpoint \<Rightarrow> string \<Rightarrow> bool" where
  "asked L c tr ep v \<longleftrightarrow>
     (\<exists>i req b. (Post i ep req, None) \<in> set tr \<and> check_basic_auth L (headers req) c = Inr () \<and>
        json_present L 1024 req = Inr b \<and> validate_request b c = Inr (acme_name c) \<and>
        present_value b = v)"

fun op_asked :: "('sem, 'body) http_lib \<Rightarrow> config \<Rightarrow> ('body srv_event \<times> reply option) list \<Rightarrow> store_op \<Rightarrow> bool" where
  "op_asked L c tr (Add now later n v) \<longleftrightarrow> n = acme_name c \<and> asked L c tr ToPresent v"
| "op_asked L c tr (Remove now n v) \<longleftrightarrow> n = acme_name c \<and> asked L c tr ToCleanup v"
| "op_asked L c tr _ \<longleftrightarrow> True"

definition posted :: "('sem, 'body) http_lib \<Rightarrow> config \<Rightarrow> ('body srv_event \<times> reply option) list \<Rightarrow> 'body task \<Rightarrow> bool" where
  "posted L c tr k \<longleftrightarrow> task_ok L c k \<and> (\<exists>i. (Post i (task_endpoint k) (task_request k), None) \<in> set tr)"

lemma op_asked_more: "op_asked L c tr p \<Longrightarrow> op_asked L c (tr @ tr') p"
  by (cases p) (auto simp: asked_def)

lemma posted_more: "posted L c tr k \<Longrightarrow> posted L c (tr @ tr') k"
  by (auto simp: posted_def)

lemma task_ops_asked:
  assumes "posted L c tr k"
  shows "\<forall>p\<in>set (task_ops c (task_endpoint k) mv (task_stage k)). op_asked L c tr p"
proof (cases "\<exists>now later b. mv = Operate now later \<and> task_stage k = Parsed b")
  case False
  then have "task_ops c (task_endpoint k) mv (task_stage k) = []"
    by (cases mv; cases "task_stage k") auto
  then show ?thesis by simp
next
  case True
  then obtain now later b where m: "mv = Operate now later" "task_stage k = Parsed b" by blast
  have "validate_request b c = Inr n \<Longrightarrow> n = acme_name c" for n by (simp add: validate_request_eq_Inr)
  with m assms show ?thesis
    by (cases "task_endpoint k"; cases "validate_request b c") (auto simp: asked_def posted_def task_ok_def)
qed

lemma query_ops_asked: "\<forall>p\<in>set (query_ops H c now raw). op_asked L c tr p"
  by (auto simp: Let_def split: option.splits)

lemma srv_run_asked:
  assumes law: "semaphore_law (sem_lib L)" and "srv_run H ho L t0 s0 tr ops t s"
    and "srv_ok H s0" and "srv_tasks s0 = []"
  shows "(\<forall>p\<in>set ops. op_asked L (sys_config (srv_system s0)) tr p) \<and>
    (\<forall>k\<in>snd ` set (srv_tasks s). posted L (sys_config (srv_system s0)) tr k)"
  using assms(2-)
proof (induction rule: srv_run.induct)
  case srv_none
  then show ?case by simp
next
  case (srv_event tr ops t s ev t' out s')
  let ?c = "sys_config (srv_system s0)" and ?tr = "tr @ [(ev, out)]"
  have c: "sys_config (srv_system s) = ?c"
    using srv_run_ok [OF law srv_event.hyps(1) srv_event.prems(1)] by simp
  have ops: "\<forall>p\<in>set ops. op_asked L ?c ?tr p"
    and tasks: "\<And>k. k \<in> snd ` set (srv_tasks s) \<Longrightarrow> posted L ?c ?tr k"
    and was: "\<And>k. k \<in> snd ` set (srv_tasks s) \<Longrightarrow> posted L ?c tr k"
    using srv_event.IH [OF srv_event.prems] by (blast intro: op_asked_more posted_more)+
  then have all: "\<forall>k\<in>snd ` set (srv_tasks s). posted L ?c ?tr k" by blast
  have "(\<forall>p\<in>set (effects H ev s). op_asked L ?c ?tr p) \<and> (\<forall>k\<in>snd ` set (srv_tasks s'). posted L ?c ?tr k)"
  proof (cases ev)
    case (Move i mv)
    then obtain k where k: "map_of (srv_tasks s) i = Some k" "can_move mv (task_stage k)"
      using srv_event.hyps(2) by (auto split: option.splits)
    then have mem: "k \<in> snd ` set (srv_tasks s)" by (force dest: map_of_SomeD)
    obtain o' a where a: "task_step H ho L (task_endpoint k) (task_request k) mv (task_stage k)
        (api_view (srv_system s)) = Some (o', a)" "srv_tasks s' = settle i k o' (srv_tasks s)"
      using srv_event.hyps(4) Move k(1) by auto
    have "posted L ?c ?tr (k\<lparr>task_stage := st\<rparr>)" if "o' = Continue st" for st
      using task_step_ok [OF k(2), of L "api_view (srv_system s)" H ho st a] a(1) that tasks [OF mem] c
      by (auto simp: posted_def)
    with tasks have "\<forall>k\<in>snd ` set (srv_tasks s'). posted L ?c ?tr k"
      unfolding a(2) by (intro settle_tasks) blast+
    then show ?thesis using task_ops_asked [OF tasks [OF mem], of mv] Move k(1) c by simp
  next
    case (Post i ep req)
    then have "srv_tasks s' = (i, new_task ep req) # srv_tasks s" "out = None" using srv_event.hyps(4) by auto
    with all Post show ?thesis by (simp add: new_task_ok posted_def) (auto simp: new_task_def)
  qed (use srv_event.hyps(4) all c in \<open>auto simp del: query_ops.simps intro: bspec [OF query_ops_asked]\<close>)
  with ops show ?case by auto
qed

subsection \<open>Progress\<close>

lemma srv_run_append:
  assumes "srv_run H ho L t0 s0 tr ops t s" and "srv_run H ho L t s tr' ops' t' s'"
  shows "srv_run H ho L t0 s0 (tr @ tr') (ops @ ops') t' s'"
  using assms(2)
proof (induction rule: srv_run.induct)
  case srv_none
  with assms(1) show ?case by simp
next
  case (srv_event tr' ops' t' s' ev t'' out s'')
  then show ?case using srv_run.srv_event by (metis append.assoc)
qed

text \<open>The move with which a request goes on.\<close>

fun next_move :: "instant \<Rightarrow> stage \<Rightarrow> move" where
  "next_move t Received = CheckRate t"
| "next_move t Rated = Acquire"
| "next_move t Admitted = Extract"
| "next_move t (Parsed body) = Operate t t"
| "next_move t (Answering r) = Respond"

lemma can_next_move: "can_move (next_move t st) st"
  by (cases st) simp_all

lemma next_move_answers:
  "task_step H ho L ep req (next_move t st) st s = Some (out, s') \<Longrightarrow> out \<noteq> Gone"
  by (cases st) (auto simp: case_prod_unfold Let_def split: sum.splits option.splits if_splits)

lemma next_move_clock: "store_clock (Move i (next_move t st)) t t"
  by (cases st) simp_all

lemma map_of_settle:
  "distinct (map fst ts) \<Longrightarrow> map_of (settle i k out ts) j =
     (if j = i then (case out of Continue st \<Rightarrow> Some (k\<lparr>task_stage := st\<rparr>) | _ \<Rightarrow> None) else map_of ts j)"
  by (cases out) (auto simp: map_of_delete)

lemma srv_progress:
  assumes law: "semaphore_law (sem_lib L)" and "srv_ok H s" and "map_of (srv_tasks s) i = Some k"
  shows "\<exists>tr ops s' r. srv_run H ho L t s (tr @ [r]) ops t s' \<and> length tr < stage_rank (task_stage k) \<and>
    (\<forall>e\<in>set (tr @ [r]). \<exists>mv. fst e = Move i mv) \<and> (\<exists>resp. snd r = Some (HttpReply resp)) \<and>
    map_of (srv_tasks s') i = None \<and> (\<forall>j. j \<noteq> i \<longrightarrow> map_of (srv_tasks s') j = map_of (srv_tasks s) j)"
  using assms(2,3)
proof (induction "stage_rank (task_stage k)" arbitrary: s k rule: less_induct)
  case less
  let ?mv = "next_move t (task_stage k)"
  have dist: "distinct (map fst (srv_tasks s))" using less.prems(1) by (simp add: srv_ok_def)
  have en: "enabled (Move i ?mv) s" using less.prems(2) can_next_move by simp
  obtain o1 s1 where s1: "srv_step H ho L (Move i ?mv) s = Some (o1, s1)" "srv_ok H s1"
    using srv_step_total [OF law less.prems(1) en, of ho] by blast
  obtain o' a where a: "task_step H ho L (task_endpoint k) (task_request k) ?mv (task_stage k)
      (api_view (srv_system s)) = Some (o', a)" "srv_tasks s1 = settle i k o' (srv_tasks s)" "o1 = answer_of o'"
    using s1(1) less.prems(2) by auto
  have step: "srv_run H ho L t s [(Move i ?mv, o1)] (effects H (Move i ?mv) s) t s1"
    using srv_run.srv_event [OF srv_run.srv_none en next_move_clock s1(1)] by simp
  have tasks: "map_of (srv_tasks s1) j =
      (if j = i then (case o' of Continue st \<Rightarrow> Some (k\<lparr>task_stage := st\<rparr>) | _ \<Rightarrow> None) else map_of (srv_tasks s) j)" for j
    unfolding a(2) by (rule map_of_settle [OF dist])
  show ?case
  proof (cases o')
    case Gone
    with a(1) next_move_answers show ?thesis by blast
  next
    case (Reply resp)
    have "0 < stage_rank (task_stage k)" by (cases "task_stage k") simp_all
    with step tasks Reply a(3) show ?thesis
      by (intro exI [of _ "[]"] exI [of _ "effects H (Move i ?mv) s"] exI [of _ s1]
          exI [of _ "(Move i ?mv, o1)"]) simp
  next
    case (Continue st)
    have "stage_rank st < stage_rank (task_stage k)"
      using task_step_rank [OF can_next_move a(1) [unfolded Continue]] .
    with less.hyps [of "k\<lparr>task_stage := st\<rparr>" s1] s1(2) tasks [of i] Continue obtain tr ops s' r where
      r: "srv_run H ho L t s1 (tr @ [r]) ops t s'" "length tr < stage_rank st"
      "\<forall>e\<in>set (tr @ [r]). \<exists>mv. fst e = Move i mv" "\<exists>resp. snd r = Some (HttpReply resp)"
      "map_of (srv_tasks s') i = None" "\<forall>j. j \<noteq> i \<longrightarrow> map_of (srv_tasks s') j = map_of (srv_tasks s1) j"
      by auto
    have "srv_run H ho L t s (((Move i ?mv, o1) # tr) @ [r]) (effects H (Move i ?mv) s @ ops) t s'"
      using srv_run_append [OF step r(1)] by simp
    moreover have "length ((Move i ?mv, o1) # tr) < stage_rank (task_stage k)"
      using r(2) \<open>stage_rank st < stage_rank (task_stage k)\<close> by simp
    ultimately show ?thesis using r(3-6) tasks
      by (intro exI [of _ "(Move i ?mv, o1) # tr"] exI [of _ "effects H (Move i ?mv) s @ ops"]
          exI [of _ s'] exI [of _ r]) auto
  qed
qed

subsection \<open>A response with status 200\<close>

lemma reply_200:
  assumes "map_of (srv_tasks s) i = Some k" and "can_move mv (task_stage k)"
    and "srv_step H ho L (Move i mv) s = Some (Some (HttpReply r), s')" and "status_code r = 200"
  shows "task_stage k = Answering r" and "sys_acme (srv_system s') = sys_acme (srv_system s)"
proof -
  obtain a where a: "task_step H ho L (task_endpoint k) (task_request k) mv (task_stage k)
      (api_view (srv_system s)) = Some (Reply r, a)" "sys_acme (srv_system s') = api_acme a"
    using assms(1,3) by (auto elim: answer_of.elims)
  from assms(2) have "task_stage k = Answering r \<and> api_acme a = sys_acme (srv_system s)"
    by (cases rule: can_move_cases)
      (use a(1) assms(4) in \<open>auto simp: case_prod_unfold Let_def error_status split: sum.splits option.splits if_splits\<close>)
  with a(2) show "task_stage k = Answering r" and "sys_acme (srv_system s') = sys_acme (srv_system s)" by simp_all
qed

lemma store_run_earlier:
  assumes "store_run H ho t s ops t' s'" and "u \<le> t"
  shows "\<exists>u'\<le>t'. store_run H ho u s ops u' s'"
  using assms
proof (induction rule: store_run.induct)
  case run_none
  then show ?case by (auto intro: store_run.run_none)
next
  case (run_step ops t1 s1 p s2)
  then obtain u' where "u' \<le> t1" "store_run H ho u s ops u' s1" by blast
  with run_step.hyps store_run_last [of H ho u s ops u' s1 p s2] show ?case by (auto intro: order_trans)
qed

lemma store_run_append:
  assumes "store_run H ho t ar ops t1 ar1" and "store_run H ho t1 ar1 ops' t2 ar2"
  shows "store_run H ho t ar (ops @ ops') t2 ar2"
  using assms(2)
proof (induction rule: store_run.induct)
  case run_none
  with assms(1) show ?case by simp
next
  case (run_step ops' t2 ar2 p ar3)
  then show ?case using store_run_last by (metis append.assoc)
qed

text \<open>
  The store operation of the request \<open>k\<close> that is in flight as \<open>i\<close>: the event of the history in
  which that request, and no other, took the store's lock; \<open>p\<close> is what it did to the store, and
  \<open>ops2\<close> what was done to it afterwards. No other request has had the number \<open>i\<close> since, and right
  after the event the request stood where it stands now: at its response.
\<close>

definition own_operation :: "'nm hickory \<Rightarrow> (zone_records \<Rightarrow> zone_records) \<Rightarrow> ('sem, 'body) http_lib \<Rightarrow>
    instant \<Rightarrow> ('nm, 'sem, 'body) server \<Rightarrow> ('body srv_event \<times> reply option) list \<Rightarrow> store_op list \<Rightarrow>
    instant \<Rightarrow> ('nm, 'sem, 'body) server \<Rightarrow> nat \<Rightarrow> 'body task \<Rightarrow> instant \<Rightarrow> instant \<Rightarrow> store_op \<Rightarrow>
    store_op list \<Rightarrow> bool" where
  "own_operation H ho L t0 s0 tr ops t s i k began later p ops2 \<longleftrightarrow>
     (\<exists>tr1 ops1 u sa sb tr2.
        tr = tr1 @ (Move i (Operate began later), None) # tr2 \<and> ops = ops1 @ p # ops2 \<and>
        (\<forall>e\<in>set tr2. \<forall>ep req. fst e \<noteq> Post i ep req) \<and>
        srv_run H ho L t0 s0 tr1 ops1 u sa \<and> u \<le> began \<and> began \<le> later \<and>
        enabled (Move i (Operate began later)) sa \<and> effects H (Move i (Operate began later)) sa = [p] \<and>
        srv_step H ho L (Move i (Operate began later)) sa = Some (None, sb) \<and>
        map_of (srv_tasks sb) i = Some k \<and> srv_run H ho L later sb tr2 ops2 t s)"

lemma own_operation_later:
  assumes "own_operation H ho L t0 s0 tr ops t s i k began later p ops2"
    and "enabled ev s" "store_clock ev t t'" "srv_step H ho L ev s = Some (out, s')" "\<And>ep req. ev \<noteq> Post i ep req"
  shows "own_operation H ho L t0 s0 (tr @ [(ev, out)]) (ops @ effects H ev s) t' s' i k began later p
    (ops2 @ effects H ev s)"
proof -
  obtain tr1 ops1 u sa sb tr2 where o:
      "tr = tr1 @ (Move i (Operate began later), None) # tr2" "ops = ops1 @ p # ops2"
      "\<forall>e\<in>set tr2. \<forall>ep req. fst e \<noteq> Post i ep req"
      "srv_run H ho L t0 s0 tr1 ops1 u sa" "u \<le> began" "began \<le> later"
      "enabled (Move i (Operate began later)) sa" "effects H (Move i (Operate began later)) sa = [p]"
      "srv_step H ho L (Move i (Operate began later)) sa = Some (None, sb)"
      "map_of (srv_tasks sb) i = Some k" "srv_run H ho L later sb tr2 ops2 t s"
    using assms(1) unfolding own_operation_def by blast
  have "srv_run H ho L later sb (tr2 @ [(ev, out)]) (ops2 @ effects H ev s) t' s'"
    by (rule srv_run.srv_event [OF o(11) assms(2-4)])
  moreover have "\<forall>e\<in>set (tr2 @ [(ev, out)]). \<forall>ep req. fst e \<noteq> Post i ep req" using o(3) assms(5) by simp
  moreover have "tr @ [(ev, out)] = tr1 @ (Move i (Operate began later), None) # (tr2 @ [(ev, out)])"
      "ops @ effects H ev s = ops1 @ p # (ops2 @ effects H ev s)" using o(1,2) by simp_all
  ultimately show ?thesis unfolding own_operation_def using o(4-10) by blast
qed

lemma own_operation_ops:
  assumes "own_operation H ho L t0 s0 tr ops t s i k began later p ops2"
  obtains ops1 where "ops = ops1 @ p # ops2"
  using assms unfolding own_operation_def by blast

text \<open>
  The operation a request in flight must have had: none, unless it is about to be answered 200.
\<close>

definition had_operation :: "'nm hickory \<Rightarrow> (zone_records \<Rightarrow> zone_records) \<Rightarrow> ('sem, 'body) http_lib \<Rightarrow>
    instant \<Rightarrow> ('nm, 'sem, 'body) server \<Rightarrow> ('body srv_event \<times> reply option) list \<Rightarrow> store_op list \<Rightarrow>
    instant \<Rightarrow> ('nm, 'sem, 'body) server \<Rightarrow> nat \<Rightarrow> 'body task \<Rightarrow> bool" where
  "had_operation H ho L t0 s0 tr ops t s i k \<longleftrightarrow>
     (\<forall>r b. task_stage k = Answering r \<and> status_code r = 200 \<and> json_present L 1024 (task_request k) = Inr b \<longrightarrow>
        (\<exists>began later ops2. own_operation H ho L t0 s0 tr ops t s i k began later
           (request_op (task_endpoint k) began later (acme_name (sys_config (srv_system s))) (present_value b)) ops2))"

lemma had_operation_later:
  assumes "had_operation H ho L t0 s0 tr ops t s i k" and "sys_config (srv_system s') = sys_config (srv_system s)"
    and "enabled ev s" "store_clock ev t t'" "srv_step H ho L ev s = Some (out, s')" "\<And>ep req. ev \<noteq> Post i ep req"
  shows "had_operation H ho L t0 s0 (tr @ [(ev, out)]) (ops @ effects H ev s) t' s' i k"
  using assms(1) own_operation_later [OF _ assms(3-6)] unfolding had_operation_def assms(2) by blast

text \<open>The number of a request in flight belongs to it until it is answered.\<close>

lemma map_of_moved:
  assumes "distinct (map fst (srv_tasks s))" and "map_of (srv_tasks s) i = Some k"
    and "srv_step H ho L (Move i mv) s = Some (out, s')" and "map_of (srv_tasks s') i = Some k'"
  obtains st a where "task_step H ho L (task_endpoint k) (task_request k) mv (task_stage k) (api_view (srv_system s)) =
      Some (Continue st, a)" "k' = k\<lparr>task_stage := st\<rparr>" "out = None" "sys_acme (srv_system s') = api_acme a"
proof -
  obtain o' a where a: "task_step H ho L (task_endpoint k) (task_request k) mv (task_stage k) (api_view (srv_system s)) =
      Some (o', a)" "srv_tasks s' = settle i k o' (srv_tasks s)" "out = answer_of o'" "sys_acme (srv_system s') = api_acme a"
    using assms(2,3) by auto
  with assms(4) map_of_settle [OF assms(1), of i k o' i] show thesis by (cases o') (auto intro: that)
qed

lemma srv_step_other:
  assumes "distinct (map fst (srv_tasks s))" and "srv_step H ho L ev s = Some (out, s')"
    and "\<And>mv. ev \<noteq> Move i mv" and "\<And>ep req. ev \<noteq> Post i ep req"
  shows "map_of (srv_tasks s') i = map_of (srv_tasks s) i"
proof (cases ev)
  case (Move j mv)
  then have "j \<noteq> i" using assms(3) by auto
  with Move assms(1,2) show ?thesis by (auto simp: map_of_settle split: option.splits)
next
  case (Post j ep req)
  then have "j \<noteq> i" using assms(4) by auto
  with Post assms(2) show ?thesis by auto
qed (use assms(2) in auto)

lemma had_operation_step:
  assumes run: "srv_run H ho L t0 s0 tr ops t s" and "distinct (map fst (srv_tasks s))" and "timeout_law L"
    and k: "map_of (srv_tasks s) i = Some k" "task_ok L (sys_config (srv_system s)) k"
    and had: "had_operation H ho L t0 s0 tr ops t s i k"
    and step: "enabled (Move i mv) s" "store_clock (Move i mv) t t'" "srv_step H ho L (Move i mv) s = Some (out, s')"
    and c: "sys_config (srv_system s') = sys_config (srv_system s)" and k': "map_of (srv_tasks s') i = Some k'"
  shows "had_operation H ho L t0 s0 (tr @ [(Move i mv, out)]) (ops @ effects H (Move i mv) s) t' s' i k'"
  unfolding had_operation_def
proof (intro allI impI, elim conjE)
  fix r b
  assume r: "task_stage k' = Answering r" "status_code r = 200" and j: "json_present L 1024 (task_request k') = Inr b"
  let ?a = "api_view (srv_system s)" and ?n = "acme_name (sys_config (srv_system s))"
  obtain st a where a: "task_step H ho L (task_endpoint k) (task_request k) mv (task_stage k) ?a = Some (Continue st, a)"
      "k' = k\<lparr>task_stage := st\<rparr>" "out = None" "sys_acme (srv_system s') = api_acme a"
    by (rule map_of_moved [OF assms(2) k(1) step(3) k'])
  have move: "can_move mv (task_stage k)" using step(1) k(1) by simp
  have j': "json_present L 1024 (task_request k) = Inr b" and a': "task_step H ho L (task_endpoint k)
      (task_request k) mv (task_stage k) ?a = Some (Continue (Answering r), a)"
    using j r(1) a(1,2) by simp_all
  obtain now later b' where m: "mv = Operate now later" "task_stage k = Parsed b'"
    by (rule task_step_200 [OF move assms(3) j' a' r(2)])
  have b': "b' = b" using k(2) m(2) j' by (simp add: task_ok_def)
  let ?p = "request_op (task_endpoint k) now later ?n (present_value b)"
  have p: "effects H (Move i mv) s = [?p]"
    using operate_200(1) [OF a' [unfolded m] r(2)] m b' k(1) by simp
  have "own_operation H ho L t0 s0 (tr @ [(Move i mv, out)]) (ops @ [?p]) t' s' i k' now later ?p []"
    unfolding own_operation_def
    using run step(1,3) p a(3) k' m(1) step(2)
    by (intro exI [of _ tr] exI [of _ ops] exI [of _ t] exI [of _ s] exI [of _ s'] exI [of _ "[]"]) (auto intro: srv_none)
  then show "\<exists>began later ops2. own_operation H ho L t0 s0 (tr @ [(Move i mv, out)])
      (ops @ effects H (Move i mv) s) t' s' i k' began later
      (request_op (task_endpoint k') began later (acme_name (sys_config (srv_system s'))) (present_value b)) ops2"
    using p a(2) c by auto
qed

lemma srv_run_operations:
  assumes law: "semaphore_law (sem_lib L)" "timeout_law L" and "srv_run H ho L t0 s0 tr ops t s"
    and ok: "srv_ok H s0" "srv_tasks s0 = []" and "map_of (srv_tasks s) i = Some k"
  shows "had_operation H ho L t0 s0 tr ops t s i k"
  using assms(3,6)
proof (induction arbitrary: k rule: srv_run.induct)
  case srv_none
  with ok(2) show ?case by simp
next
  case (srv_event tr ops t s ev t' out s')
  have s: "srv_ok H s" using srv_run_ok [OF law(1) srv_event.hyps(1) ok(1)] by simp
  then have dist: "distinct (map fst (srv_tasks s))" by (simp add: srv_ok_def)
  have c: "sys_config (srv_system s') = sys_config (srv_system s)"
    using srv_step_total [OF law(1) s srv_event.hyps(2), of ho] srv_event.hyps(4) by auto
  consider (moved) mv where "ev = Move i mv" | (new) ep req where "ev = Post i ep req"
    | (other) "\<And>mv. ev \<noteq> Move i mv" "\<And>ep req. ev \<noteq> Post i ep req" by blast
  then show ?case
  proof cases
    case moved
    then obtain k0 where k0: "map_of (srv_tasks s) i = Some k0" using srv_event.hyps(2) by (auto split: option.splits)
    then have "k0 \<in> snd ` set (srv_tasks s)" by (force dest: map_of_SomeD)
    then have "task_ok L (sys_config (srv_system s)) k0"
      using srv_run_asked [OF law(1) srv_event.hyps(1) ok] srv_run_ok [OF law(1) srv_event.hyps(1) ok(1)]
      by (auto simp: posted_def)
    from had_operation_step [OF srv_event.hyps(1) dist law(2) k0 this srv_event.IH [OF k0]] moved srv_event.hyps(2-4) c
      srv_event.prems show ?thesis by blast
  next
    case new
    with srv_event.hyps(4) srv_event.prems have "k = new_task ep req" by auto
    then show ?thesis by (simp add: had_operation_def new_task_def)
  next
    case other
    have "map_of (srv_tasks s) i = Some k" using srv_step_other [OF dist srv_event.hyps(4) other] srv_event.prems by simp
    from had_operation_later [OF srv_event.IH [OF this] c srv_event.hyps(2-4) other(2)] show ?thesis .
  qed
qed

text \<open>
  What the own operation of a request answered 200 did to the store, and a history of the store
  from then to a later moment.
\<close>

lemma own_operation_store:
  assumes law: "semaphore_law (sem_lib L)" and ok: "srv_ok H s0"
    and own: "own_operation H ho L t0 s0 tr ops t s1 i k began later (request_op (task_endpoint k) began later n v) ops2"
    and r: "task_stage k = Answering r" "status_code r = 200"
    and after: "srv_run H ho L t s2 tr' ops' t' s3" "srv_ok H s2" "sys_acme (srv_system s2) = sys_acme (srv_system s1)"
  obtains ar1 ar2 w where "store_wf ar1" "lifetime ar1 = lifetime (sys_acme (srv_system s0))" "w \<le> t'"
    "store_run H ho (op_end (request_op (task_endpoint k) began later n v)) ar2 (ops2 @ ops') w (sys_acme (srv_system s3))"
    "task_endpoint k = ToPresent \<Longrightarrow> add H ho began later n v ar1 = Some (Inr (), ar2)"
    "task_endpoint k = ToCleanup \<Longrightarrow> ar2 = remove began n v ar1"
proof -
  obtain tr1 ops1 u sa sb tr2 where o: "srv_run H ho L t0 s0 tr1 ops1 u sa" "began \<le> later"
      "enabled (Move i (Operate began later)) sa"
      "effects H (Move i (Operate began later)) sa = [request_op (task_endpoint k) began later n v]"
      "srv_step H ho L (Move i (Operate began later)) sa = Some (None, sb)"
      "map_of (srv_tasks sb) i = Some k" "srv_run H ho L later sb tr2 ops2 t s1"
    using own unfolding own_operation_def by blast
  have sa: "srv_ok H sa" using srv_run_ok [OF law o(1) ok] by simp
  have sb: "srv_ok H sb" using srv_step_total [OF law sa o(3), of ho] o(5) by auto
  obtain ka where ka: "map_of (srv_tasks sa) i = Some ka" "can_move (Operate began later) (task_stage ka)"
    using o(3) by (auto split: option.splits)
  then obtain b where b: "task_stage ka = Parsed b" by (cases "task_stage ka") auto
  have "distinct (map fst (srv_tasks sa))" using sa by (simp add: srv_ok_def)
  from map_of_moved [OF this ka(1) o(5,6)] obtain st a where a: "task_step H ho L (task_endpoint ka) (task_request ka)
      (Operate began later) (task_stage ka) (api_view (srv_system sa)) = Some (Continue st, a)"
      "k = ka\<lparr>task_stage := st\<rparr>" "sys_acme (srv_system sb) = api_acme a" by metis
  have ep: "task_endpoint k = task_endpoint ka" and "st = Answering r" using a(2) r(1) by simp_all
  note op = operate_200 [OF a(1) [unfolded b this(2)] r(2)]
  have nv: "n = acme_name (sys_config (srv_system sa))" "v = present_value b"
    using op(1) o(4) ka(1) b ep by (cases "task_endpoint k"; simp)+
  let ?ar1 = "sys_acme (srv_system sa)" and ?ar2 = "sys_acme (srv_system sb)"
  obtain u1 where u1: "store_run H ho t0 (sys_acme (srv_system s0)) ops1 u1 ?ar1"
    using srv_run_store [OF law o(1) ok] by blast
  have wf: "store_wf ?ar1" using sa by (simp add: srv_ok_def sys_ok_def)
  have life: "lifetime ?ar1 = lifetime (sys_acme (srv_system s0))" using store_run_frame [OF u1] by simp
  obtain w1 where w1: "w1 \<le> t" "store_run H ho later ?ar2 ops2 w1 (sys_acme (srv_system s1))"
    using srv_run_store [OF law o(7) sb] by blast
  let ?fin = "op_end (request_op (task_endpoint k) began later n v)"
  have "?fin \<le> later" using o(2) by (cases "task_endpoint k") simp_all
  then obtain w2 where w2: "w2 \<le> w1" "store_run H ho ?fin ?ar2 ops2 w2 (sys_acme (srv_system s1))"
    using store_run_earlier [OF w1(2)] by blast
  obtain w3 where w3: "w3 \<le> t'" "store_run H ho t (sys_acme (srv_system s1)) ops' w3 (sys_acme (srv_system s3))"
    using srv_run_store [OF law after(1,2)] after(3) by auto
  have "w2 \<le> t" using w2(1) w1(1) by (rule order_trans)
  then obtain w where w: "w \<le> w3" "store_run H ho w2 (sys_acme (srv_system s1)) ops' w (sys_acme (srv_system s3))"
    using store_run_earlier [OF w3(2)] by blast
  show thesis
  proof (rule that [OF wf life])
    show "w \<le> t'" using w(1) w3(1) by (rule order_trans)
    show "store_run H ho ?fin ?ar2 (ops2 @ ops') w (sys_acme (srv_system s3))" by (rule store_run_append [OF w2(2) w(2)])
    show "add H ho began later n v ?ar1 = Some (Inr (), ?ar2)" if "task_endpoint k = ToPresent"
      using op(2) that ep nv a(3) by simp
    show "?ar2 = remove began n v ?ar1" if "task_endpoint k = ToCleanup"
      using op(3) that ep nv a(3) by simp
  qed
qed

text \<open>The value of a presentation stays, and that of a withdrawal stays away, until it is touched.\<close>

lemma presented_stays:
  assumes "add H ho began later n v ar1 = Some (Inr (), ar2)" and "store_wf ar1" and "store_run H ho later ar2 ops u ar"
    and "\<forall>p\<in>set ops. \<not> touches n v p" and "u \<le> w" and "w < plus_duration later (lifetime ar1)"
  shows "expire w (store_view ar) n v \<noteq> None"
proof -
  have "store_wf ar2" using add_wf [OF assms(1,2)] .
  from store_run_untouched [OF assms(3) this assms(4,5)] acme.put_view [OF assms(2,1)] assms(6) show ?thesis
    by (simp add: expire_def present_rr_apply)
qed

lemma withdrawn_stays_away:
  assumes "store_wf ar" and "store_run H ho began (remove began n v ar) ops u ar'"
    and "\<forall>p\<in>set ops. \<not> touches n v p" and "u \<le> w"
  shows "expire w (store_view ar') n v = None"
  using store_run_untouched [OF assms(2) _ assms(3,4)] remove_view [OF assms(1), of began n v]
  by (simp add: expire_def withdraw_rr_apply)

end
