(* ===== verification/Process.thy ===== *)
theory Process
  imports Concurrent_Spec
begin

text \<open>
  The process: \<open>main\<close>, \<open>run_http_api\<close> and \<open>shutdown_signal\<close> of \<open>src/main.rs\<close>. After start-up and
  the three binds, \<open>main\<close> waits in one \<open>tokio::select!\<close> for the first of four futures to finish:
  the three listener loops and the shutdown signal. A listener is given by one round of its loop,
  which goes on or returns; a round is fed with the outcome of the call it waits for. The
  connections are counted by the permits they hold. An HTTP/1 connection carries one request at a
  time, and only an open connection carries requests or messages.
\<close>

subsection \<open>The loops\<close>

datatype 'r flow = Again | Return 'r

text \<open>The outcome of \<open>acquire_owned\<close>, which fails only on a semaphore that has been closed.\<close>

datatype 'sem acquired = Closed | Waits | Acquired 'sem

definition acquire_owned :: "'sem semaphore \<Rightarrow> bool \<Rightarrow> 'sem \<Rightarrow> 'sem acquired" where
  "acquire_owned S shut p =
     (if shut then Closed else case sem_try_acquire S p of None \<Rightarrow> Waits | Some p \<Rightarrow> Acquired p)"

text \<open>
  One round of \<open>run_tcp_dns\<close>: the permit, then \<open>accept\<close>. The second component says whether a
  connection was opened; \<open>None\<close> means that the round waits for a permit.
\<close>

definition tcp_round :: "'sem semaphore \<Rightarrow> bool \<Rightarrow> string + unit \<Rightarrow> 'sem \<Rightarrow> (unit flow \<times> bool \<times> 'sem) option" where
  "tcp_round S shut accept p =
     (case acquire_owned S shut p of
        Closed \<Rightarrow> Some (Return (), False, p)
      | Waits \<Rightarrow> None
      | Acquired p' \<Rightarrow>
          Some (case accept of
                  Inl error \<Rightarrow> (Again, False, sem_release S p')
                | Inr _ \<Rightarrow> (Again, True, p')))"

text \<open>One round of \<open>run_http_api_with_limits\<close>: \<open>accept\<close>, then the permit, without waiting.\<close>

definition http_round :: "'sem semaphore \<Rightarrow> string + unit \<Rightarrow> 'sem \<Rightarrow> (string + unit) flow \<times> bool \<times> 'sem" where
  "http_round S accept p =
     (case accept of
        Inl error \<Rightarrow> (Again, False, p)
      | Inr _ \<Rightarrow> (case sem_try_acquire S p of None \<Rightarrow> (Again, False, p) | Some p' \<Rightarrow> (Again, True, p')))"

text \<open>
  One round of \<open>run_udp_dns\<close>; \<open>handler\<close> is what the server does with the datagram. A failure to
  send the reply is only logged.
\<close>

definition udp_round :: "(bytes \<Rightarrow> 's \<Rightarrow> (reply option \<times> 's) option) \<Rightarrow> string + bytes \<Rightarrow> 's \<Rightarrow>
    (unit flow \<times> reply option \<times> 's) option" where
  "udp_round handler recv s =
     (case recv of
        Inl error \<Rightarrow> Some (Again, None, s)
      | Inr datagram \<Rightarrow> map_option (\<lambda>(reply, s).
          (Again, if reply = Some (DnsReply []) then None else reply, s)) (handler (take UDP_BUFFER datagram) s))"

subsection \<open>Signals\<close>

datatype signal_event = CtrlC "string + unit" | SigTerm

text \<open>
  Whether \<open>shutdown_signal\<close> finishes: \<open>sigterm\<close> is the outcome of registering the handler for
  SIGTERM, \<open>CtrlC r\<close> that \<open>ctrl_c()\<close> finishes with \<open>r\<close>, an error when no handler can be registered.
\<close>

fun shutdown_signal :: "string + unit \<Rightarrow> signal_event \<Rightarrow> bool" where
  "shutdown_signal (Inr _) (CtrlC result) = True"
| "shutdown_signal (Inr _) SigTerm = True"
| "shutdown_signal (Inl error) (CtrlC result) = True"
| "shutdown_signal (Inl error) SigTerm = False"

subsection \<open>The process\<close>

record ('nm, 'sem, 'body) process =
  proc_server :: "('nm, 'sem, 'body) server"
  tcp_permits :: 'sem
  tcp_closed :: bool
  tcp_open :: nat
  http_permits :: 'sem
  http_open :: nat
  term_handler :: "string + unit"

datatype 'p status = Running 'p | Exited "string + unit"

datatype branch = UdpStopped | TcpStopped | HttpStopped "string + unit" | ShutDown

text \<open>The arms of \<open>select!\<close> in \<open>main\<close> and what follows it.\<close>

fun main_result :: "branch \<Rightarrow> string + unit" where
  "main_result UdpStopped = Inl ''UDP DNS listener stopped unexpectedly''"
| "main_result TcpStopped = Inl ''TCP DNS listener stopped unexpectedly''"
| "main_result (HttpStopped result) = (case result of Inl error \<Rightarrow> Inl error | Inr _ \<Rightarrow> Inr ())"
| "main_result ShutDown = Inr ()"

text \<open>
  \<open>main\<close> up to \<open>select!\<close>: start-up, then the three sockets in the order in which they are bound.
\<close>

definition main_start :: "'nm hickory \<Rightarrow> clap \<Rightarrow> 'sem semaphore \<Rightarrow> (string \<Rightarrow> string option) \<Rightarrow> int \<Rightarrow> instant \<Rightarrow>
    string + unit \<Rightarrow> string + unit \<Rightarrow> string + unit \<Rightarrow> string + unit \<Rightarrow>
    ('nm, 'sem, 'body) process status option" where
  "main_start H C S args timestamp now udp_bind tcp_bind http_bind sigterm =
     (case startup H C S args timestamp now of
        None \<Rightarrow> None
      | Some (Inl error) \<Rightarrow> Some (Exited (Inl error))
      | Some (Inr s) \<Rightarrow> Some
          (case udp_bind of Inl error \<Rightarrow> Exited (Inl error) | Inr _ \<Rightarrow>
           case tcp_bind of Inl error \<Rightarrow> Exited (Inl error) | Inr _ \<Rightarrow>
           case http_bind of Inl error \<Rightarrow> Exited (Inl error) | Inr _ \<Rightarrow>
             Running \<lparr>proc_server = serving s,
               tcp_permits = sem_new S MAX_CONNECTIONS, tcp_closed = False, tcp_open = 0,
               http_permits = sem_new S MAX_HTTP_CONNECTIONS, http_open = 0, term_handler = sigterm\<rparr>))"

datatype 'body proc_event =
    HttpAccept "string + unit"
  | HttpClose
  | TcpAccept "string + unit"
  | TcpClose
  | UdpRecv instant "string + bytes"
  | Serve "'body srv_event"
  | Signal signal_event

fun is_datagram :: "'body srv_event \<Rightarrow> bool" where
  "is_datagram (Datagram now raw) = True"
| "is_datagram _ = False"

fun proc_enabled :: "'sem semaphore \<Rightarrow> 'body proc_event \<Rightarrow> ('nm, 'sem, 'body) process \<Rightarrow> bool" where
  "proc_enabled S HttpClose p \<longleftrightarrow> length (srv_tasks (proc_server p)) < http_open p"
| "proc_enabled S TcpClose p \<longleftrightarrow> 0 < tcp_open p"
| "proc_enabled S (TcpAccept accept) p \<longleftrightarrow> acquire_owned S (tcp_closed p) (tcp_permits p) \<noteq> Waits"
| "proc_enabled S (Serve ev) p \<longleftrightarrow> enabled ev (proc_server p) \<and> \<not> is_datagram ev \<and>
     (case ev of
        TcpMessage now raw \<Rightarrow> 0 < tcp_open p
      | Post i ep req \<Rightarrow> length (srv_tasks (proc_server p)) < http_open p
      | GetHealth \<Rightarrow> length (srv_tasks (proc_server p)) < http_open p
      | _ \<Rightarrow> True)"
| "proc_enabled S _ p \<longleftrightarrow> True"

fun proc_clock :: "'body proc_event \<Rightarrow> instant \<Rightarrow> instant \<Rightarrow> bool" where
  "proc_clock (Serve ev) t t' \<longleftrightarrow> store_clock ev t t'"
| "proc_clock (UdpRecv now (Inr datagram)) t t' \<longleftrightarrow> t \<le> now \<and> t' = now"
| "proc_clock _ t t' \<longleftrightarrow> t' = t"

fun proc_step :: "'nm hickory \<Rightarrow> (zone_records \<Rightarrow> zone_records) \<Rightarrow> ('sem, 'body) http_lib \<Rightarrow>
    'body proc_event \<Rightarrow> ('nm, 'sem, 'body) process \<Rightarrow>
    (reply option \<times> ('nm, 'sem, 'body) process status) option" where
  "proc_step H ho L (HttpAccept accept) p =
     (let (flow, opened, free) = http_round (sem_lib L) accept (http_permits p)
      in Some (None, case flow of
           Return result \<Rightarrow> Exited (main_result (HttpStopped result))
         | Again \<Rightarrow> Running (p\<lparr>http_permits := free, http_open := http_open p + of_bool opened\<rparr>)))"
| "proc_step H ho L HttpClose p =
     Some (None, Running (p\<lparr>http_permits := sem_release (sem_lib L) (http_permits p), http_open := http_open p - 1\<rparr>))"
| "proc_step H ho L (TcpAccept accept) p =
     (case tcp_round (sem_lib L) (tcp_closed p) accept (tcp_permits p) of
        None \<Rightarrow> Some (None, Running p)
      | Some (flow, opened, free) \<Rightarrow> Some (None, case flow of
            Return _ \<Rightarrow> Exited (main_result TcpStopped)
          | Again \<Rightarrow> Running (p\<lparr>tcp_permits := free, tcp_open := tcp_open p + of_bool opened\<rparr>)))"
| "proc_step H ho L TcpClose p =
     Some (None, Running (p\<lparr>tcp_permits := sem_release (sem_lib L) (tcp_permits p), tcp_open := tcp_open p - 1\<rparr>))"
| "proc_step H ho L (UdpRecv now recv) p =
     map_option (\<lambda>(flow, reply, s). (reply, case flow of
         Return _ \<Rightarrow> Exited (main_result UdpStopped)
       | Again \<Rightarrow> Running (p\<lparr>proc_server := s\<rparr>)))
     (udp_round (\<lambda>raw. srv_step H ho L (Datagram now raw)) recv (proc_server p))"
| "proc_step H ho L (Serve ev) p =
     map_option (\<lambda>(reply, s). (reply, Running (p\<lparr>proc_server := s\<rparr>))) (srv_step H ho L ev (proc_server p))"
| "proc_step H ho L (Signal sig) p =
     Some (None, if shutdown_signal (term_handler p) sig then Exited (main_result ShutDown) else Running p)"

inductive proc_run :: "'nm hickory \<Rightarrow> (zone_records \<Rightarrow> zone_records) \<Rightarrow> ('sem, 'body) http_lib \<Rightarrow>
    instant \<Rightarrow> ('nm, 'sem, 'body) process \<Rightarrow> ('body proc_event \<times> reply option) list \<Rightarrow> instant \<Rightarrow>
    ('nm, 'sem, 'body) process status \<Rightarrow> bool"
  for H ho L t0 p0 where
  proc_none: "proc_run H ho L t0 p0 [] t0 (Running p0)"
| proc_event: "proc_run H ho L t0 p0 tr t (Running p) \<Longrightarrow> proc_enabled (sem_lib L) ev p \<Longrightarrow>
    proc_clock ev t t' \<Longrightarrow> proc_step H ho L ev p = Some (out, st) \<Longrightarrow>
    proc_run H ho L t0 p0 (tr @ [(ev, out)]) t' st"

subsection \<open>The loops go on\<close>

lemma http_round_again: "fst (http_round S accept p) = Again"
  by (simp add: http_round_def split: sum.split option.split)

lemma http_round_permits:
  assumes "semaphore_law S" and "http_round S accept p = (flow, opened, p')"
  shows "flow = Again \<and> sem_available S p' + of_bool opened = sem_available S p"
  using assms(2) sem_laws(3) [OF assms(1)] by (auto simp: http_round_def split: sum.splits option.splits)

lemma tcp_round_permits:
  assumes "semaphore_law S" and "tcp_round S False accept p = Some (flow, opened, p')"
  shows "flow = Again \<and> sem_available S p' + of_bool opened = sem_available S p"
  using assms(2) sem_laws(3) [OF assms(1)] sem_laws(4) [OF assms(1)]
  by (auto simp: tcp_round_def acquire_owned_def split: sum.splits option.splits)

subsection \<open>The invariant of a running process\<close>

definition proc_ok :: "'nm hickory \<Rightarrow> ('sem, 'body) http_lib \<Rightarrow> ('nm, 'sem, 'body) process \<Rightarrow> bool" where
  "proc_ok H L p \<longleftrightarrow> srv_ok H (proc_server p) \<and> \<not> tcp_closed p \<and>
     sem_available (sem_lib L) (tcp_permits p) + tcp_open p = 1024 \<and>
     sem_available (sem_lib L) (http_permits p) + http_open p = 128 \<and>
     length (srv_tasks (proc_server p)) \<le> http_open p"

lemma length_update_key: "map_of ts i = Some k \<Longrightarrow> length (AList.update i k' ts) = length ts"
  by (induction ts) (auto split: if_splits)

lemma length_settle: "map_of ts i = Some k \<Longrightarrow> length (settle i k out ts) \<le> length ts"
  by (cases out) (simp_all add: length_update_key length_delete_le)

lemma srv_step_tasks:
  assumes "srv_step H ho L ev s = Some (out, s')" and "enabled ev s"
  shows "length (srv_tasks s') \<le> length (srv_tasks s) + (case ev of Post i ep req \<Rightarrow> 1 | _ \<Rightarrow> 0)"
  using assms length_settle by (cases ev) (auto split: option.splits)

text \<open>
  What ends the process: Ctrl-C (or the failure to wait for it), and SIGTERM when its handler could
  be registered; nothing else, and it then exits without an error.
\<close>

definition stops :: "string + unit \<Rightarrow> 'body proc_event \<Rightarrow> bool" where
  "stops sigterm ev \<longleftrightarrow> (\<exists>result. ev = Signal (CtrlC result)) \<or> ev = Signal SigTerm \<and> (\<exists>u. sigterm = Inr u)"

lemma stops_simps [simp]:
  "stops sigterm (Signal sig) \<longleftrightarrow> shutdown_signal sigterm sig"
  "\<not> stops sigterm (HttpAccept accept)" "\<not> stops sigterm HttpClose" "\<not> stops sigterm (TcpAccept accept)"
  "\<not> stops sigterm TcpClose" "\<not> stops sigterm (UdpRecv now recv)" "\<not> stops sigterm (Serve e)"
  by (cases sig; cases sigterm; auto simp: stops_def)+

lemma proc_step_total [panic_free]:
  assumes law: "semaphore_law (sem_lib L)" and ok: "proc_ok H L p" and en: "proc_enabled (sem_lib L) ev p"
  shows "\<exists>out st. proc_step H ho L ev p = Some (out, st) \<and>
    (if stops (term_handler p) ev then st = Exited (Inr ())
     else \<exists>p'. st = Running p' \<and> proc_ok H L p' \<and> term_handler p' = term_handler p)"
proof (cases ev)
  case (HttpAccept accept)
  obtain flow opened q where r: "http_round (sem_lib L) accept (http_permits p) = (flow, opened, q)"
    by (metis prod_cases3)
  from http_round_permits [OF law r] HttpAccept r ok show ?thesis by (auto simp: proc_ok_def)
next
  case HttpClose
  with ok en sem_laws(4) [OF law] show ?thesis by (auto simp: proc_ok_def)
next
  case (TcpAccept accept)
  then obtain flow opened q where r: "tcp_round (sem_lib L) (tcp_closed p) accept (tcp_permits p) = Some (flow, opened, q)"
    using en by (cases "acquire_owned (sem_lib L) (tcp_closed p) (tcp_permits p)"; cases accept)
      (auto simp: tcp_round_def)
  then have "flow = Again \<and> sem_available (sem_lib L) q + of_bool opened = sem_available (sem_lib L) (tcp_permits p)"
    using ok by (intro tcp_round_permits [OF law]) (simp add: proc_ok_def)
  with TcpAccept r ok show ?thesis by (auto simp: proc_ok_def)
next
  case TcpClose
  with ok en sem_laws(4) [OF law] show ?thesis by (auto simp: proc_ok_def)
next
  case (UdpRecv now recv)
  show ?thesis
  proof (cases recv)
    case (Inl error)
    with UdpRecv ok show ?thesis by (simp add: udp_round_def)
  next
    case (Inr datagram)
    have "srv_ok H (proc_server p)" using ok by (simp add: proc_ok_def)
    from srv_step_total [OF law this, of "Datagram now (take UDP_BUFFER datagram)" ho] obtain out s where
      s: "srv_step H ho L (Datagram now (take UDP_BUFFER datagram)) (proc_server p) = Some (out, s)" "srv_ok H s"
      by (metis enabled.simps(5))
    have "srv_tasks s = srv_tasks (proc_server p)" using s(1) by auto
    moreover have "proc_step H ho L ev p =
        Some (if out = Some (DnsReply []) then None else out, Running (p\<lparr>proc_server := s\<rparr>))"
      using s(1) UdpRecv Inr by (simp add: udp_round_def del: srv_step.simps)
    ultimately show ?thesis using UdpRecv s(2) ok by (auto simp: proc_ok_def)
  qed
next
  case (Serve e)
  then have e: "enabled e (proc_server p)" using en by simp
  have "srv_ok H (proc_server p)" using ok by (simp add: proc_ok_def)
  from srv_step_total [OF law this e, of ho] obtain out s where
    s: "srv_step H ho L e (proc_server p) = Some (out, s)" "srv_ok H s" by blast
  have "length (srv_tasks s) \<le> http_open p"
    using srv_step_tasks [OF s(1) e] en Serve ok by (cases e) (auto simp: proc_ok_def)
  with Serve s ok show ?thesis by (auto simp: proc_ok_def)
next
  case (Signal sig)
  with ok show ?thesis by auto
qed

lemma proc_run_ok:
  assumes law: "semaphore_law (sem_lib L)" and "proc_run H ho L t0 p0 tr t st" and "proc_ok H L p0"
  shows "(\<forall>p. st = Running p \<longrightarrow> proc_ok H L p \<and> term_handler p = term_handler p0 \<and>
      (\<forall>e\<in>fst ` set tr. \<not> stops (term_handler p0) e)) \<and>
    (\<forall>r. st = Exited r \<longrightarrow> r = Inr () \<and> tr \<noteq> [] \<and> stops (term_handler p0) (fst (last tr)))"
  using assms(2,3)
proof (induction rule: proc_run.induct)
  case (proc_event tr t p ev t' out st)
  then have p: "proc_ok H L p" "term_handler p = term_handler p0"
      "\<forall>e\<in>fst ` set tr. \<not> stops (term_handler p0) e" by blast+
  from proc_step_total [OF law p(1) proc_event.hyps(2), of ho] proc_event.hyps(4) p(2,3)
  show ?case by (auto split: if_splits)
qed simp

end
