(* ===== verification/Dns_Examples.thy ===== *)
theory Dns_Examples
  imports Dns_Answers
begin

text \<open>
  The properties of the DNS handler at concrete queries: the sample configuration, a store with
  one live challenge value, and names in mixed case.
\<close>

subsection \<open>A handler and its queries\<close>

abbreviation "demo_hickory \<equiv> counting_hickory 150"

definition demo_handler :: "string dns_handler" where
  "demo_handler = \<lparr>config = sample_config,
     acme = set_zone [(''_acme-challenge.xip.example.com'',
         [\<lparr>token_value = ''tok'', expires_at = Instant 100\<rparr>])] True
       (with_serial 600 100 sample_config_capacity 7)\<rparr>"

definition demo_query :: "string \<Rightarrow> record_type \<Rightarrow> string question" where
  "demo_query n t = \<lparr>q_name = n, q_type = t, q_class = IN\<rparr>"

definition demo_request :: "string \<Rightarrow> record_type \<Rightarrow> string message" where
  "demo_request n t = (message_response text_hickory 9 Query)
     \<lparr>message_type := QueryMessage, queries := [demo_query n t]\<rparr>"

lemma demo_config [simp]: "config demo_handler = sample_config"
  by (simp add: demo_handler_def)

lemma demo_view: "store_view (acme demo_handler) ''_acme-challenge.xip.example.com'' v =
  (if v = ''tok'' then Some (Instant 100) else None)"
  by (simp add: demo_handler_def store_view_def rr_def)

lemma demo_ok: "handler_ok demo_hickory demo_handler"
  by (simp add: handler_ok_def sample_valid_config counting_soa_ok)
    (simp add: demo_handler_def store_wf_def wf_records_def)

lemma response_law_counting [simp]: "response_law (counting_hickory k)"
  by (simp add: counting_hickory_def response_law_def text_hickory_def)

lemma demo_query_sel [simp]:
  "q_name (demo_query n t) = n" "q_type (demo_query n t) = t" "q_class (demo_query n t) = IN"
  by (simp_all add: demo_query_def)

lemma demo_request_sel [simp]:
  "op_code (demo_request n t) = Query" "queries (demo_request n t) = [demo_query n t]"
  "msg_edns (demo_request n t) = None" "message_type (demo_request n t) = QueryMessage"
  by (simp_all add: demo_request_def text_hickory_def)

lemma demo_text: "qname_text demo_hickory n = to_lowercase (trim_end_matches CHR ''.'' n)"
  by (simp add: qname_text_def)

lemma demo_accepted:
  "is_our_domain (to_lowercase (trim_end_matches CHR ''.'' n)) ''xip.example.com'' \<Longrightarrow>
     accepted demo_hickory (config demo_handler) (demo_request n t) (demo_query n t)"
  by (simp add: accepted_def edns_supported_def demo_text)

lemma demo_response:
  obtains m h' where "build_response demo_hickory now (demo_request n t) demo_handler = Some (m, h')"
  using build_response_total [OF demo_ok, of now "demo_request n t"] by metis

lemmas demo_eval = char_of_eq_iff trim_end_matches_def ascii_lower_def is_our_domain_def ends_with_def acme_name_def

lemma demo_names:
  "accepted demo_hickory (config demo_handler) (demo_request ''XIP.Example.com.'' t) (demo_query ''XIP.Example.com.'' t)"
  "accepted demo_hickory (config demo_handler) (demo_request ''xip.example.com'' t) (demo_query ''xip.example.com'' t)"
  "accepted demo_hickory (config demo_handler) (demo_request ''_acme-challenge.xip.example.com'' t)
     (demo_query ''_acme-challenge.xip.example.com'' t)"
  "accepted demo_hickory (config demo_handler) (demo_request ''A-1-2-3-4.xip.example.com'' t)
     (demo_query ''A-1-2-3-4.xip.example.com'' t)"
  "accepted demo_hickory (config demo_handler) (demo_request ''a.xip.example.com'' t)
     (demo_query ''a.xip.example.com'' t)"
  "accepted demo_hickory (config demo_handler) (demo_request ''1-2-3-4.XIP.example.com'' t)
     (demo_query ''1-2-3-4.XIP.example.com'' t)"
  by (rule demo_accepted; simp add: demo_eval)+

subsection \<open>The properties at them\<close>

theorem response_code_correct_witness:
  "\<exists>m h'. build_response demo_hickory (Instant 5) (demo_request ''other.test'' A) demo_handler = Some (m, h') \<and>
     response_code m = Refused \<and> \<not> authoritative m \<and> answers m = []"
proof -
  obtain m h' where b: "build_response demo_hickory (Instant 5) (demo_request ''other.test'' A) demo_handler = Some (m, h')"
    by (rule demo_response)
  from response_code_correct [OF demo_ok response_law_counting b] b show ?thesis
    by (auto simp: spec_rcode_def edns_supported_def demo_text demo_eval)
qed

theorem response_matches_query_witness:
  "\<exists>m h'. build_response demo_hickory (Instant 5) (demo_request ''a.xip.example.com'' A) demo_handler = Some (m, h') \<and>
     op_code m = Query \<and> msg_edns m = None \<and> queries m = [demo_query ''a.xip.example.com'' A]"
proof -
  obtain m h' where b: "build_response demo_hickory (Instant 5) (demo_request ''a.xip.example.com'' A) demo_handler = Some (m, h')"
    by (rule demo_response)
  from response_matches_query [OF demo_ok response_law_counting b] demo_names(5) [of A] b show ?thesis
    by (simp add: accepted_def)
qed

theorem denial_independent_of_type_witness:
  "\<exists>m h1 m' h2. build_response demo_hickory (Instant 5) (demo_request ''a.xip.example.com'' A) demo_handler = Some (m, h1) \<and>
     build_response demo_hickory (Instant 6) (demo_request ''a.xip.example.com'' TXT) demo_handler = Some (m', h2) \<and>
     response_code m' = response_code m"
proof -
  obtain m h1 where b: "build_response demo_hickory (Instant 5) (demo_request ''a.xip.example.com'' A) demo_handler = Some (m, h1)"
    by (rule demo_response)
  obtain m' h2 where b': "build_response demo_hickory (Instant 6) (demo_request ''a.xip.example.com'' TXT) demo_handler = Some (m', h2)"
    by (rule demo_response)
  from denial_independent_of_type [OF demo_ok response_law_counting demo_names(5) demo_names(5) _ b b'] b b'
  show ?thesis by simp
qed

theorem soa_in_authority_witness:
  "\<exists>m h'. build_response demo_hickory (Instant 5) (demo_request ''a.xip.example.com'' A) demo_handler = Some (m, h') \<and>
     map rr_name (authorities m) = [''xip.example.com'']"
proof -
  obtain m h' where b: "build_response demo_hickory (Instant 5) (demo_request ''a.xip.example.com'' A) demo_handler = Some (m, h')"
    by (rule demo_response)
  from soa_in_authority [OF demo_ok response_law_counting demo_names(5) b] b show ?thesis by auto
qed

theorem txt_answer_live_values_witness:
  "\<exists>m h'. build_response demo_hickory (Instant 5) (demo_request ''_acme-challenge.xip.example.com'' TXT) demo_handler = Some (m, h') \<and>
     txt_record ''_acme-challenge.xip.example.com'' 60 ''tok'' \<in> set (answers m)"
proof -
  obtain m h' where b: "build_response demo_hickory (Instant 5) (demo_request ''_acme-challenge.xip.example.com'' TXT) demo_handler = Some (m, h')"
    by (rule demo_response)
  have n: "qname_text demo_hickory (q_name (demo_query ''_acme-challenge.xip.example.com'' TXT)) = acme_name (config demo_handler)"
    by (simp add: demo_text demo_eval)
  have a: "acme_name sample_config = ''_acme-challenge.xip.example.com''" by (simp add: acme_name_def)
  from txt_answer_live_values [OF demo_ok response_law_counting demo_names(3) b _ n] b
  show ?thesis by (auto simp: a expire_def demo_view split: if_splits)
qed

theorem a_answer_address_witness:
  "\<exists>m h'. build_response demo_hickory (Instant 5) (demo_request ''XIP.Example.com.'' A) demo_handler = Some (m, h') \<and>
     answers m = [\<lparr>rr_name = ''XIP.Example.com.'', rr_ttl = 60, rr_data = RA (Ipv4 127 0 0 1)\<rparr>]"
proof -
  obtain m h' where b: "build_response demo_hickory (Instant 5) (demo_request ''XIP.Example.com.'' A) demo_handler = Some (m, h')"
    by (rule demo_response)
  from a_answer_address [OF demo_ok response_law_counting demo_names(1) b] b show ?thesis
    by (simp add: demo_text demo_eval)
qed


theorem apex_answers_witness:
  "\<exists>m h'. build_response demo_hickory (Instant 5) (demo_request ''XIP.Example.com.'' NS) demo_handler = Some (m, h') \<and>
     map rr_data (answers m) = [RNS ''ns1.xip.example.com'', RNS ''ns2.xip.example.com'']"
proof -
  obtain m h' where b: "build_response demo_hickory (Instant 5) (demo_request ''XIP.Example.com.'' NS) demo_handler = Some (m, h')"
    by (rule demo_response)
  have n: "qname_text demo_hickory (q_name (demo_query ''XIP.Example.com.'' NS)) = domain (config demo_handler)"
    by (simp add: demo_text demo_eval)
  from apex_answers [OF demo_ok response_law_counting demo_names(1) b n] b show ?thesis by simp
qed

theorem no_data_elsewhere_witness:
  "\<exists>m h'. build_response demo_hickory (Instant 5) (demo_request ''a.xip.example.com'' (OtherType 257)) demo_handler = Some (m, h') \<and>
     answers m = []"
proof -
  obtain m h' where b: "build_response demo_hickory (Instant 5) (demo_request ''a.xip.example.com'' (OtherType 257)) demo_handler = Some (m, h')"
    by (rule demo_response)
  from no_data_elsewhere [OF demo_ok response_law_counting demo_names(5) b] b show ?thesis by auto
qed

theorem case_insensitive_witness:
  "\<exists>m h1 m' h2. build_response demo_hickory (Instant 5) (demo_request ''a.xip.example.com'' TXT) demo_handler = Some (m, h1) \<and>
     build_response demo_hickory (Instant 5) (demo_request ''A.XIP.example.COM'' TXT) demo_handler = Some (m', h2) \<and>
     authorities m' = authorities m"
proof -
  obtain m h1 where b: "build_response demo_hickory (Instant 5) (demo_request ''a.xip.example.com'' TXT) demo_handler = Some (m, h1)"
    by (rule demo_response)
  obtain m' h2 where b': "build_response demo_hickory (Instant 5) (demo_request ''A.XIP.example.COM'' TXT) demo_handler = Some (m', h2)"
    by (rule demo_response)
  have "accepted demo_hickory (config demo_handler) (demo_request ''A.XIP.example.COM'' TXT) (demo_query ''A.XIP.example.COM'' TXT)"
    by (rule demo_accepted) (simp add: demo_eval)
  from case_insensitive [OF demo_ok response_law_counting demo_names(5) this _ _ b b'] b b'
  show ?thesis by (simp add: ascii_lower_def char_of_eq_iff)
qed

theorem tcp_reply_complete_or_servfail_witness:
  "\<exists>reply h'. handle demo_hickory (Instant 5) [1, 2] demo_handler = Some (reply, h') \<and> config h' = sample_config"
  using tcp_reply_complete_or_servfail [OF demo_ok, of "Instant 5" "[1, 2]"] by auto

theorem udp_reply_bounded_witness:
  "\<exists>reply h'. handle_udp demo_hickory (Instant 5) [1, 2] demo_handler = Some (reply, h') \<and> config h' = sample_config"
  using udp_reply_bounded [OF demo_ok, of "Instant 5" "[1, 2]"] by auto

end
