(* ===== verification/Server_Examples.thy ===== *)
theory Server_Examples
  imports Server Dns_Examples
begin

text \<open>
  The properties of the listeners at concrete connections: one with a broken frame, one with two
  messages to a library that reads every message as a query of an unsupported kind and writes
  every message as one byte.
\<close>

definition notify_hickory :: "string hickory" where
  "notify_hickory = text_hickory\<lparr>
     to_vec := (\<lambda>m. Some [42]),
     from_vec := (\<lambda>bs. Some ((message_response text_hickory 3 (OtherOpCode 4))
       \<lparr>message_type := QueryMessage\<rparr>))\<rparr>"

lemma notify_handle: "handle notify_hickory now raw h = Some ([42], h)"
  by (simp add: handle_def notify_hickory_def text_hickory_def build_response_def response_header_def Let_def
      encode_complete_or_servfail_def)

theorem tcp_connection_frames_witness:
  "\<exists>sent unsent h'. tcp_session (handle demo_hickory) (\<lambda>i. i = 0) (\<lambda>i. Instant i) (\<lambda>i h. h) 0 [0, 2, 7, 7, 0, 1, 5, 9] demo_handler =
     Some (map frame sent, h') \<and>
   answer_all (handle demo_hickory) (\<lambda>i. Instant i) (\<lambda>i h. h) 0
     (take (length sent + length unsent) (read_frames [0, 2, 7, 7, 0, 1, 5, 9])) demo_handler = Some (sent @ unsent, h')"
  using tcp_connection_frames [OF _ demo_ok, of "\<lambda>i h. h" "\<lambda>i. i = 0" "\<lambda>i. Instant i" 0 "[0, 2, 7, 7, 0, 1, 5, 9]"]
  by blast

theorem tcp_conversation_witness:
  "tcp_session (handle notify_hickory) (\<lambda>i. True) (\<lambda>i. Instant i) (\<lambda>i h. h) 0
     (concat (map frame [[1, 2], [3]])) demo_handler = Some (map frame [[42], [42]], demo_handler)"
  by (rule tcp_conversation) (simp_all add: notify_handle)

theorem udp_loop_serves_all_witness:
  "\<exists>out h'. udp_loop (handle_udp demo_hickory) (\<lambda>i. Instant i) (\<lambda>i h. h) 0 [[], [1, 2], [3]] demo_handler =
     Some (out, h') \<and> length out = length [[], [1, 2], [3 :: u8]]"
  using udp_loop_serves_all [OF _ demo_ok, of "\<lambda>i h. h" "\<lambda>i. Instant i" 0 "[[], [1, 2], [3]]"] by blast

theorem connections_bounded_witness:
  "http_connections counting_semaphore 128 0 \<and> fst (http_accept counting_semaphore 128) \<and>
   tcp_connections counting_semaphore 1024 0 \<and> tcp_accept counting_semaphore True 1024 \<noteq> None"
proof -
  have h: "http_connections counting_semaphore 128 0"
    using http_start [of counting_semaphore] by (simp add: counting_semaphore_def MAX_HTTP_CONNECTIONS_def)
  have t: "tcp_connections counting_semaphore 1024 0"
    using tcp_start [of counting_semaphore] by (simp add: counting_semaphore_def MAX_CONNECTIONS_def)
  from h t connections_bounded [OF semaphore_law_counting, of 128 0 True]
    connections_bounded [OF semaphore_law_counting, of 1024 0 True] show ?thesis by simp
qed

end
