(* ===== verification/Api_Examples.thy ===== *)
theory Api_Examples
  imports Api_Spec
begin

text \<open>
  The properties of the HTTP API at concrete requests: a library in which one text decodes to the
  sample credentials and a body is either unreadable or already the value it holds.
\<close>

subsection \<open>A server and its requests\<close>

definition demo_lib :: "(nat, present_request option) http_lib" where
  "demo_lib =
     \<lparr>base64_decode = (\<lambda>b. if b = [7] then Some (as_bytes (''u:'' @ sample_key)) else None),
      ct_eq = (\<lambda>a b. a = b),
      json_present = (\<lambda>limit req. case request_body req of
          None \<Rightarrow> Inl \<lparr>status_code = 400, response_headers = [], response_body = OtherBody []\<rparr>
        | Some p \<Rightarrow> Inr p),
      timeout_response = (\<lambda>n. \<lparr>status_code = n, response_headers = [], response_body = OtherBody []\<rparr>),
      sem_lib = counting_semaphore\<rparr>"

definition demo_state :: "(string, nat) api_state" where
  "demo_state = router counting_semaphore (Instant 0) sample_config
     (with_serial (token_lifetime sample_config) 100 sample_config_capacity 7)"

definition good_headers :: "(string \<times> bytes) list" where
  "good_headers = [(''authorization'', as_bytes ''basic  '' @ [7])]"

definition demo_token :: present_request where
  "demo_token = \<lparr>fqdn = ''_acme-challenge.XIP.example.com.'', present_value = ''tok''\<rparr>"

definition demo_arrival :: arrival where
  "demo_arrival = \<lparr>at_gate = Instant 1, at_store = Instant 2, at_deadline = Instant 3, in_time = True\<rparr>"

definition good_request :: "present_request option http_request" where
  "good_request = \<lparr>headers = good_headers, request_body = Some demo_token\<rparr>"

abbreviation "api_hickory \<equiv> counting_hickory 150"

lemma demo_lib_sel [simp]:
  "sem_lib demo_lib = counting_semaphore" "json_present demo_lib n req = (case request_body req of
     None \<Rightarrow> Inl \<lparr>status_code = 400, response_headers = [], response_body = OtherBody []\<rparr> | Some p \<Rightarrow> Inr p)"
  "base64_decode demo_lib [7] = Some (as_bytes (''u:'' @ sample_key))"
  by (simp_all add: demo_lib_def)

lemma demo_ct_eq [simp]: "ct_eq_law demo_lib"
  by (simp add: ct_eq_law_def demo_lib_def)

lemma demo_state_sel [simp]:
  "api_config demo_state = sample_config"
  "api_acme demo_state = with_serial (token_lifetime sample_config) 100 sample_config_capacity 7"
  "api_gate demo_state = new_gate counting_semaphore (Instant 0) 64 20 200"
  by (simp_all add: demo_state_def router_def router_with_limits_def Let_def saturating_mul_def
      USIZE_MAX_def REQUEST_RATE_BURST_def MAX_CONCURRENT_REQUESTS_def REQUEST_RATE_PER_SECOND_def)

lemma good_request_sel [simp]:
  "headers good_request = good_headers" "request_body good_request = Some demo_token"
  by (simp_all add: good_request_def)

lemma demo_arrival_sel [simp]:
  "at_gate demo_arrival = Instant 1" "at_store demo_arrival = Instant 2"
  "at_deadline demo_arrival = Instant 3" "in_time demo_arrival"
  by (simp_all add: demo_arrival_def)

lemma demo_api_ok: "api_ok api_hickory demo_state"
  using new_gate_ok [of 20 200 counting_semaphore "Instant 0" 64]
  by (simp add: api_ok_def counting_soa_ok gate_ok_def)

lemma demo_credentials: "basic_header demo_lib sample_config (as_bytes ''basic  '' @ [7])"
  unfolding basic_header_def
proof (intro exI conjI)
  show "as_bytes ''basic  '' @ [7] = as_bytes ''basic'' @ replicate (Suc 1) 32 @ [7]"
    by (simp add: as_bytes_def)
  show "base64_decode demo_lib [7] = Some (as_bytes (''u'' @ '':'' @ api_key sample_config))"
    by simp
  show "valid_utf8 (as_bytes (''u'' @ '':'' @ api_key sample_config))"
    by (rule valid_utf8_ascii) (simp add: as_bytes_def sample_key_def)
qed (simp_all add: eq_ignore_ascii_case_def to_ascii_lowercase_def ascii_lower_def char_of_eq_iff
    eq_commute [of "CHR ''b''"])

lemma demo_auth: "check_basic_auth demo_lib good_headers sample_config = Inr ()"
  by (subst check_basic_auth_eq [OF demo_ct_eq, of _ "as_bytes ''basic  '' @ [7]"])
    (simp_all add: good_headers_def demo_credentials)

lemma demo_valid: "validate_request demo_token sample_config = Inr ''_acme-challenge.xip.example.com''"
  by (simp add: validate_request_eq_Inr demo_token_def acme_name_def trim_end_matches_def
      ascii_lower_def char_of_eq_iff)

lemma demo_admitted: "fst (check_rate (Instant 1) (api_gate demo_state))"
proof -
  have ok: "bucket_ok (rate (api_gate demo_state))" using demo_api_ok by (simp add: api_ok_def gate_ok_def)
  have "tokens (rate (api_gate demo_state)) = 200" by (simp add: new_gate_def f64_of_nat_exact)
  with refilled_ge [OF ok, of "Instant 1"] check_bucket_tokens(1) [OF ok, of "Instant 1"] show ?thesis
    by (simp del: demo_state_sel)
qed

subsection \<open>The properties at them\<close>

theorem auth_exact_witness:
  "ct_eq_law demo_lib \<and> check_basic_auth demo_lib good_headers sample_config = Inr ()"
  using auth_exact [OF demo_ct_eq, of good_headers sample_config] demo_credentials
  by (simp add: good_headers_def)

theorem unauthorized_reaches_nothing_witness:
  "serve api_hickory (\<lambda>rs. rs) demo_lib demo_arrival Present \<lparr>headers = [], request_body = Some demo_token\<rparr> demo_state =
     Some (unauthorized ''missing Basic auth'', demo_state)"
  using unauthorized_reaches_nothing [of demo_lib "\<lparr>headers = [], request_body = Some demo_token\<rparr>" demo_state
      "''missing Basic auth''" Present]
  by (simp add: check_basic_auth_def)

theorem every_request_answered_witness:
  "\<exists>r s'. serve api_hickory (\<lambda>rs. rs) demo_lib demo_arrival Cleanup good_request demo_state = Some (r, s') \<and>
     api_ok api_hickory s' \<and> api_config s' = sample_config"
  using every_request_answered [OF _ demo_api_ok, of demo_lib "\<lambda>rs. rs" demo_arrival Cleanup good_request] by auto

lemma demo_add:
  "\<exists>ar. add api_hickory (\<lambda>rs. rs) (Instant 2) (Instant 3) ''_acme-challenge.xip.example.com'' ''tok''
     (with_serial (token_lifetime sample_config) 100 sample_config_capacity 7) = Some (Inr (), ar) \<and>
     records (state ar) \<noteq> []"
  by (simp add: add_def prune_def retain_live_def counting_fits tokens_of_def all_values_def with_serial_def
      set_zone_def)

lemma demo_permits: "0 < permits counting_semaphore (api_gate demo_state)"
  by (simp add: permits_def counting_semaphore_def new_gate_def)

theorem present_outcome_witness:
  "\<exists>r s'. serve api_hickory (\<lambda>rs. rs) demo_lib demo_arrival Present good_request demo_state = Some (r, s') \<and>
     status_code r = 200"
proof -
  obtain ar where ar: "add api_hickory (\<lambda>rs. rs) (at_store demo_arrival) (at_deadline demo_arrival)
      ''_acme-challenge.xip.example.com'' (present_value demo_token) (api_acme demo_state) = Some (Inr (), ar)"
    using demo_add by (auto simp: demo_token_def)
  from present_outcome [where L = demo_lib and a = demo_arrival and s = demo_state and req = good_request,
      OF _ _ _ _ _ _ demo_valid [folded demo_state_sel(1)] ar] demo_permits demo_auth demo_admitted
  show ?thesis by (auto simp del: demo_state_sel(3))
qed

lemma demo_present_200:
  obtains r s' where "serve api_hickory (\<lambda>rs. rs) demo_lib demo_arrival Present good_request demo_state = Some (r, s')"
    "status_code r = 200" "records (state (api_acme s')) \<noteq> []"
proof -
  obtain ar where ar: "add api_hickory (\<lambda>rs. rs) (at_store demo_arrival) (at_deadline demo_arrival)
      ''_acme-challenge.xip.example.com'' (present_value demo_token) (api_acme demo_state) = Some (Inr (), ar)"
    and new: "records (state ar) \<noteq> []"
    using demo_add by (auto simp: demo_token_def)
  show thesis
    by (rule serve_present_admitted [where L = demo_lib and a = demo_arrival and s = demo_state and
        req = good_request, OF _ _ _ _ _ _ demo_valid [folded demo_state_sel(1)] ar])
      (use demo_permits demo_auth demo_admitted new that in \<open>auto simp: json_result_def simp del: demo_state_sel(3)\<close>)
qed

lemma demo_cleanup_200:
  obtains r s' where "serve api_hickory (\<lambda>rs. rs) demo_lib demo_arrival Cleanup good_request demo_state = Some (r, s')"
    "status_code r = 200"
  by (rule serve_cleanup_admitted [where H = api_hickory and ho = "\<lambda>rs. rs" and L = demo_lib and a = demo_arrival and s = demo_state and
      req = good_request, OF _ _ _ _ _ _ demo_valid [folded demo_state_sel(1)]])
    (use demo_permits demo_auth demo_admitted that in \<open>auto simp: json_result_def simp del: demo_state_sel(3)\<close>)

theorem records_change_needs_credentials_witness:
  "\<exists>r s'. serve api_hickory (\<lambda>rs. rs) demo_lib demo_arrival Present good_request demo_state = Some (r, s') \<and>
     api_acme s' \<noteq> api_acme demo_state \<and>
     check_basic_auth demo_lib good_headers sample_config = Inr ()"
proof -
  obtain r s' where s': "serve api_hickory (\<lambda>rs. rs) demo_lib demo_arrival Present good_request demo_state = Some (r, s')"
    and "records (state (api_acme s')) \<noteq> []" by (rule demo_present_200)
  then have "api_acme s' \<noteq> api_acme demo_state" by (auto simp: with_serial_def)
  with records_change_needs_credentials [OF s' this] s' show ?thesis by auto
qed

theorem at_most_64_in_flight_witness:
  "gate_run counting_semaphore (api_gate demo_state) (api_gate demo_state) 0 \<and> (0::nat) \<le> 64"
  using at_most_64_in_flight [of counting_semaphore "Instant 0" sample_config
      "with_serial (token_lifetime sample_config) 100 sample_config_capacity 7" "api_gate demo_state" 0] start
  by (auto simp: demo_state_def [symmetric] simp del: demo_state_sel)

theorem burst_covers_all_tokens_witness:
  "fst (admissions (replicate 201 (Instant 0)) (api_gate demo_state)) = replicate 200 True @ [False]"
  using burst_covers_all_tokens [of sample_config 201 "Instant 0" counting_semaphore
      "with_serial (token_lifetime sample_config) 100 sample_config_capacity 7"]
  by (simp add: demo_state_def [symmetric] del: demo_state_sel)

end
