(* ===== verification/System_Spec.thy ===== *)
theory System_Spec
  imports System Server_Examples Api_Examples
begin

text \<open>
  Start-up, and the properties of the program when every request is served in one go: a sequence
  of whole requests and queries. \<open>Atomic\<close> shows that such a sequence is one of the histories of
  \<open>Concurrent\<close>, for which the root theory states the same properties and more. Ends with the
  sample run that the witnesses use.
\<close>

subsection \<open>From the command line to the answer\<close>

text \<open>
  C16. The server starts or says why not: start-up never panics, for any command line, and a system
  it yields is well formed, with an empty store and a valid configuration; it is refused only when
  the command line or \<open>Config::validate\<close> refuses it. Of the DNS library it is only needed that a
  label can be put before the printed form of a name when it can be put before the text the name
  was read from; with escapes the two may differ.
\<close>

theorem startup_never_panics:
  assumes "clap_law C" and "label_law H"
  shows "\<exists>r. startup H C S args timestamp now = Some r \<and>
    (case r of Inl e \<Rightarrow> \<forall>c. parse_config H C args = Inr c \<longrightarrow> validate H c \<noteq> Some (Inr ())
     | Inr s \<Rightarrow> sys_ok H s \<and> rr_keys (store_view (sys_acme s)) = {})"
proof (cases "parse_config H C args")
  case (Inl e)
  then show ?thesis by (simp add: startup_def)
next
  case (Inr c)
  have range: "config_in_range H c" using assms(1) Inr by (rule parse_config_ok)
  have "soa_ok H zone" if "from_ascii H (domain c) = Inr zone" "is_ok (from_ascii H (''admin.'' @ domain c))" for zone
    using assms(2) that unfolding label_law_def soa_ok_def by blast
  from validate_decides [OF range this] obtain r where r: "validate H c = Some r" by blast
  show ?thesis
  proof (cases r)
    case (Inl e)
    with Inr r show ?thesis by (simp add: startup_def)
  next
    case u: (Inr u)
    with r have "validate H c = Some (Inr ())" by simp
    then obtain cap where "from_config H c = Some cap" using validate_okD(6) by blast
    with Inr \<open>validate H c = Some (Inr ())\<close> obtain s where s: "startup H C S args timestamp now = Some (Inr s)"
      by (simp add: startup_def Let_def)
    from startup_ok [OF assms(1) s] have "sys_ok H s" "store_view (sys_acme s) = (\<lambda>n v. None)" by auto
    with s show ?thesis by (simp add: rr_keys_def)
  qed
qed

text \<open>
  A running server keeps running: after any history of HTTP requests and DNS queries, of any
  content and in any interleaving, every further one gets its reply, without a panic, and the
  configuration is still the one it was started with.
\<close>

theorem server_never_stops:
  assumes "clap_law C" and "semaphore_law (sem_lib L)"
    and "startup H C (sem_lib L) args timestamp now = Some (Inr s0)"
    and "sys_run H ho L now s0 evs t s"
  shows "\<exists>reply s'. sys_step H ho L ev s = Some (reply, s') \<and> sys_config s' = sys_config s0"
  using sys_step_total [OF assms(2), of H s ho ev] startup_ok(1) [OF assms(1,3)]
    sys_run_ok [OF assms(2,4)] by auto

text \<open>
  The purpose of the program, end to end: when a presentation is answered 200 at any point of
  any history, then whatever happens afterwards, short of another request about the same value,
  every TXT query for the challenge name before the token lifetime has passed gets an answer that
  contains the value.
\<close>

theorem presented_value_is_served:
  assumes laws: "clap_law C" "semaphore_law (sem_lib L)" "timeout_law L" "response_law H"
    and start: "startup H C (sem_lib L) args timestamp now = Some (Inr s0)"
    and before: "sys_run H ho L now s0 evs t s1"
    and post: "sys_step H ho L (HttpRequest a Present req) s1 = Some (HttpReply r, s2)"
      "status_code r = 200" "json_present L 1024 req = Inr b"
    and after: "sys_run H ho L (at_deadline a) s2 evs' t' s3"
      "\<forall>ev\<in>set evs'. \<not> ev_touches L (present_value b) ev"
    and query: "t' \<le> u" "u < plus_duration (at_deadline a) (token_lifetime (sys_config s0))"
      "accepted H (sys_config s0) request q" "q_type q = TXT"
      "qname_text H (q_name q) = acme_name (sys_config s0)"
      "build_response H u request (dns_view s3) = Some (m, h')"
  shows "\<exists>name. txt_record name (txt_ttl (sys_config s0)) (present_value b) \<in> set (answers m)"
proof -
  let ?n = "acme_name (sys_config s0)" and ?v = "present_value b"
  have ok0: "sys_ok H s0" using startup_ok(1) [OF laws(1) start] .
  have ok1: "sys_ok H s1" and c1: "sys_config s1 = sys_config s0"
    using sys_run_ok [OF laws(2) before ok0] by simp_all
  have ok2: "sys_ok H s2" and c2: "sys_config s2 = sys_config s1"
    using sys_step_total [OF laws(2) ok1, of ho "HttpRequest a Present req"] post(1) by auto
  have ok3: "sys_ok H s3" and c3: "sys_config s3 = sys_config s2"
    using sys_run_ok [OF laws(2) after(1) ok2] by simp_all
  have life: "lifetime (sys_acme s1) = token_lifetime (sys_config s0)"
    using startup_lifetime [OF laws(1,2) start before] .
  obtain t2 where t2: "serve H ho L a Present req (api_view s1) = Some (r, t2)" "sys_acme s2 = api_acme t2"
    using post(1) by auto
  have add: "add H ho (at_store a) (at_deadline a) ?n ?v (sys_acme s1) = Some (Inr (), sys_acme s2)"
    using present_200 [OF t2(1) post(2) laws(3) post(3)] t2(2) c1 by simp
  have wf: "store_wf (sys_acme s1)" "store_wf (sys_acme s2)"
    using ok1 ok2 by (simp_all add: sys_ok_def)
  have "expire u (store_view (sys_acme s3)) ?n ?v = expire u (store_view (sys_acme s2)) ?n ?v"
    using sys_run_untouched [OF laws(2) after(1) ok2 after(2) query(1)] c1 c2 by simp
  also have "\<dots> \<noteq> None"
    using acme.put_view [OF wf(1) add] query(2) life by (simp add: expire_def present_rr_apply)
  finally have live: "expire u (store_view (sys_acme s3)) ?n ?v \<noteq> None" .
  have "handler_ok H (dns_view s3)" using ok3 by (simp add: sys_ok_views)
  from txt_answer [OF this laws(4), of request q u m h'] query(3-6) c1 c2 c3
  obtain name where "answers m = map (txt_record name (txt_ttl (sys_config s0))) (store_values (acme h') ?n)"
      "set (store_values (acme h') ?n) = {v. expire u (store_view (sys_acme s3)) ?n v \<noteq> None}"
    by auto
  with live show ?thesis by auto
qed

text \<open>
  The other half of the protocol: once a withdrawal is answered 200, no TXT answer for the
  challenge name has the value any more, until somebody sends another request about it.
\<close>

theorem withdrawn_value_is_not_served:
  assumes laws: "clap_law C" "semaphore_law (sem_lib L)" "timeout_law L" "response_law H"
    and start: "startup H C (sem_lib L) args timestamp now = Some (Inr s0)"
    and before: "sys_run H ho L now s0 evs t s1"
    and post: "sys_step H ho L (HttpRequest a Cleanup req) s1 = Some (HttpReply r, s2)"
      "status_code r = 200" "json_present L 1024 req = Inr b"
    and after: "sys_run H ho L (at_deadline a) s2 evs' t' s3"
      "\<forall>ev\<in>set evs'. \<not> ev_touches L (present_value b) ev"
    and query: "t' \<le> u" "accepted H (sys_config s0) request q" "q_type q = TXT"
      "qname_text H (q_name q) = acme_name (sys_config s0)"
      "build_response H u request (dns_view s3) = Some (m, h')"
  shows "\<forall>record\<in>set (answers m). rr_data record \<noteq> RTXT [present_value b]"
proof -
  let ?n = "acme_name (sys_config s0)" and ?v = "present_value b"
  have ok0: "sys_ok H s0" using startup_ok(1) [OF laws(1) start] .
  have ok1: "sys_ok H s1" and c1: "sys_config s1 = sys_config s0"
    using sys_run_ok [OF laws(2) before ok0] by simp_all
  have ok2: "sys_ok H s2" and c2: "sys_config s2 = sys_config s1"
    using sys_step_total [OF laws(2) ok1, of ho "HttpRequest a Cleanup req"] post(1) by auto
  have ok3: "sys_ok H s3" and c3: "sys_config s3 = sys_config s2"
    using sys_run_ok [OF laws(2) after(1) ok2] by simp_all
  obtain t2 where t2: "serve H ho L a Cleanup req (api_view s1) = Some (r, t2)" "sys_acme s2 = api_acme t2"
    using post(1) by auto
  have rem: "sys_acme s2 = remove (at_store a) ?n ?v (sys_acme s1)"
    using cleanup_200 [OF t2(1) post(2) laws(3) post(3)] t2(2) c1 by simp
  have wf: "store_wf (sys_acme s1)" "store_wf (sys_acme s2)"
    using ok1 ok2 by (simp_all add: sys_ok_def)
  have "expire u (store_view (sys_acme s3)) ?n ?v = expire u (store_view (sys_acme s2)) ?n ?v"
    using sys_run_untouched [OF laws(2) after(1) ok2 after(2) query(1)] c1 c2 by simp
  also have "\<dots> = None"
    by (simp add: rem remove_view [OF wf(1)] expire_def withdraw_rr_apply)
  finally have gone: "expire u (store_view (sys_acme s3)) ?n ?v = None" .
  have "handler_ok H (dns_view s3)" using ok3 by (simp add: sys_ok_views)
  from txt_answer [OF this laws(4), of request q u m h'] query(2-5) c1 c2 c3
  obtain name where "answers m = map (txt_record name (txt_ttl (sys_config s0))) (store_values (acme h') ?n)"
      "set (store_values (acme h') ?n) = {v. expire u (store_view (sys_acme s3)) ?n v \<noteq> None}"
    by auto
  with gone show ?thesis by (auto simp: txt_record_def)
qed

text \<open>The limits that the store keeps from start-up on.\<close>

lemma limits_kept:
  assumes laws: "clap_law C" "fair_order ho"
    and start: "startup H C S args timestamp now = Some (Inr s0)"
    and complete: "drop_complete H (wire_capacity (sys_acme s0))"
    and run: "store_run H ho now (sys_acme s0) ops t ar"
    and adds: "\<forall>p\<in>set ops. adds_only (acme_name (sys_config s0)) p"
  shows "card (rr_keys (store_view ar)) \<le> max_tokens (sys_config s0) \<and>
    fst ` rr_keys (store_view ar) \<subseteq> {acme_name (sys_config s0)} \<and>
    fits H (wire_capacity (sys_acme s0)) (store_values ar (acme_name (sys_config s0))) = Some True"
proof -
  let ?n = "acme_name (sys_config s0)" and ?cap = "wire_capacity (sys_acme s0)"
  have ok0: "sys_ok H s0" using startup_ok(1) [OF laws(1) start] .
  obtain cap where cap: "from_config H (sys_config s0) = Some cap"
      "sys_acme s0 = with_serial (token_lifetime (sys_config s0)) (max_tokens (sys_config s0)) cap (word_of_int timestamp)"
    using startup_ok(2) [OF laws(1) start] by auto
  have wf0: "store_wf (sys_acme s0)" and v: "valid_config H (sys_config s0)"
    using ok0 by (simp_all add: sys_ok_def)
  have wf: "store_wf ar" by (rule store_run_wf [OF run wf0])
  have count: "store_count ar \<le> ar_max_tokens ar"
    by (rule store_run_count [OF run wf0]) (simp add: cap)
  have "fits H ?cap (store_values (sys_acme s0) ?n) = Some True"
    using empty_fits [OF v cap(1)] complete by (simp add: cap(2))
  then have fit: "one_name ?n ar \<and> fits H ?cap (store_values ar ?n) = Some True"
    by (intro store_run_fits [OF run wf0 complete laws(2) adds]) (simp_all add: cap(2))
  have "fst ` rr_keys (store_view ar) \<subseteq> {?n}" using fit by (intro one_name_keys [OF wf]) simp
  with count fit store_run_frame [OF run] store_count_card [OF wf] show ?thesis by (simp add: cap(2))
qed

text \<open>
  The limits hold for the running program: at any point of any history there are at most as
  many records as the configured limit, all under the challenge name, and the complete TXT answer
  with all of them fits one DNS message.
\<close>

theorem served_records_always_fit:
  assumes laws: "clap_law C" "semaphore_law (sem_lib L)" "fair_order ho"
    and start: "startup H C (sem_lib L) args timestamp now = Some (Inr s0)"
    and run: "sys_run H ho L now s0 evs t s"
    and complete: "drop_complete H (wire_capacity (sys_acme s0))"
  shows "card (rr_keys (store_view (sys_acme s))) \<le> max_tokens (sys_config s0) \<and>
    fst ` rr_keys (store_view (sys_acme s)) \<subseteq> {acme_name (sys_config s0)} \<and>
    fits H (wire_capacity (sys_acme s0)) (store_values (sys_acme s) (acme_name (sys_config s0))) = Some True"
proof -
  obtain ops t' where "store_run H ho now (sys_acme s0) ops t' (sys_acme s)"
      "\<forall>p\<in>set ops. adds_only (acme_name (sys_config s0)) p"
    using sys_run_store [OF laws(2) run startup_ok(1) [OF laws(1) start]] by auto
  then show ?thesis by (rule limits_kept [OF laws(1,3) start complete])
qed

subsection \<open>A sample run\<close>

text \<open>
  The program started with the sample configuration: one value is presented, one query comes by,
  the value is served; or it is presented, withdrawn and no longer served.
\<close>

abbreviation "sample_hickory \<equiv> counting_hickory 150"
abbreviation "sample_args \<equiv> [''SAFEXIP_API_KEY'' \<mapsto> sample_key]"

lemma parse_dns_name_counting:
  "parse_dns_name (counting_hickory k) s = parse_dns_name text_hickory s"
  by (simp add: parse_dns_name_def Let_def)

lemma parse_sample: "parse_config sample_hickory decimal_clap sample_args = Inr sample_config"
  using parse_sample_config unfolding parse_config_def parse_dns_name_counting .

definition sample_system :: "(string, nat) system" where
  "sample_system =
     \<lparr>sys_config = sample_config,
      sys_acme = with_serial (token_lifetime sample_config) 100 sample_config_capacity 7,
      sys_gate = new_gate counting_semaphore (Instant 0) 64 20 200\<rparr>"

lemma sample_router_gate:
  "api_gate (router counting_semaphore (Instant 0) sample_config ar) = new_gate counting_semaphore (Instant 0) 64 20 200"
  by (simp add: router_burst MAX_CONCURRENT_REQUESTS_def REQUEST_RATE_PER_SECOND_def)

lemma sample_startup:
  "startup sample_hickory decimal_clap (sem_lib demo_lib) sample_args 7 (Instant 0) = Some (Inr sample_system)"
  by (simp add: startup_def parse_sample sample_validate sample_from_config sample_router_gate sample_system_def
      new_records_def Let_def)

lemma sample_semaphore: "semaphore_law (sem_lib demo_lib)"
  by simp

lemma sample_timeout: "timeout_law demo_lib"
  by (simp add: timeout_law_def demo_lib_def)

lemma sample_api_view: "api_view sample_system = demo_state"
  by (simp add: api_view_def sample_system_def demo_state_def router_with_limits_def router_def
      Let_def sample_router_gate [unfolded router_def router_with_limits_def Let_def, simplified]
      saturating_mul_def USIZE_MAX_def REQUEST_RATE_BURST_def MAX_CONCURRENT_REQUESTS_def
      REQUEST_RATE_PER_SECOND_def)

lemma sample_ok: "sys_ok sample_hickory sample_system"
  using startup_ok(1) [OF clap_law_decimal sample_startup] .

lemma sample_present:
  obtains r s2 where "sys_step sample_hickory (\<lambda>rs. rs) demo_lib (HttpRequest demo_arrival Present good_request) sample_system =
    Some (HttpReply r, s2)" "status_code r = 200"
  by (rule demo_present_200) (auto simp: sample_api_view intro: that)

lemma sample_cleanup:
  obtains r s2 where "sys_step sample_hickory (\<lambda>rs. rs) demo_lib (HttpRequest demo_arrival Cleanup good_request) sample_system =
    Some (HttpReply r, s2)" "status_code r = 200"
  by (rule demo_cleanup_200) (auto simp: sample_api_view intro: that)

lemma sample_query:
  assumes "sys_step sample_hickory (\<lambda>rs. rs) demo_lib ev sample_system = Some (out, s2)"
  obtains m h' where "build_response sample_hickory (Instant 500)
    (demo_request ''_acme-challenge.xip.example.com'' TXT) (dns_view s2) = Some (m, h')"
proof -
  have "handler_ok sample_hickory (dns_view s2)"
    using sys_step_total [OF sample_semaphore sample_ok, of "\<lambda>rs. rs" ev] assms by (auto simp: sys_ok_views)
  then show thesis by (rule build_response_total) (rule that)
qed

lemma sample_config_of: "sys_config sample_system = sample_config"
  by (simp add: sample_system_def)

lemma sample_acme_text: "qname_text sample_hickory (q_name (demo_query ''_acme-challenge.xip.example.com'' TXT)) =
  acme_name (sys_config sample_system)"
  by (simp add: sample_config_of demo_text demo_eval)

lemma sample_accepted: "accepted sample_hickory (sys_config sample_system)
  (demo_request ''_acme-challenge.xip.example.com'' TXT) (demo_query ''_acme-challenge.xip.example.com'' TXT)"
  using demo_names(3) by (simp add: sample_config_of)

theorem startup_never_panics_witness:
  "\<exists>r. startup sample_hickory decimal_clap counting_semaphore sample_args 7 (Instant 0) = Some r"
proof -
  have "label_law sample_hickory" by (auto simp: label_law_def split: if_splits)
  from startup_never_panics [OF clap_law_decimal this] show ?thesis by blast
qed

theorem server_never_stops_witness:
  "\<exists>reply s'. sys_step sample_hickory (\<lambda>rs. rs) demo_lib (UdpQuery (Instant 5) [1, 2, 3]) sample_system = Some (reply, s')"
  using server_never_stops [OF clap_law_decimal sample_semaphore sample_startup sys_none] by blast

theorem presented_value_is_served_witness:
  "\<exists>r s2 m h' name. sys_step sample_hickory (\<lambda>rs. rs) demo_lib (HttpRequest demo_arrival Present good_request) sample_system =
     Some (HttpReply r, s2) \<and> status_code r = 200 \<and>
   build_response sample_hickory (Instant 500) (demo_request ''_acme-challenge.xip.example.com'' TXT) (dns_view s2) =
     Some (m, h') \<and>
   txt_record name 60 (present_value demo_token) \<in> set (answers m)"
proof (rule sample_present)
  fix r s2
  assume p: "sys_step sample_hickory (\<lambda>rs. rs) demo_lib (HttpRequest demo_arrival Present good_request) sample_system =
      Some (HttpReply r, s2)" "status_code r = 200"
  obtain m h' where m: "build_response sample_hickory (Instant 500)
      (demo_request ''_acme-challenge.xip.example.com'' TXT) (dns_view s2) = Some (m, h')"
    using sample_query [OF p(1)] .
  have j: "json_present demo_lib 1024 good_request = Inr demo_token" by simp
  have "\<exists>name. txt_record name (txt_ttl (sys_config sample_system)) (present_value demo_token) \<in> set (answers m)"
    by (rule presented_value_is_served [OF clap_law_decimal sample_semaphore sample_timeout response_law_counting
        sample_startup sys_none p j sys_none _ _ _ sample_accepted _ sample_acme_text m])
      (simp_all add: sample_config_of token_lifetime_def duration_from_secs_def)
  with p m show ?thesis by (auto simp: sample_config_of)
qed

theorem withdrawn_value_is_not_served_witness:
  "\<exists>r s2 m h'. sys_step sample_hickory (\<lambda>rs. rs) demo_lib (HttpRequest demo_arrival Cleanup good_request) sample_system =
     Some (HttpReply r, s2) \<and> status_code r = 200 \<and>
   build_response sample_hickory (Instant 500) (demo_request ''_acme-challenge.xip.example.com'' TXT) (dns_view s2) =
     Some (m, h') \<and>
   (\<forall>record\<in>set (answers m). rr_data record \<noteq> RTXT [present_value demo_token])"
proof (rule sample_cleanup)
  fix r s2
  assume p: "sys_step sample_hickory (\<lambda>rs. rs) demo_lib (HttpRequest demo_arrival Cleanup good_request) sample_system =
      Some (HttpReply r, s2)" "status_code r = 200"
  obtain m h' where m: "build_response sample_hickory (Instant 500)
      (demo_request ''_acme-challenge.xip.example.com'' TXT) (dns_view s2) = Some (m, h')"
    using sample_query [OF p(1)] .
  have j: "json_present demo_lib 1024 good_request = Inr demo_token" by simp
  have "\<forall>record\<in>set (answers m). rr_data record \<noteq> RTXT [present_value demo_token]"
    by (rule withdrawn_value_is_not_served [OF clap_law_decimal sample_semaphore sample_timeout response_law_counting
        sample_startup sys_none p j sys_none _ _ sample_accepted _ sample_acme_text m]) simp_all
  with p m show ?thesis by blast
qed

theorem served_records_always_fit_witness:
  "card (rr_keys (store_view (sys_acme sample_system))) \<le> 100 \<and>
   fits sample_hickory sample_config_capacity (store_values (sys_acme sample_system) (acme_name sample_config)) = Some True"
  using served_records_always_fit [OF clap_law_decimal sample_semaphore fair_order_id sample_startup sys_none
      counting_drop_complete]
  by (simp add: sample_config_of) (simp add: sample_system_def)

end
