(* ===== verification/Process_Spec.thy ===== *)
theory Process_Spec
  imports Process System_Spec
begin

text \<open>
  What holds of the process from \<open>main\<close> on: it starts or exits with an error, runs until a signal
  it waits for, stays within its limits, and what its server does is one of the histories of
  \<open>Concurrent\<close>, so that everything shown for these holds for the process.
\<close>

subsection \<open>From start-up to the loops\<close>

lemma startup_sound:
  assumes "clap_law C" and "semaphore_law S" and "startup H C S args timestamp now = Some (Inr s)"
  shows "srv_ok H (serving s)" and "permits S (sys_gate s) = 64"
proof -
  show "srv_ok H (serving s)"
    using startup_ok(1) [OF assms(1,3)] by (simp add: srv_ok_def serving_def)
  show "permits S (sys_gate s) = 64"
    using startup_ok(2) [OF assms(1,3)] sem_laws(1) [OF assms(2)]
    by (auto simp: router_def router_with_limits_def new_gate_def permits_def MAX_CONCURRENT_REQUESTS_def Let_def)
qed

lemma main_start_Running:
  assumes "main_start H C S args timestamp now udp tcp http sigterm = Some (Running p)"
  obtains s where "startup H C S args timestamp now = Some (Inr s)"
    "p = \<lparr>proc_server = serving s, tcp_permits = sem_new S MAX_CONNECTIONS, tcp_closed = False, tcp_open = 0,
      http_permits = sem_new S MAX_HTTP_CONNECTIONS, http_open = 0, term_handler = sigterm\<rparr>"
  using assms by (auto simp: main_start_def split: option.splits sum.splits)

lemma main_start_ok:
  assumes "clap_law C" and "semaphore_law (sem_lib L)"
    and "main_start H C (sem_lib L) args timestamp now udp tcp http sigterm = Some (Running p)"
  shows "proc_ok H L p" and "term_handler p = sigterm"
proof -
  obtain s where s: "startup H C (sem_lib L) args timestamp now = Some (Inr s)"
      "p = \<lparr>proc_server = serving s, tcp_permits = sem_new (sem_lib L) MAX_CONNECTIONS, tcp_closed = False,
        tcp_open = 0, http_permits = sem_new (sem_lib L) MAX_HTTP_CONNECTIONS, http_open = 0, term_handler = sigterm\<rparr>"
    using main_start_Running [OF assms(3)] .
  show "proc_ok H L p"
    using startup_sound(1) [OF assms(1,2) s(1)] sem_laws(1) [OF assms(2)]
    by (simp add: proc_ok_def s(2) MAX_CONNECTIONS_def MAX_HTTP_CONNECTIONS_def) (simp add: serving_def)
  show "term_handler p = sigterm" by (simp add: s(2))
qed

subsection \<open>The server of a process\<close>

text \<open>What the server sees of an event of the process.\<close>

fun work_of :: "'body proc_event \<Rightarrow> 'body srv_event list" where
  "work_of (Serve ev) = [ev]"
| "work_of (UdpRecv now (Inr datagram)) = [Datagram now (take UDP_BUFFER datagram)]"
| "work_of _ = []"

lemma proc_step_work:
  assumes "proc_step H ho L ev p = Some (out, Running p')" and "proc_enabled (sem_lib L) ev p"
    and "proc_clock ev t t'"
  obtains (idle) "work_of ev = []" "proc_server p' = proc_server p" "t' = t"
  | (busy) e r where "work_of ev = [e]" "enabled e (proc_server p)" "store_clock e t t'"
      "srv_step H ho L e (proc_server p) = Some (r, proc_server p')"
proof (cases ev)
  case (UdpRecv now recv)
  show thesis
  proof (cases recv)
    case (Inl error)
    with UdpRecv assms show thesis by (intro idle) (auto simp: udp_round_def)
  next
    case (Inr datagram)
    with UdpRecv assms(1) obtain r where
      "srv_step H ho L (Datagram now (take UDP_BUFFER datagram)) (proc_server p) = Some (r, proc_server p')"
      by (auto simp: udp_round_def simp del: srv_step.simps)
    with UdpRecv Inr assms(3) show thesis by (intro busy [where r = r]) auto
  qed
qed (use assms that in \<open>auto simp: case_prod_unfold Let_def simp del: srv_step.simps
      split: flow.splits option.splits if_splits\<close>)

lemma proc_run_server:
  assumes "proc_run H ho L t0 p0 tr t (Running p)"
  shows "\<exists>str ops. srv_run H ho L t0 (proc_server p0) str ops t (proc_server p) \<and>
    map fst str = concat (map (work_of \<circ> fst) tr)"
  using assms
proof (induction tr t "Running p" arbitrary: p rule: proc_run.induct)
  case proc_none
  then show ?case by (auto intro: srv_none)
next
  case (proc_event tr t p ev t' out p')
  then obtain str ops where IH: "srv_run H ho L t0 (proc_server p0) str ops t (proc_server p)"
      "map fst str = concat (map (work_of \<circ> fst) tr)" by blast
  from proc_event.hyps(5,3,4) show ?case
  proof (cases rule: proc_step_work)
    case idle
    with IH show ?thesis by auto
  next
    case (busy e r)
    from srv_event [OF IH(1) busy(2,3,4)] IH(2) busy(1) show ?thesis
      by (intro exI [of _ "str @ [(e, r)]"] exI [of _ "ops @ effects H e (proc_server p)"]) simp
  qed
qed

text \<open>
  C8. The process refines the server: whatever connections are opened and closed, accepts fail or
  signals arrive, what its server has done in between is one of the histories of a started server,
  with exactly the requests, messages and datagrams (cut to the receive buffer) that the listeners
  took, in their order.
\<close>

theorem process_refines_server:
  assumes "main_start H C S args timestamp now udp tcp http sigterm = Some (Running p0)"
    and "proc_run H ho L now p0 tr t (Running p)"
  shows "\<exists>s0 str ops. startup H C S args timestamp now = Some (Inr s0) \<and>
    srv_run H ho L now (serving s0) str ops t (proc_server p) \<and>
    map fst str = concat (map (work_of \<circ> fst) tr)"
proof -
  obtain s where "startup H C S args timestamp now = Some (Inr s)" "proc_server p0 = serving s"
    using main_start_Running [OF assms(1)] by (metis process.select_convs(1))
  with proc_run_server [OF assms(2)] show ?thesis by auto
qed

subsection \<open>Until a signal arrives\<close>

text \<open>
  C6. The process never panics and never exits with an error once it runs: in any history of accepted
  and failed connections, datagrams, requests and signals it is still running, and able to take
  every further event, as long as no Ctrl-C, and no SIGTERM for which a handler could be registered,
  has arrived; when one has, or waiting for Ctrl-C has failed, it has exited with success.
\<close>

theorem runs_until_signal:
  assumes "clap_law C" and "semaphore_law (sem_lib L)"
    and "main_start H C (sem_lib L) args timestamp now udp tcp http sigterm = Some (Running p0)"
    and "proc_run H ho L now p0 tr t st"
  shows "case st of
      Exited r \<Rightarrow> r = Inr () \<and> stops sigterm (fst (last tr))
    | Running p \<Rightarrow> (\<forall>e\<in>fst ` set tr. \<not> stops sigterm e) \<and>
        (\<forall>ev. proc_enabled (sem_lib L) ev p \<longrightarrow> (\<exists>out st'. proc_step H ho L ev p = Some (out, st') \<and>
           (if stops sigterm ev then st' = Exited (Inr ()) else \<exists>p'. st' = Running p')))"
proof -
  note start = main_start_ok [OF assms(1-3)]
  note run = proc_run_ok [OF assms(2,4) start(1), unfolded start(2)]
  show ?thesis
  proof (cases st)
    case (Exited r)
    with run show ?thesis by simp
  next
    case (Running p)
    with run have p: "proc_ok H L p" "term_handler p = sigterm" "\<forall>e\<in>fst ` set tr. \<not> stops sigterm e" by auto
    have "\<exists>out st'. proc_step H ho L ev p = Some (out, st') \<and>
        (if stops sigterm ev then st' = Exited (Inr ()) else \<exists>p'. st' = Running p')"
      if "proc_enabled (sem_lib L) ev p" for ev
      using proc_step_total [OF assms(2) p(1) that, of ho] p(2) by (auto split: if_splits)
    with Running p(3) show ?thesis by simp
  qed
qed

text \<open>
  C7. The limits under load: at most 128 HTTP connections and 1024 TCP connections are open, at most
  one request is served on each HTTP connection, and at most 64 of these hold a permit. The limits
  are exact: a connection is turned away only when 128 are open, the TCP listener waits only when
  1024 are, and a request is refused a permit only when 64 are given out.
\<close>

theorem load_bounded:
  assumes "clap_law C" and "semaphore_law (sem_lib L)"
    and "main_start H C (sem_lib L) args timestamp now udp tcp http sigterm = Some (Running p0)"
    and "proc_run H ho L now p0 tr t (Running p)"
  shows "length (srv_tasks (proc_server p)) \<le> http_open p \<and> http_open p \<le> 128 \<and> tcp_open p \<le> 1024 \<and>
    in_flight (proc_server p) \<le> 64 \<and>
    (\<exists>free opened. http_round (sem_lib L) (Inr ()) (http_permits p) = (Again, opened, free) \<and>
       (opened \<longleftrightarrow> http_open p < 128)) \<and>
    (acquire_owned (sem_lib L) (tcp_closed p) (tcp_permits p) = Waits \<longleftrightarrow> tcp_open p = 1024) \<and>
    (try_acquire (sem_lib L) (sys_gate (srv_system (proc_server p))) = None \<longleftrightarrow> in_flight (proc_server p) = 64)"
proof -
  note start = main_start_ok [OF assms(1-3)]
  have ok: "proc_ok H L p" using proc_run_ok [OF assms(2,4) start(1)] by simp
  obtain s where s: "startup H C (sem_lib L) args timestamp now = Some (Inr s)" "proc_server p0 = serving s"
    using main_start_Running [OF assms(3)] by (metis process.select_convs(1))
  obtain str ops where run: "srv_run H ho L now (serving s) str ops t (proc_server p)"
    using proc_run_server [OF assms(4)] s(2) by auto
  note serving = startup_sound [OF assms(1,2) s(1)]
  have flight: "free_permits L (proc_server p) + in_flight (proc_server p) = 64"
    using srv_run_ok [OF assms(2) run serving(1)] serving(2) by (simp add: free_permits_def in_flight_def serving_def)
  then have "try_acquire (sem_lib L) (sys_gate (srv_system (proc_server p))) = None \<longleftrightarrow> in_flight (proc_server p) = 64"
    using try_acquire_None [OF assms(2), of "sys_gate (srv_system (proc_server p))"]
    by (simp add: free_permits_def) linarith
  moreover have "\<exists>free opened. http_round (sem_lib L) (Inr ()) (http_permits p) = (Again, opened, free) \<and>
      (opened \<longleftrightarrow> http_open p < 128)"
    using ok sem_laws(2) [OF assms(2), of "http_permits p"]
    by (auto simp: http_round_def proc_ok_def split: option.split)
  moreover have "acquire_owned (sem_lib L) (tcp_closed p) (tcp_permits p) = Waits \<longleftrightarrow> tcp_open p = 1024"
    using ok sem_laws(2) [OF assms(2), of "tcp_permits p"]
    by (auto simp: acquire_owned_def proc_ok_def split: option.split)
  ultimately show ?thesis using ok flight by (auto simp: proc_ok_def)
qed

subsection \<open>A sample process\<close>

definition sample_process :: "(string, nat, 'body) process" where
  "sample_process = \<lparr>proc_server = serving sample_system, tcp_permits = 1024, tcp_closed = False, tcp_open = 0,
     http_permits = 128, http_open = 0, term_handler = Inr ()\<rparr>"

lemma sample_main:
  "main_start sample_hickory decimal_clap (sem_lib demo_lib) sample_args 7 (Instant 0) (Inr ()) (Inr ()) (Inr ()) (Inr ()) =
     Some (Running sample_process)"
  unfolding main_start_def sample_startup
  by (simp add: sample_process_def MAX_CONNECTIONS_def MAX_HTTP_CONNECTIONS_def demo_lib_def counting_semaphore_def)

lemma sample_accept:
  "proc_run sample_hickory (\<lambda>rs. rs) demo_lib (Instant 0) sample_process [(HttpAccept (Inr ()), None)] (Instant 0)
     (Running (sample_process\<lparr>http_permits := 127, http_open := 1\<rparr>))"
proof -
  have "proc_step sample_hickory (\<lambda>rs. rs) demo_lib (HttpAccept (Inr ())) sample_process =
      Some (None, Running (sample_process\<lparr>http_permits := 127, http_open := 1\<rparr>))"
    by (simp add: http_round_def sample_process_def demo_lib_def counting_semaphore_def)
  from proc_event [OF proc_none _ _ this] show ?thesis by simp
qed

theorem runs_until_signal_witness:
  "\<exists>out. proc_step sample_hickory (\<lambda>rs. rs) demo_lib (Signal SigTerm)
     (sample_process\<lparr>http_permits := 127, http_open := 1\<rparr>) = Some (out, Exited (Inr ()))"
proof -
  let ?p = "sample_process\<lparr>http_permits := 127, http_open := 1\<rparr>"
  have "\<forall>ev. proc_enabled (sem_lib demo_lib) ev ?p \<longrightarrow>
      (\<exists>out st'. proc_step sample_hickory (\<lambda>rs. rs) demo_lib ev ?p = Some (out, st') \<and>
         (if stops (Inr ()) ev then st' = Exited (Inr ()) else \<exists>p'. st' = Running p'))"
    using runs_until_signal [OF clap_law_decimal sample_semaphore sample_main sample_accept] by simp
  from spec [OF this, of "Signal SigTerm"] show ?thesis by simp
qed

theorem load_bounded_witness:
  "in_flight (proc_server (sample_process :: (string, nat, present_request option) process)) \<le> 64 \<and>
   http_round (sem_lib demo_lib) (Inr ()) 127 = (Again, True, 126)"
  using load_bounded [OF clap_law_decimal sample_semaphore sample_main sample_accept]
  by (elim conjE) (simp add: http_round_def demo_lib_def counting_semaphore_def)

theorem process_refines_server_witness:
  "\<exists>s0 str ops. startup sample_hickory decimal_clap (sem_lib demo_lib) sample_args 7 (Instant 0) = Some (Inr s0) \<and>
     srv_run sample_hickory (\<lambda>rs. rs) demo_lib (Instant 0) (serving s0) str ops (Instant 0)
       (proc_server (sample_process\<lparr>http_permits := 127, http_open := 1\<rparr>))"
  using process_refines_server [OF sample_main sample_accept] by blast

end
