(* ===== verification/Atomic.thy ===== *)
theory Atomic
  imports Concurrent_Spec
begin

text \<open>
  The link between the two models of a request: serving it in one go (\<open>serve\<close>, the layers as
  functions wrapped around each other) and the histories that run its steps without those of
  others have the same responses and the same states, in both directions.
\<close>

subsection \<open>Requests served in one go\<close>

text \<open>The server with one request and no other.\<close>

definition solo :: "('nm, 'sem) system \<Rightarrow> endpoint \<Rightarrow> 'body http_request \<Rightarrow> stage \<Rightarrow> ('nm, 'sem, 'body) server" where
  "solo y ep req st =
     \<lparr>srv_system = y, srv_tasks = [(0, \<lparr>task_endpoint = ep, task_request = req, task_stage = st\<rparr>)]\<rparr>"

lemma api_view_with_api [simp]: "api_config a = sys_config y \<Longrightarrow> api_view (with_api a y) = a"
  by (simp add: api_view_def with_api_def)

lemma solo_step:
  fixes req :: "'body http_request"
  assumes "task_step H ho L ep req mv st (api_view y) = Some (Continue st', a)" and "can_move mv st"
    and "store_clock (Move 0 mv :: 'body srv_event) t t'"
  shows "srv_run H ho L t (solo y ep req st) [(Move 0 mv, None)] (task_ops (sys_config y) ep mv st) t'
    (solo (with_api a y) ep req st')"
proof -
  have "srv_step H ho L (Move 0 mv) (solo y ep req st) = Some (None, solo (with_api a y) ep req st')"
    using assms(1) by (simp add: solo_def)
  from srv_event [OF srv_none _ assms(3) this] assms(2) show ?thesis by (simp add: solo_def)
qed

subsection \<open>Histories of one request\<close>

lemma srv_run_split:
  assumes "srv_run H ho L t0 s0 (tr1 @ tr2) ops t s"
  shows "\<exists>ops1 ops2 t1 s1. srv_run H ho L t0 s0 tr1 ops1 t1 s1 \<and> srv_run H ho L t1 s1 tr2 ops2 t s \<and> ops = ops1 @ ops2"
  using assms
proof (induction "tr1 @ tr2" ops t s arbitrary: tr2 rule: srv_run.induct)
  case srv_none
  then show ?case by (auto intro: srv_run.srv_none)
next
  case (srv_event tr ops t s ev t' out s')
  show ?case
  proof (cases tr2 rule: rev_cases)
    case Nil
    with srv_event.hyps(6) srv_run.srv_event [OF srv_event.hyps(1,3-5)]
    have "srv_run H ho L t0 s0 tr1 (ops @ effects H ev s) t' s'" by simp
    with Nil srv_run.srv_none [of H ho L t' s'] show ?thesis by fastforce
  next
    case (snoc tr3 e)
    with srv_event.hyps(6) have tr: "tr = tr1 @ tr3" and e: "e = (ev, out)" by auto
    from srv_event.hyps(2) [OF tr] obtain ops1 ops2 t1 s1 where r: "srv_run H ho L t0 s0 tr1 ops1 t1 s1"
        "srv_run H ho L t1 s1 tr3 ops2 t s" "ops = ops1 @ ops2" by blast
    from srv_run.srv_event [OF r(2) srv_event.hyps(3-5)] r(1,3) snoc e show ?thesis by fastforce
  qed
qed

inductive_simps srv_run_Nil: "srv_run H ho L t0 s0 [] ops t s"

lemma srv_run_one: "srv_run H ho L t s [(ev, out)] ops t' s' \<longleftrightarrow>
    enabled ev s \<and> store_clock ev t t' \<and> srv_step H ho L ev s = Some (out, s') \<and> ops = effects H ev s"
proof
  assume "srv_run H ho L t s [(ev, out)] ops t' s'"
  then show "enabled ev s \<and> store_clock ev t t' \<and> srv_step H ho L ev s = Some (out, s') \<and> ops = effects H ev s"
    by (cases rule: srv_run.cases) (auto simp: srv_run_Nil)
qed (use srv_run.srv_event [OF srv_none] in fastforce)

lemma srv_run_ConsE:
  assumes "srv_run H ho L t s ((ev, out) # tr) ops t'' s''"
  obtains t' s' ops' where "enabled ev s" "store_clock ev t t'" "srv_step H ho L ev s = Some (out, s')"
    "srv_run H ho L t' s' tr ops' t'' s''" "ops = effects H ev s @ ops'"
  using srv_run_split [of H ho L t s "[(ev, out)]" tr ops t'' s''] assms by (auto simp: srv_run_one)

lemma srv_run_ConsI:
  assumes "enabled ev s" and "store_clock ev t t'" and "srv_step H ho L ev s = Some (out, s')"
    and "srv_run H ho L t' s' tr ops t'' s''"
  shows "srv_run H ho L t s ((ev, out) # tr) (effects H ev s @ ops) t'' s''"
  using srv_run_append [of H ho L t s "[(ev, out)]" "effects H ev s" t' s' tr ops t'' s''] assms
  by (simp add: srv_run_one)

text \<open>
  A history of one request and nothing else: it is posted, takes its steps, and is answered \<open>r\<close>. In
  \<open>finishes\<close> the request is under way.
\<close>

definition own_steps :: "('body srv_event \<times> reply option) list \<Rightarrow> http_response \<Rightarrow> bool" where
  "own_steps tr r \<longleftrightarrow> (\<exists>tr' mv. tr = tr' @ [(Move 0 mv, Some (HttpReply r))] \<and> (\<forall>e\<in>set tr'. \<exists>mv. e = (Move 0 mv, None)))"

definition served_alone :: "'nm hickory \<Rightarrow> (zone_records \<Rightarrow> zone_records) \<Rightarrow> ('sem, 'body) http_lib \<Rightarrow>
    instant \<Rightarrow> ('nm, 'sem) system \<Rightarrow> endpoint \<Rightarrow> 'body http_request \<Rightarrow> http_response \<Rightarrow> ('nm, 'sem) system \<Rightarrow> bool" where
  "served_alone H ho L t y ep req r z \<longleftrightarrow>
     (\<exists>tr ops t'. own_steps tr r \<and> srv_run H ho L t (serving y) ((Post 0 ep req, None) # tr) ops t' (serving z))"

definition finishes :: "'nm hickory \<Rightarrow> (zone_records \<Rightarrow> zone_records) \<Rightarrow> ('sem, 'body) http_lib \<Rightarrow>
    endpoint \<Rightarrow> 'body http_request \<Rightarrow> instant \<Rightarrow> ('nm, 'sem) system \<Rightarrow> stage \<Rightarrow> http_response \<Rightarrow> ('nm, 'sem) system \<Rightarrow> bool" where
  "finishes H ho L ep req t y st r z \<longleftrightarrow>
     (\<exists>tr ops t'. own_steps tr r \<and> srv_run H ho L t (solo y ep req st) tr ops t' (serving z))"

lemma own_steps_Cons: "own_steps (e # tr) r \<longleftrightarrow>
    (\<exists>mv. e = (Move 0 mv, Some (HttpReply r)) \<and> tr = []) \<or> (\<exists>mv. e = (Move 0 mv, None) \<and> own_steps tr r)"
proof
  assume "own_steps (e # tr) r"
  then obtain tr' mv where "e # tr = tr' @ [(Move 0 mv, Some (HttpReply r))]" "\<forall>e\<in>set tr'. \<exists>mv. e = (Move 0 mv, None)"
    unfolding own_steps_def by blast
  then show "(\<exists>mv. e = (Move 0 mv, Some (HttpReply r)) \<and> tr = []) \<or> (\<exists>mv. e = (Move 0 mv, None) \<and> own_steps tr r)"
    by (cases tr') (auto simp: own_steps_def)
next
  assume "(\<exists>mv. e = (Move 0 mv, Some (HttpReply r)) \<and> tr = []) \<or> (\<exists>mv. e = (Move 0 mv, None) \<and> own_steps tr r)"
  then show "own_steps (e # tr) r"
  proof
    assume "\<exists>mv. e = (Move 0 mv, None) \<and> own_steps tr r"
    then obtain mv tr' mv' where "e = (Move 0 mv, None)" "tr = tr' @ [(Move 0 mv', Some (HttpReply r))]"
      "\<forall>e\<in>set tr'. \<exists>mv. e = (Move 0 mv, None)" unfolding own_steps_def by blast
    then show ?thesis unfolding own_steps_def
      by (intro exI [of _ "(Move 0 mv, None) # tr'"] exI [of _ mv']) simp
  qed (auto simp: own_steps_def)
qed

lemma own_steps_serving:
  assumes "own_steps tr r"
  shows "\<not> srv_run H ho L t (serving y) tr ops t' s"
proof (cases tr)
  case Nil
  with assms show ?thesis by (simp add: own_steps_def)
next
  case (Cons e tr')
  with assms obtain mv out where "e = (Move 0 mv, out)" unfolding Cons own_steps_Cons by blast
  then show ?thesis unfolding Cons by (auto elim: srv_run_ConsE simp: serving_def)
qed

text \<open>The first step of a request, and what is left of it.\<close>

lemma finishes_step:
  "finishes H ho L ep req t y st r z \<longleftrightarrow>
     (\<exists>mv u out a. can_move mv st \<and> store_clock (Move 0 mv :: 'body srv_event) t u \<and>
        task_step H ho L ep (req :: 'body http_request) mv st (api_view y) = Some (out, a) \<and>
        (out = Reply r \<and> z = with_api a y \<or>
         (\<exists>st'. out = Continue st' \<and> finishes H ho L ep req u (with_api a y) st' r z)))"
    (is "?l \<longleftrightarrow> ?r")
proof
  assume ?l
  then obtain tr ops t' where tr: "own_steps tr r" "srv_run H ho L t (solo y ep req st) tr ops t' (serving z)"
    unfolding finishes_def by blast
  then obtain e tr' where e: "tr = e # tr'" by (cases tr) (auto simp: own_steps_def)
  obtain mv o1 where mv: "e = (Move 0 mv, o1)" using tr(1) unfolding e own_steps_Cons by blast
  obtain u s1 ops2 where s1: "can_move mv st" "store_clock (Move 0 mv :: 'body srv_event) t u"
      "srv_step H ho L (Move 0 mv) (solo y ep req st) = Some (o1, s1)" and r: "srv_run H ho L u s1 tr' ops2 t' (serving z)"
    using tr(2) unfolding e mv by (elim srv_run_ConsE) (auto simp: solo_def)
  then obtain out a where a: "task_step H ho L ep req mv st (api_view y) = Some (out, a)" "o1 = answer_of out"
      "s1 = \<lparr>srv_system = with_api a y,
        srv_tasks = settle 0 \<lparr>task_endpoint = ep, task_request = req, task_stage = st\<rparr> out
          [(0, \<lparr>task_endpoint = ep, task_request = req, task_stage = st\<rparr>)]\<rparr>"
    by (auto simp: solo_def)
  have "o1 = Some (HttpReply r) \<and> tr' = [] \<or> o1 = None \<and> own_steps tr' r"
    using tr(1) unfolding e own_steps_Cons mv by blast
  then have "out = Reply r \<and> z = with_api a y \<or> (\<exists>st'. out = Continue st' \<and> finishes H ho L ep req u (with_api a y) st' r z)"
  proof (elim disjE conjE)
    assume "o1 = Some (HttpReply r)" "tr' = []"
    with a(2,3) r show ?thesis by (cases out) (auto simp: srv_run_Nil serving_def)
  next
    assume o1: "o1 = None" "own_steps tr' r"
    show ?thesis
    proof (cases out)
      case (Continue st')
      with a(3) have "s1 = solo (with_api a y) ep req st'" by (simp add: solo_def)
      with o1(2) r Continue show ?thesis unfolding finishes_def by blast
    next
      case Gone
      with a(3) have "s1 = serving (with_api a y)" by (simp add: serving_def)
      with own_steps_serving [OF o1(2)] r show ?thesis by blast
    qed (use a(2) o1(1) in simp)
  qed
  with s1(1,2) a(1) show ?r by blast
next
  assume ?r
  then obtain mv u out a where m: "can_move mv st" "store_clock (Move 0 mv :: 'body srv_event) t u"
      "task_step H ho L ep req mv st (api_view y) = Some (out, a)"
      "out = Reply r \<and> z = with_api a y \<or> (\<exists>st'. out = Continue st' \<and> finishes H ho L ep req u (with_api a y) st' r z)"
    by blast
  from m(4) show ?l
  proof (elim disjE conjE exE)
    assume o1: "out = Reply r" "z = with_api a y"
    then have "srv_run H ho L t (solo y ep req st) [(Move 0 mv, Some (HttpReply r))]
        (effects H (Move 0 mv) (solo y ep req st)) u (serving z)"
      using m(1-3) by (simp add: srv_run_one) (simp add: solo_def serving_def)
    moreover have "own_steps [(Move 0 mv, Some (HttpReply r))] r" by (simp add: own_steps_def)
    ultimately show ?thesis unfolding finishes_def by blast
  next
    fix st' assume o1: "out = Continue st'" "finishes H ho L ep req u (with_api a y) st' r z"
    then obtain tr ops t' where tr: "own_steps tr r"
        "srv_run H ho L u (solo (with_api a y) ep req st') tr ops t' (serving z)" unfolding finishes_def by blast
    have "srv_run H ho L t (solo y ep req st) [(Move 0 mv, None)] (task_ops (sys_config y) ep mv st) u
        (solo (with_api a y) ep req st')"
      by (rule solo_step [OF m(3) [unfolded o1(1)] m(1,2)])
    from srv_run_append [OF this tr(2)] tr(1) show ?thesis unfolding finishes_def
      by (intro exI [of _ "(Move 0 mv, None) # tr"] exI [of _ "task_ops (sys_config y) ep mv st @ ops"] exI [of _ t'])
        (simp add: own_steps_Cons)
  qed
qed

lemma served_alone_finishes:
  "served_alone H ho L t y ep req r z \<longleftrightarrow> finishes H ho L ep req t y Received r z"
proof -
  have step: "srv_step H ho L (Post 0 ep req) (serving y) = Some (None, solo y ep req Received)"
      "enabled (Post 0 ep req) (serving y)" "effects H (Post 0 ep req) (serving y) = []"
    by (simp_all add: serving_def solo_def new_task_def)
  have "srv_run H ho L t (serving y) ((Post 0 ep req, None) # tr) ops t' s \<longleftrightarrow>
      srv_run H ho L t (solo y ep req Received) tr ops t' s" for tr ops t' s
    using step srv_run_ConsI [OF step(2) _ step(1), of t t tr ops t' s] by (auto elim!: srv_run_ConsE)
  then show ?thesis by (simp add: served_alone_def finishes_def)
qed

subsection \<open>The layers, stage by stage\<close>

abbreviation released :: "('sem, 'body) http_lib \<Rightarrow> ('nm, 'sem) api_state \<Rightarrow> ('nm, 'sem) api_state" where
  "released L a \<equiv> a\<lparr>api_gate := release_permit (sem_lib L) (api_gate a)\<rparr>"

lemma ex_move: "(\<exists>mv. P mv) \<longleftrightarrow> (\<exists>now. P (CheckRate now)) \<or> P Acquire \<or> P Extract \<or> (\<exists>now later. P (Operate now later)) \<or>
    P TimeOut \<or> P Respond \<or> P Disconnect"
  by (metis move.exhaust)

lemma run_handler_config: "run_handler H ho ep now later b s = Some (r, s') \<Longrightarrow> api_config s' = api_config s"
  by (cases ep; cases "validate_request b (api_config s)") (auto simp: present_def cleanup_def bind_eq_Some_conv)

lemma with_api_view [simp]: "with_api (api_view y) y = y"
  by (simp add: with_api_def api_view_def)

lemma with_api_again [simp]: "with_api b (with_api a y) = with_api b y"
  by (simp add: with_api_def)

lemma finishes_answering:
  "finishes H ho L ep req t y (Answering r0) r z \<longleftrightarrow> r = r0 \<and> z = with_api (released L (api_view y)) y"
  by (subst finishes_step) (auto simp: ex_move)

lemma finishes_parsed:
  "finishes H ho L ep req t y (Parsed b) r z \<longleftrightarrow>
     r = timeout_response L 408 \<and> z = with_api (released L (api_view y)) y \<or>
     (\<exists>now later x a. t \<le> now \<and> now \<le> later \<and> run_handler H ho ep now later b (api_view y) = Some (x, a) \<and>
        r = json_result x \<and> z = with_api (released L a) y)"
proof -
  have a: "api_view (with_api a y) = a" if "run_handler H ho ep now later b (api_view y) = Some (x, a)" for now later x a
    using run_handler_config [OF that] by simp
  have "finishes H ho L ep req t y (Parsed b) r z \<longleftrightarrow> finishes H ho L ep req t y (Answering (timeout_response L 408)) r z \<or>
      (\<exists>now later x a. t \<le> now \<and> now \<le> later \<and> run_handler H ho ep now later b (api_view y) = Some (x, a) \<and>
         finishes H ho L ep req later (with_api a y) (Answering (json_result x)) r z)"
    by (subst finishes_step) (simp add: ex_move, blast)
  also have "\<dots> \<longleftrightarrow> r = timeout_response L 408 \<and> z = with_api (released L (api_view y)) y \<or>
      (\<exists>now later x a. t \<le> now \<and> now \<le> later \<and> run_handler H ho ep now later b (api_view y) = Some (x, a) \<and>
        r = json_result x \<and> z = with_api (released L a) y)"
    unfolding finishes_answering with_api_again using a by metis
  finally show ?thesis .
qed

lemma finishes_admitted:
  "finishes H ho L ep req t y Admitted r z \<longleftrightarrow>
     (\<exists>timely now later a. t \<le> now \<and> now \<le> later \<and>
        inner_layers L timely (run_handler H ho ep now later) req (api_view y) = Some (r, a) \<and> z = with_api (released L a) y)"
    (is "_ \<longleftrightarrow> (\<exists>timely now later a. ?inner timely now later a)")
proof -
  have "finishes H ho L ep req t y Admitted r z \<longleftrightarrow>
      r = timeout_response L 408 \<and> z = with_api (released L (api_view y)) y \<or>
      (case json_present L MAX_REQUEST_BODY_LEN req of
         Inl rejection \<Rightarrow> r = rejection \<and> z = with_api (released L (api_view y)) y
       | Inr b \<Rightarrow> finishes H ho L ep req t y (Parsed b) r z)"
    by (subst finishes_step) (auto simp: ex_move finishes_answering split: sum.split)
  also have "\<dots> \<longleftrightarrow> (\<exists>now later a. ?inner False now later a) \<or> (\<exists>now later a. ?inner True now later a)"
    by (cases "json_present L MAX_REQUEST_BODY_LEN req")
      (auto simp: inner_layers_def finishes_parsed bind_eq_Some_conv, blast+)
  finally show ?thesis unfolding ex_bool_eq by blast
qed

lemma finishes_rated:
  "finishes H ho L ep req t y Rated r z \<longleftrightarrow>
     (case try_acquire (sem_lib L) (sys_gate y) of
        None \<Rightarrow> r = into_response (service_unavailable ''concurrent request limit reached'') \<and> z = y
      | Some g \<Rightarrow> finishes H ho L ep req t (with_api ((api_view y)\<lparr>api_gate := g\<rparr>) y) Admitted r z)"
  by (subst finishes_step) (auto simp: ex_move split: option.split)

lemma finishes_received:
  "finishes H ho L ep req t y Received r z \<longleftrightarrow>
     (\<exists>now. case check_basic_auth L (headers req) (sys_config y) of
        Inl message \<Rightarrow> r = unauthorized message \<and> z = y
      | Inr _ \<Rightarrow>
          let (ok, g) = check_rate now (sys_gate y); y' = with_api ((api_view y)\<lparr>api_gate := g\<rparr>) y
          in if ok then finishes H ho L ep req t y' Rated r z else r = rate_limited \<and> z = y')"
  by (subst finishes_step)
    (auto simp: ex_move case_prod_unfold Let_def split: sum.split)

lemma authorize_alone:
  "finishes H ho L ep req t y Received r z \<longleftrightarrow>
     (\<exists>at1 timely now later a. t \<le> now \<and> now \<le> later \<and>
        authorize_and_admit L at1 (inner_layers L timely (run_handler H ho ep now later)) req (api_view y) = Some (r, a) \<and>
        z = with_api a y)"
    (is "_ \<longleftrightarrow> (\<exists>at1 timely now later a. ?served at1 timely now later a)")
proof -
  have rated: "(case check_basic_auth L (headers req) (sys_config y) of
        Inl message \<Rightarrow> r = unauthorized message \<and> z = y
      | Inr _ \<Rightarrow>
          let (ok, g) = check_rate at1 (sys_gate y); y' = with_api ((api_view y)\<lparr>api_gate := g\<rparr>) y
          in if ok then finishes H ho L ep req t y' Rated r z else r = rate_limited \<and> z = y') \<longleftrightarrow>
      (\<exists>timely now later a. ?served at1 timely now later a)" for at1
  proof (cases "check_basic_auth L (headers req) (sys_config y)")
    case (Inl message)
    then show ?thesis by (auto simp: authorize_and_admit_def)
  next
    case (Inr u)
    obtain ok g where g: "check_rate at1 (sys_gate y) = (ok, g)" by (cases "check_rate at1 (sys_gate y)")
    have t: "\<exists>now later :: instant. t \<le> now \<and> now \<le> later" by auto
    show ?thesis
    proof (cases ok)
      case False
      with Inr g t show ?thesis by (auto simp: authorize_and_admit_def)
    next
      case True
      show ?thesis
      proof (cases "try_acquire (sem_lib L) g")
        case None
        with Inr g True t show ?thesis by (auto simp: authorize_and_admit_def finishes_rated)
      next
        case (Some g')
        with Inr g True show ?thesis
          by (simp add: authorize_and_admit_def finishes_rated finishes_admitted bind_eq_Some_conv) metis
      qed
    qed
  qed
  show ?thesis unfolding finishes_received rated by blast
qed


end
