(* ===== verification/Delivery.thy ===== *)
theory Delivery
  imports Dns_Answers
begin

text \<open>
  From the records of an answer to the bytes on the wire and back. \<open>src/wire.rs\<close> measures the TXT
  answer once, with a fixed header, question and serial, and \<open>src/dns.rs\<close> relies on that for every
  answer it sends; the theorems here say when this is justified, and what a client then reads.
\<close>

subsection \<open>What the measurement relies on\<close>

text \<open>
  The serial of an SOA record and the header fields of a message have a fixed width on the wire
  (RFC 1035), so two messages that differ only in these, in the class of the question and in what
  the EDNS record says, take the same number of bytes; leaving the EDNS record out takes fewer.
\<close>

fun without_serial :: "'nm rdata \<Rightarrow> 'nm rdata" where
  "without_serial (RSOA m r s f t e i) = RSOA m r 0 f t e i"
| "without_serial d = d"

text \<open>The text of a name, which does not show whether it is written with the root's dot.\<close>

definition name_text :: "'nm hickory \<Rightarrow> 'nm \<Rightarrow> string" where
  "name_text H n = trim_end_matches CHR ''.'' (to_ascii H n)"

definition same_shape :: "'nm hickory \<Rightarrow> 'nm message \<Rightarrow> 'nm message \<Rightarrow> bool" where
  "same_shape H m m' \<longleftrightarrow>
     map (\<lambda>q. (name_text H (q_name q), q_type q)) (queries m') =
       map (\<lambda>q. (name_text H (q_name q), q_type q)) (queries m) \<and>
     answers m' = answers m \<and> additionals m' = additionals m \<and>
     map (\<lambda>r. (rr_name r, rr_ttl r, without_serial (rr_data r))) (authorities m') =
       map (\<lambda>r. (rr_name r, rr_ttl r, without_serial (rr_data r))) (authorities m) \<and>
     (msg_edns m' \<noteq> None \<longrightarrow> msg_edns m \<noteq> None)"

definition shape_law :: "'nm hickory \<Rightarrow> bool" where
  "shape_law H \<longleftrightarrow> (\<forall>m m' n. same_shape H m m' \<and> \<not> truncation m' \<and> is_complete H m n \<longrightarrow> is_complete H m' n)"

text \<open>TXT records read back as they were written, when none of them is lost.\<close>

definition txt_law :: "'nm hickory \<Rightarrow> bool" where
  "txt_law H \<longleftrightarrow> (\<forall>m encoded d. to_vec H m = Some encoded \<and> from_vec H encoded = Some d \<and>
     length (answers d) = length (answers m) \<and> (\<forall>r\<in>set (answers m). \<exists>vs. rr_data r = RTXT vs) \<longrightarrow>
     map rr_data (answers d) = map rr_data (answers m))"

text \<open>A message that had to be cut short says so (the TC bit, RFC 2181): otherwise no answer is lost.\<close>

definition tc_law :: "'nm hickory \<Rightarrow> bool" where
  "tc_law H \<longleftrightarrow> (\<forall>m encoded d. to_vec H m = Some encoded \<and> from_vec H encoded = Some d \<and> \<not> truncation d \<longrightarrow>
     length (answers d) = length (answers m))"

text \<open>
  A TXT query for the challenge name, and whether the name is written as in the configuration, letter
  case included; a name read from a message is rooted, the configured one is not.
\<close>

definition challenge_lookup :: "'nm hickory \<Rightarrow> config \<Rightarrow> 'nm message \<Rightarrow> 'nm question \<Rightarrow> bool" where
  "challenge_lookup H c request q \<longleftrightarrow> message_type request = QueryMessage \<and> accepted H c request q \<and>
     q_type q = TXT \<and> qname_text H (q_name q) = acme_name c"

definition same_spelling :: "'nm hickory \<Rightarrow> config \<Rightarrow> 'nm question \<Rightarrow> bool" where
  "same_spelling H c q \<longleftrightarrow> (\<forall>n. from_ascii H (acme_name c) = Inr n \<longrightarrow> name_text H (q_name q) = name_text H n)"

definition challenge_query :: "'nm hickory \<Rightarrow> config \<Rightarrow> 'nm message \<Rightarrow> 'nm question \<Rightarrow> bool" where
  "challenge_query H c request q \<longleftrightarrow> challenge_lookup H c request q \<and> same_spelling H c q"

lemmas challenge_query_defs = challenge_query_def challenge_lookup_def same_spelling_def

definition query_law :: "'nm hickory \<Rightarrow> bool" where
  "query_law H \<longleftrightarrow> (\<forall>n t. q_name (query_new H n t) = n \<and> q_type (query_new H n t) = t)"

subsection \<open>The measured and the real answer\<close>

lemma challenge_response:
  assumes "handler_ok H h" and "response_law H" and "challenge_query H (config h) request q"
    and "build_response H now request h = Some (m, h')"
  obtains zone ns soa_rr n where "h' = h\<lparr>acme := refresh_zone now (acme h)\<rparr>"
    "from_ascii H (domain (config h)) = Inr zone" "from_ascii H (ns_hostname (config h)) = Inr ns"
    "soa_record H zone ns (store_serial (acme h')) = Some soa_rr"
    "from_ascii H (acme_name (config h)) = Inr n" "name_text H (q_name q) = name_text H n"
    "m = (add_authority soa_rr (add_query q (response_header H request)))
       \<lparr>answers := map (txt_record n (txt_ttl (config h))) (store_values (acme h') (acme_name (config h)))\<rparr>"
proof -
  have v: "valid_config H (config h)" using assms(1) by (simp add: handler_ok_def)
  obtain an where an: "from_ascii H (acme_name (config h)) = Inr an" using valid_names [OF v] .
  have q: "accepted H (config h) request q" "q_type q = TXT" "from_ascii H (acme_name (config h)) = Inr an"
      "qname_text H (q_name q) = acme_name (config h)" "name_text H (q_name q) = name_text H an"
    using assms(3) an by (simp_all add: challenge_query_defs)
  show thesis
  proof (rule accepted_sections [OF assms(1,2) q(1) assms(4)])
    fix zone ns soa_rr
    assume n: "from_ascii H (domain (config h)) = Inr zone" "from_ascii H (ns_hostname (config h)) = Inr ns"
      and h': "h' = h\<lparr>acme := refresh_zone now (acme h)\<rparr>"
      and s: "soa H (config h) (store_serial (acme h')) = Some soa_rr"
      and a: "answer_query H (config h) (q_name q) (qname_text H (q_name q)) (q_type q)
       (txt_values (config h) (acme h') (qname_text H (q_name q)) (q_type q)) soa_rr
       (add_authority soa_rr (add_query q (response_header H request))) = Some m"
    have "name_exists (config h) (acme_name (config h))" by (simp add: name_exists_def)
    then have "m = (add_authority soa_rr (add_query q (response_header H request)))
       \<lparr>answers := map (txt_record an (txt_ttl (config h))) (store_values (acme h') (acme_name (config h)))\<rparr>"
      using a assms(2) q(2-4)
      by (auto simp: answer_query_def txt_records_def txt_values_def Let_def fold_add_answer nxdomain_unless_def)
    with that [OF h' n _ q(3,5)] n s show thesis by (simp add: soa_def)
  qed
qed

lemma challenge_same_shape:
  assumes "handler_ok H h" and "response_law H" and "query_law H" and "challenge_query H (config h) request q"
    and "build_response H now request h = Some (m, h')" and cap: "from_config H (config h) = Some cap"
  obtains m0 where "response H cap (store_values (acme h') (acme_name (config h))) = Some m0"
    "same_shape H m0 m" "\<not> truncation m" "answers m0 = answers m"
proof (rule challenge_response [OF assms(1,2,4,5)])
  let ?vs = "store_values (acme h') (acme_name (config h))"
  fix zone ns soa_rr name
  assume n: "from_ascii H (domain (config h)) = Inr zone" "from_ascii H (ns_hostname (config h)) = Inr ns"
    and name: "from_ascii H (acme_name (config h)) = Inr name" "name_text H (q_name q) = name_text H name"
    and s: "soa_record H zone ns (store_serial (acme h')) = Some soa_rr"
    and m: "m = (add_authority soa_rr (add_query q (response_header H request)))
       \<lparr>answers := map (txt_record name (txt_ttl (config h))) ?vs\<rparr>"
  have q: "q_type q = TXT" using assms(4) by (simp add: challenge_query_defs)
  have c: "cap = \<lparr>cap_acme_name = name, cap_zone = zone, cap_ns_hostname = ns, cap_txt_ttl = txt_ttl (config h)\<rparr>"
    using cap n name(1) by (simp add: from_config_eq_Some)
  from s obtain rn where rn: "from_ascii H (''admin.'' @ to_ascii H zone) = Inr rn"
      "soa_rr = \<lparr>rr_name = zone, rr_ttl = 10, rr_data = RSOA ns rn (store_serial (acme h')) 3600 900 86400 10\<rparr>"
    by (auto simp: soa_record_def bind_eq_Some_conv)
  then obtain m0 where m0: "response H cap ?vs = Some m0"
    by (simp add: response_def c soa_record_def Let_def)
  show thesis
  proof (rule that [OF m0])
    show "same_shape H m0 m" and "answers m0 = answers m" and "\<not> truncation m"
      using m0 m rn assms(2,3) q name(2)
      by (auto simp: same_shape_def response_def c soa_record_def Let_def fold_txt_records
          message_build_defs query_law_def response_law_def)
  qed
qed

subsection \<open>Delivery\<close>

text \<open>The laws of the DNS library that delivery rests on.\<close>

definition codec_laws :: "'nm hickory \<Rightarrow> bool" where
  "codec_laws H \<longleftrightarrow> response_law H \<and> query_law H \<and> shape_law H \<and> txt_law H"

lemma is_complete_iff:
  "is_complete H m n \<longleftrightarrow> (\<exists>encoded d. to_vec H m = Some encoded \<and> from_vec H encoded = Some d \<and>
     \<not> truncation d \<and> length (answers d) = n)"
  by (auto simp: is_complete_def split: option.splits)

lemma challenge_delivered:
  assumes "handler_ok H h" and laws: "codec_laws H" and cap: "from_config H (config h) = Some cap"
    and raw: "from_vec H raw = Some request" and q: "challenge_query H (config h) request q"
    and fits: "fits H cap (store_values (refresh_zone now (acme h)) (acme_name (config h))) = Some True"
  obtains reply h' d where "handle H now raw h = Some (reply, h')" "acme h' = refresh_zone now (acme h)"
    "from_vec H reply = Some d" "\<not> truncation d"
    "map rr_data (answers d) = map (\<lambda>v. RTXT [v]) (store_values (refresh_zone now (acme h)) (acme_name (config h)))"
proof -
  let ?vs = "store_values (refresh_zone now (acme h)) (acme_name (config h))"
  have l: "response_law H" "query_law H" "shape_law H" "txt_law H" using laws by (simp_all add: codec_laws_def)
  obtain m h' where b: "build_response H now request h = Some (m, h')"
    using build_response_total [OF assms(1), of now request] by metis
  have h': "acme h' = refresh_zone now (acme h)"
    by (rule challenge_response [OF assms(1) l(1) q b]) simp
  obtain m0 where m0: "response H cap ?vs = Some m0" "same_shape H m0 m" "\<not> truncation m" "answers m0 = answers m"
    using challenge_same_shape [OF assms(1) l(1,2) q b cap] h' by metis
  then have "is_complete H m0 (length ?vs)" using fits by (simp add: fits_def)
  then have "is_complete H m (length ?vs)" using l(3) m0 unfolding shape_law_def by blast
  then obtain reply d where r: "to_vec H m = Some reply" "from_vec H reply = Some d" "\<not> truncation d"
      "length (answers d) = length ?vs" by (auto simp: is_complete_iff)
  have a: "answers m = map (txt_record (cap_acme_name cap) (cap_txt_ttl cap)) ?vs"
    using response_answers [OF l(1) m0(1)] m0(4) by simp
  have "length (answers d) = length (answers m)" and "\<forall>r\<in>set (answers m). \<exists>vs. rr_data r = RTXT vs"
    using r(4) by (simp_all add: a txt_record_def)
  then have "map rr_data (answers d) = map rr_data (answers m)"
    using l(4) r(1,2) unfolding txt_law_def by blast
  then have "map rr_data (answers d) = map (\<lambda>v. RTXT [v]) ?vs" by (simp add: a txt_record_def)
  moreover have "handle H now raw h = Some (reply, h')"
    using raw q b r by (simp add: handle_def challenge_query_defs encode_complete_or_servfail_def)
  ultimately show thesis using that r h' by blast
qed

text \<open>In another spelling the answer is complete as well, or it is the server failure.\<close>

lemma lookup_delivered:
  assumes "handler_ok H h" and laws: "codec_laws H" "tc_law H"
    and raw: "from_vec H raw = Some request" and q: "challenge_lookup H (config h) request q"
  obtains reply h' where "handle H now raw h = Some (reply, h')"
    "reply = servfail H request \<or>
     (\<exists>d. from_vec H reply = Some d \<and> \<not> truncation d \<and>
        map rr_data (answers d) = map (\<lambda>v. RTXT [v]) (store_values (refresh_zone now (acme h)) (acme_name (config h))))"
proof -
  let ?vs = "store_values (refresh_zone now (acme h)) (acme_name (config h))"
  have l: "response_law H" "txt_law H" using laws(1) by (simp_all add: codec_laws_def)
  have q': "accepted H (config h) request q" "q_type q = TXT" "qname_text H (q_name q) = acme_name (config h)"
      "message_type request = QueryMessage" using q by (simp_all add: challenge_lookup_def)
  obtain m h' where b: "build_response H now request h = Some (m, h')" "acme h' = refresh_zone now (acme h)"
    by (rule accepted_response [OF assms(1) q'(1), of now]) simp
  obtain name where a: "answers m = map (txt_record name (txt_ttl (config h))) ?vs"
    using txt_answer [OF assms(1) l(1) q'(1) b(1) q'(2,3)] b(2) by auto
  have h: "handle H now raw h = Some (encode_complete_or_servfail H request m, h')"
    using raw q'(4) b(1) by (simp add: handle_def)
  show thesis
  proof (rule that [OF h])
    have "map rr_data (answers d) = map (\<lambda>v. RTXT [v]) ?vs"
      if "to_vec H m = Some encoded" "from_vec H encoded = Some d" "\<not> truncation d" for encoded d
    proof -
      have "length (answers d) = length (answers m)" using laws(2) that unfolding tc_law_def by blast
      moreover have "\<forall>r\<in>set (answers m). \<exists>vs. rr_data r = RTXT vs" by (simp add: a txt_record_def)
      ultimately have "map rr_data (answers d) = map rr_data (answers m)"
        using l(2) that(1,2) unfolding txt_law_def by blast
      then show ?thesis by (simp add: a txt_record_def)
    qed
    then show "encode_complete_or_servfail H request m = servfail H request \<or>
        (\<exists>d. from_vec H (encode_complete_or_servfail H request m) = Some d \<and> \<not> truncation d \<and>
           map rr_data (answers d) = map (\<lambda>v. RTXT [v]) ?vs)"
      by (auto simp: encode_complete_or_servfail_def split: option.split)
  qed
qed

text \<open>
  C12. UDP and TCP give the same answer: a datagram is answered as the same message over TCP is, unless
  that takes more bytes than the client accepts or than 1232; then the answer is the truncated form
  of the same response (or the server failure, where even that cannot be encoded). The effect on
  the state is the same.
\<close>

theorem udp_agrees_with_tcp:
  "handle_udp H now raw h =
     map_option (\<lambda>(reply, h').
       (case from_vec H raw of
          None \<Rightarrow> reply
        | Some request \<Rightarrow>
            if reply = [] \<or> length reply \<le> min (unat (message_max_payload H request)) 1232 then reply
            else (case build_response H now request h of
                    None \<Rightarrow> reply
                  | Some (m, h'') \<Rightarrow>
                      (case to_vec H (truncate_message H m) of
                         Some encoded \<Rightarrow> encoded | None \<Rightarrow> servfail H request)), h'))
       (handle H now raw h)"
proof -
  have "unat (min w (1232 :: u16)) = min (unat w) 1232" for w :: u16
    by (simp add: min_def word_le_nat_alt)
  then show ?thesis
    by (cases "from_vec H raw"; cases "build_response H now (the (from_vec H raw)) h")
      (auto simp: handle_def handle_udp_def MAX_UDP_PAYLOAD_def Let_def split: option.splits)
qed

end
