(* ===== verification/Delivery_Examples.thy ===== *)
theory Delivery_Examples
  imports Delivery Dns_Examples
begin

text \<open>
  A small message encoding that keeps TXT answers: the laws of delivery hold of it, and the sample
  configuration is valid with it. A message is a tag byte and the strings of its answers, each
  byte marked, each string closed by a zero; another tag stands for one fixed query.
\<close>

subsection \<open>An encoding of TXT answers\<close>

definition write_txt :: "string \<Rightarrow> bytes" where
  "write_txt v = concat (map (\<lambda>c. [1, word_of_nat (of_char c)]) v) @ [0]"

fun read_txt :: "string \<Rightarrow> bytes \<Rightarrow> string list" where
  "read_txt cur [] = []"
| "read_txt cur [b] = (if b = 0 then [cur] else [])"
| "read_txt cur (b # c # bs) =
     (if b = 0 then cur # read_txt [] (c # bs) else read_txt (cur @ [char_of_byte c]) bs)"

lemma read_txt_0 [simp]: "read_txt cur (0 # bs) = cur # read_txt [] bs"
  by (cases bs) simp_all

lemma char_of_word [simp]: "char_of_byte (word_of_nat (of_char c)) = c"
  by (simp add: char_of_byte_def unat_of_nat take_bit_eq_mod)

lemma read_write: "read_txt cur (write_txt v @ bs) = (cur @ v) # read_txt [] bs"
  by (induction v arbitrary: cur) (simp_all add: write_txt_def)

lemma read_write_all: "read_txt [] (concat (map (write_txt \<circ> f) xs)) = map f xs"
  by (induction xs) (simp_all add: read_write)

definition txt_string :: "'nm rr \<Rightarrow> string option" where
  "txt_string r = (case rr_data r of RTXT [v] \<Rightarrow> Some v | _ \<Rightarrow> None)"

lemma txt_string_record [simp]: "txt_string (txt_record n ttl v) = Some v"
  by (simp add: txt_string_def txt_record_def)

lemma txt_string_data: "txt_string r = Some v \<Longrightarrow> rr_data r = RTXT [v]"
  by (auto simp: txt_string_def split: rdata.splits list.splits)

definition challenge_text :: string where
  "challenge_text = ''_acme-challenge.xip.example.com''"

definition txt_hickory :: "nat \<Rightarrow> string hickory" where
  "txt_hickory k = (counting_hickory k)\<lparr>
     to_vec := (\<lambda>m. if length (answers m) \<le> k \<and> (\<forall>r\<in>set (answers m). txt_string r \<noteq> None)
       then Some (0 # concat (map (\<lambda>r. write_txt (the (txt_string r))) (answers m))) else None),
     from_vec := (\<lambda>bs. case bs of [] \<Rightarrow> None
       | b # bs \<Rightarrow> Some (if b = 1 then demo_request challenge_text TXT
           else (message_response text_hickory 0 Query)\<lparr>answers := map (txt_record '''' 0) (read_txt [] bs)\<rparr>))\<rparr>"

lemma txt_hickory_sel [simp]:
  "message_response (txt_hickory k) = message_response text_hickory"
  "from_ascii (txt_hickory k) s = (if s = [] then Inl ''empty name'' else Inr s)"
  "to_ascii (txt_hickory k) s = s"
  "query_new (txt_hickory k) s t = \<lparr>q_name = s, q_type = t, q_class = IN\<rparr>"
  by (simp_all add: txt_hickory_def)

lemma txt_encoded: "to_vec (txt_hickory k) m = Some bs \<longleftrightarrow>
    length (answers m) \<le> k \<and> (\<forall>r\<in>set (answers m). txt_string r \<noteq> None) \<and>
    bs = 0 # concat (map (write_txt \<circ> (the \<circ> txt_string)) (answers m))"
  by (auto simp: txt_hickory_def comp_def)

lemma txt_decoded: "from_vec (txt_hickory k) (0 # bs) =
    Some ((message_response text_hickory 0 Query)\<lparr>answers := map (txt_record '''' 0) (read_txt [] bs)\<rparr>)"
  by (simp add: txt_hickory_def)

lemma txt_round: "to_vec (txt_hickory k) m = Some bs \<Longrightarrow> from_vec (txt_hickory k) bs =
    Some ((message_response text_hickory 0 Query)\<lparr>answers := map (txt_record '''' 0 \<circ> the \<circ> txt_string) (answers m)\<rparr>)"
  by (simp add: txt_encoded txt_decoded read_write_all)

lemma txt_complete: "is_complete (txt_hickory k) m n \<longleftrightarrow>
    length (answers m) \<le> k \<and> (\<forall>r\<in>set (answers m). txt_string r \<noteq> None) \<and> length (answers m) = n"
proof (cases "to_vec (txt_hickory k) m")
  case None
  then show ?thesis
    by (auto simp: is_complete_iff) (auto simp: txt_hickory_def split: if_splits)
next
  case (Some bs)
  with txt_round [OF Some] show ?thesis
    by (simp add: is_complete_iff) (auto simp: text_hickory_def txt_encoded)
qed

lemma txt_codec: "codec_laws (txt_hickory k)"
proof -
  have "response_law (txt_hickory k)"
    using response_law_counting [of k] by (simp add: response_law_def)
  moreover have "query_law (txt_hickory k)" by (simp add: query_law_def)
  moreover have "shape_law (txt_hickory k)"
    by (auto simp: shape_law_def txt_complete same_shape_def)
  moreover have "txt_law (txt_hickory k)"
    unfolding txt_law_def
  proof (intro allI impI, elim conjE)
    fix m :: "string message" and bs d
    assume e: "to_vec (txt_hickory k) m = Some bs" and d: "from_vec (txt_hickory k) bs = Some d"
    have "rr_data (txt_record '''' 0 (the (txt_string r))) = rr_data r" if "txt_string r \<noteq> None" for r :: "string rr"
      using that by (auto simp: txt_record_def txt_string_data)
    with e show "map rr_data (answers d) = map rr_data (answers m)"
      using txt_round [OF e] d by (auto simp: txt_encoded)
  qed
  ultimately show ?thesis by (simp add: codec_laws_def)
qed

lemma txt_tc_law: "tc_law (txt_hickory k)"
  by (auto simp: tc_law_def dest: txt_round)

subsection \<open>The sample configuration with it\<close>

lemma txt_fits: "fits (txt_hickory k) cap vs = Some (length vs \<le> k)"
proof -
  obtain m where m: "response (txt_hickory k) cap vs = Some m"
    by (simp add: response_def soa_record_def Let_def)
  have "response_law (txt_hickory k)" using response_law_counting [of k] by (simp add: response_law_def)
  from response_answers [OF this m] m show ?thesis by (auto simp: fits_def txt_complete)
qed

lemma txt_from_config: "from_config (txt_hickory k) c = from_config (counting_hickory k) c"
  by (simp add: from_config_def)

lemma txt_maximum: "maximum_token_count (txt_hickory k) cap = maximum_token_count (counting_hickory k) cap"
proof -
  have "fits_count (txt_hickory k) cap = fits_count (counting_hickory k) cap"
    by (simp add: fun_eq_iff fits_count_fits txt_fits counting_fits)
  then show ?thesis by (simp add: maximum_token_count_def)
qed

lemma txt_validate: "validate (txt_hickory 150) sample_config = Some (Inr ())"
  by (simp add: validate_def txt_from_config txt_maximum sample_from_config sample_maximum ends_with_def acme_name_def)

lemma txt_drop_complete: "drop_complete (txt_hickory k) cap"
  by (auto simp: drop_complete_def txt_fits)

lemma txt_parse_dns_name: "parse_dns_name (txt_hickory k) s = parse_dns_name text_hickory s"
  by (simp add: parse_dns_name_def Let_def)

lemma txt_challenge: "challenge_query (txt_hickory k) sample_config (demo_request challenge_text TXT) (demo_query challenge_text TXT)"
  by (simp add: challenge_query_defs accepted_def edns_supported_def qname_text_def name_text_def challenge_text_def demo_eval)

lemma txt_request: "from_vec (txt_hickory k) [1] = Some (demo_request challenge_text TXT)"
  by (simp add: txt_hickory_def)

end
