(* ===== verification/Sample_Run.thy ===== *)
theory Sample_Run
  imports System_Spec Atomic Delivery_Examples
begin

text \<open>
  A started server with overlapping requests: the sample configuration, a DNS library whose TXT
  messages are really encoded and decoded, and one request driven step by step up to its store
  operation and its response.
\<close>

abbreviation "wire_hickory \<equiv> txt_hickory 150"

subsection \<open>Start-up\<close>

lemma parse_wire: "parse_config wire_hickory decimal_clap sample_args = Inr sample_config"
  using parse_sample_config unfolding parse_config_def txt_parse_dns_name .

lemma wire_startup:
  "startup wire_hickory decimal_clap (sem_lib demo_lib) sample_args 7 (Instant 0) = Some (Inr sample_system)"
  by (simp add: startup_def parse_wire txt_validate txt_from_config sample_from_config sample_router_gate
      sample_system_def new_records_def Let_def)

lemma wire_response_law: "response_law wire_hickory"
  using txt_codec [of 150] by (simp add: codec_laws_def)

lemma sample_acme: "sys_acme sample_system = with_serial (token_lifetime sample_config) 100 sample_config_capacity 7"
  by (simp add: sample_system_def)

lemma sample_gate: "sys_gate sample_system = api_gate demo_state"
  using sample_api_view by (metis view_sel(5))

subsection \<open>A request up to its store operation\<close>

lemma sample_check:
  "task_step H ho demo_lib ep good_request (CheckRate (Instant 1)) Received (api_view sample_system) =
     Some (Continue Rated, (api_view sample_system)\<lparr>api_gate := snd (check_rate (Instant 1) (sys_gate sample_system))\<rparr>)"
  using demo_admitted demo_auth
  by (simp add: sample_gate sample_config_of case_prod_unfold Let_def del: demo_state_sel check_rate_sel)

lemma sample_acquire:
  obtains g where "try_acquire (sem_lib demo_lib) (snd (check_rate (Instant 1) (sys_gate sample_system))) = Some g"
proof -
  have "permits counting_semaphore (snd (check_rate (Instant 1) (sys_gate sample_system))) =
      permits counting_semaphore (api_gate demo_state)"
    by (simp add: sample_gate permits_def del: demo_state_sel)
  with demo_permits have "try_acquire counting_semaphore (snd (check_rate (Instant 1) (sys_gate sample_system))) \<noteq> None"
    by (simp add: try_acquire_None del: demo_state_sel)
  then show thesis using that by auto
qed

definition parsed_trace :: "endpoint \<Rightarrow> (present_request option srv_event \<times> reply option) list" where
  "parsed_trace ep = [(Post 0 ep good_request, None), (Move 0 (CheckRate (Instant 1)), None),
     (Move 0 Acquire, None), (Move 0 Extract, None)]"

lemma sample_parsed:
  obtains y where "srv_run H ho demo_lib t (serving sample_system) (parsed_trace ep) [] t
      (solo y ep good_request (Parsed demo_token))"
    "sys_config y = sample_config" "sys_acme y = sys_acme sample_system"
proof (rule sample_acquire)
  let ?g = "snd (check_rate (Instant 1) (sys_gate sample_system))"
  fix g assume g: "try_acquire (sem_lib demo_lib) ?g = Some g"
  let ?a = "(api_view sample_system)\<lparr>api_gate := ?g\<rparr>" and ?b = "(api_view sample_system)\<lparr>api_gate := g\<rparr>"
  have posted: "srv_run H ho demo_lib t (serving sample_system) [(Post 0 ep good_request, None)] [] t
      (solo sample_system ep good_request Received)"
    using srv_event [OF srv_none, of "Post 0 ep good_request" "serving sample_system" t t H ho demo_lib]
    by (simp add: serving_def solo_def new_task_def)
  have rated: "srv_run H ho demo_lib t (solo sample_system ep good_request Received)
      [(Move 0 (CheckRate (Instant 1)), None)] [] t (solo (with_api ?a sample_system) ep good_request Rated)"
    using solo_step [OF sample_check, of t t] by simp
  have admitted: "srv_run H ho demo_lib t (solo (with_api ?a sample_system) ep good_request Rated)
      [(Move 0 Acquire, None)] [] t (solo (with_api ?b (with_api ?a sample_system)) ep good_request Admitted)"
    using solo_step [of H ho demo_lib ep good_request Acquire Rated "with_api ?a sample_system" Admitted ?b t t] g
    by (simp add: api_view_def with_api_def)
  let ?y = "with_api ?b (with_api ?a sample_system)"
  have parsed: "srv_run H ho demo_lib t (solo ?y ep good_request Admitted)
      [(Move 0 Extract, None)] [] t (solo ?y ep good_request (Parsed demo_token))"
    using solo_step [of H ho demo_lib ep good_request Extract Admitted ?y "Parsed demo_token" "api_view ?y" t t]
    by (simp add: MAX_REQUEST_BODY_LEN_def)
  show thesis
  proof (rule that)
    show "srv_run H ho demo_lib t (serving sample_system) (parsed_trace ep) [] t
        (solo ?y ep good_request (Parsed demo_token))"
      using srv_run_append [OF srv_run_append [OF srv_run_append [OF posted rated] admitted] parsed]
      by (simp add: parsed_trace_def)
  qed (simp_all add: sample_config_of)
qed

subsection \<open>The store operation and the response\<close>

definition sample_op :: "endpoint \<Rightarrow> store_op" where
  "sample_op ep = (case ep of
       ToPresent \<Rightarrow> Add (Instant 2) (Instant 3) (acme_name sample_config) (present_value demo_token)
     | ToCleanup \<Rightarrow> Remove (Instant 2) (acme_name sample_config) (present_value demo_token))"

definition answered_trace :: "endpoint \<Rightarrow> (present_request option srv_event \<times> reply option) list" where
  "answered_trace ep = parsed_trace ep @ [(Move 0 (Operate (Instant 2) (Instant 3)), None)]"

lemma wire_add:
  "\<exists>ar. add wire_hickory (\<lambda>rs. rs) (Instant 2) (Instant 3) n v (with_serial life 100 cap 7) = Some (Inr (), ar)"
  by (simp add: add_def prune_def retain_live_def txt_fits tokens_of_def all_values_def with_serial_def set_zone_def)

lemma sample_name: "acme_name sample_config = ''_acme-challenge.xip.example.com''"
  using demo_valid by (simp add: validate_request_eq_Inr)

lemma sample_operate:
  assumes "sys_config y = sample_config" and "sys_acme y = sys_acme sample_system"
  obtains a r where "task_step wire_hickory (\<lambda>rs. rs) demo_lib ep good_request (Operate (Instant 2) (Instant 3))
      (Parsed demo_token) (api_view y) = Some (Continue (Answering r), a)" "status_code r = 200"
proof (cases ep)
  case ToPresent
  obtain ar where "add wire_hickory (\<lambda>rs. rs) (Instant 2) (Instant 3) (acme_name sample_config)
      (present_value demo_token) (sys_acme sample_system) = Some (Inr (), ar)"
    using wire_add unfolding sample_acme by blast
  with ToPresent show thesis
    by (intro that [of "json_result (Inr ())"])
      (simp_all add: present_def assms demo_valid sample_name json_result_def)
next
  case ToCleanup
  then show thesis
    by (intro that [of "json_result (Inr ())"])
      (simp_all add: cleanup_def assms demo_valid json_result_def)
qed

lemma sample_answered:
  obtains y r where "srv_run wire_hickory (\<lambda>rs. rs) demo_lib (Instant 0) (serving sample_system)
      (answered_trace ep) [sample_op ep] (Instant 3) (solo y ep good_request (Answering r))" "status_code r = 200"
proof (rule sample_parsed [of wire_hickory "\<lambda>rs. rs" "Instant 0" ep])
  fix y
  assume run: "srv_run wire_hickory (\<lambda>rs. rs) demo_lib (Instant 0) (serving sample_system) (parsed_trace ep) []
      (Instant 0) (solo y ep good_request (Parsed demo_token))"
    and y: "sys_config y = sample_config" "sys_acme y = sys_acme sample_system"
  obtain a r where a: "task_step wire_hickory (\<lambda>rs. rs) demo_lib ep good_request (Operate (Instant 2) (Instant 3))
      (Parsed demo_token) (api_view y) = Some (Continue (Answering r), a)" "status_code r = 200"
    using sample_operate [OF y] by blast
  have ops: "task_ops (sys_config y) ep (Operate (Instant 2) (Instant 3)) (Parsed demo_token) = [sample_op ep]"
    by (simp add: y sample_op_def demo_valid sample_name split: endpoint.split)
  from solo_step [OF a(1), of "Instant 0" "Instant 3"] ops
  have "srv_run wire_hickory (\<lambda>rs. rs) demo_lib (Instant 0) (solo y ep good_request (Parsed demo_token))
      [(Move 0 (Operate (Instant 2) (Instant 3)), None)] [sample_op ep] (Instant 3)
      (solo (with_api a y) ep good_request (Answering r))" by simp
  from srv_run_append [OF run this] a(2) show thesis
    by (intro that [of "with_api a y" r]) (simp_all add: answered_trace_def)
qed

lemma solo_reply:
  "enabled (Move 0 Respond) (solo y ep req (Answering r))"
  "map_of (srv_tasks (solo y ep req (Answering r))) 0 =
     Some \<lparr>task_endpoint = ep, task_request = req, task_stage = Answering r\<rparr>"
  "\<exists>s. srv_step H ho L (Move 0 Respond) (solo y ep req (Answering r)) = Some (Some (HttpReply r), s)"
  by (simp_all add: solo_def)


end
