(* ===== verification/Service.thy ===== *)
theory Service
  imports Process_Spec Sample_Run
begin

text \<open>
  The service a client relies on, for any history of a started server in which requests overlap
  with one another and with DNS messages: what a response with status 200 means for the answers
  to TXT queries, and that these answers reach the client as bytes, complete.
\<close>

subsection \<open>Answers in a history\<close>

lemma history_ok_views:
  assumes "srv_ok H s"
  shows "handler_ok H (dns_view (srv_system s))" and "store_wf (sys_acme (srv_system s))"
  using assms by (simp_all add: srv_ok_def sys_ok_views) (simp add: handler_ok_def)

lemma serving_sel [simp]: "srv_system (serving s) = s" "srv_tasks (serving s) = []"
  by (simp_all add: serving_def)

lemma startup_life:
  assumes "clap_law C" and "startup H C S args timestamp now = Some (Inr s0)"
  shows "lifetime (sys_acme s0) = token_lifetime (sys_config s0)" "store_wf (sys_acme s0)"
  using startup_ok [OF assms] by auto

text \<open>The TXT answer for the challenge name in terms of the store.\<close>

lemma txt_answer_at:
  assumes "srv_ok H s" and "sys_config (srv_system s) = c" and "response_law H"
    and "accepted H c request q" and "q_type q = TXT" and "qname_text H (q_name q) = acme_name c"
    and "build_response H u request (dns_view (srv_system s)) = Some (m, h')"
  obtains name vs where "answers m = map (txt_record name (txt_ttl c)) vs"
    "set vs = {v. expire u (store_view (sys_acme (srv_system s))) (acme_name c) v \<noteq> None}"
  using txt_answer [OF history_ok_views(1) [OF assms(1)] assms(3), of request q u m h'] assms(2,4-7) that
  by auto

text \<open>At any point of a history the complete answer with all live values fits one message.\<close>

lemma history_fits:
  assumes laws: "clap_law C" "semaphore_law (sem_lib L)" "fair_order ho"
    and start: "startup H C (sem_lib L) args timestamp now = Some (Inr s0)"
    and complete: "drop_complete H (wire_capacity (sys_acme s0))"
    and run: "srv_run H ho L now (serving s0) tr ops t s" and "t \<le> u"
  shows "fits H (wire_capacity (sys_acme s0))
    (store_values (refresh_zone u (sys_acme (srv_system s))) (acme_name (sys_config s0))) = Some True"
proof -
  obtain t' where ops: "t' \<le> t" "store_run H ho now (sys_acme s0) ops t' (sys_acme (srv_system s))"
      "\<forall>p\<in>set ops. adds_only (acme_name (sys_config s0)) p"
    using srv_run_store [OF laws(2) run startup_sound(1) [OF laws(1,2) start]] by auto
  have "store_run H ho now (sys_acme s0) (ops @ [ReadSerial u]) u (refresh_zone u (sys_acme (srv_system s)))"
    using store_run_last [OF ops(2), of "ReadSerial u"] ops(1) \<open>t \<le> u\<close> by simp
  from limits_kept [OF laws(1,3) start complete this] ops(3) show ?thesis by simp
qed

lemma refreshed_values:
  assumes "store_wf ar"
  shows "distinct (store_values (refresh_zone u ar) n)"
    and "set (store_values (refresh_zone u ar) n) = {v. expire u (store_view ar) n v \<noteq> None}"
proof -
  have "store_wf (refresh_zone u ar)" using refresh_zone_view [OF assms] by simp
  then show "distinct (store_values (refresh_zone u ar) n)" by (simp add: store_wf_def store_values_def wf_tokens_of)
  show "set (store_values (refresh_zone u ar) n) = {v. expire u (store_view ar) n v \<noteq> None}"
    using acme.get_values [OF assms, of u n] by (simp add: fst_get_with_serial)
qed

text \<open>An answer is determined by the version of the records that its serial names.\<close>

lemma answer_version:
  assumes "srv_ok H s" and "sys_config (srv_system s) = c" and "response_law H"
    and "accepted H c request q" and "q_type q = TXT" and "qname_text H (q_name q) = acme_name c"
    and "build_response H u request (dns_view (srv_system s)) = Some (m, h')"
  shows "acme h' = refresh_zone u (sys_acme (srv_system s))"
    and "rr_data ` set (answers m) = (\<lambda>v. RTXT [v]) ` {v. (acme_name c, v) \<in> rr_keys (store_view (acme h'))}"
    and "map (soa_serial \<circ> rr_data) (authorities m) = [store_serial (acme h')]"
proof -
  note ok = history_ok_views [OF assms(1)]
  have q: "accepted H (config (dns_view (srv_system s))) request q" using assms(2,4) by simp
  obtain m0 where "build_response H u request (dns_view (srv_system s)) =
      Some (m0, (dns_view (srv_system s))\<lparr>acme := refresh_zone u (acme (dns_view (srv_system s)))\<rparr>)"
    using accepted_response [OF ok(1) q, of u] by metis
  with assms(7) show h': "acme h' = refresh_zone u (sys_acme (srv_system s))" by auto
  note answer = txt_answer [OF ok(1) assms(3) q assms(7)]
  obtain name where n: "answers m = map (txt_record name (txt_ttl c)) (store_values (acme h') (acme_name c))"
      "set (store_values (acme h') (acme_name c)) = {v. expire u (store_view (sys_acme (srv_system s))) (acme_name c) v \<noteq> None}"
    using answer assms(2,5,6) by auto
  have "set (store_values (acme h') (acme_name c)) = {v. (acme_name c, v) \<in> rr_keys (store_view (acme h'))}"
    unfolding n(2) by (simp add: h' refresh_zone_view(1) [OF ok(2)] rr_keys_def)
  then show "rr_data ` set (answers m) = (\<lambda>v. RTXT [v]) ` {v. (acme_name c, v) \<in> rr_keys (store_view (acme h'))}"
    by (auto simp: n(1) txt_record_def image_iff)
  show "map (soa_serial \<circ> rr_data) (authorities m) = [store_serial (acme h')]"
    using answer assms(2,5,6) by auto
qed

lemma query_step_acme:
  assumes "ev = TcpMessage u raw \<or> ev = Datagram u raw" and "from_vec H raw = Some request"
    and "message_type request = QueryMessage" and "srv_step H ho L ev s = Some (out, s')"
    and "build_response H u request (dns_view (srv_system s)) = Some (m, h')"
  shows "sys_acme (srv_system s') = acme h'"
  using assms by (auto simp: handle_def handle_udp_def Let_def)

subsection \<open>A response with status 200\<close>

lemma started_effect:
  assumes laws: "clap_law C" "semaphore_law (sem_lib L)" "timeout_law L"
    and start: "startup H C (sem_lib L) args timestamp now = Some (Inr s0)"
    and before: "srv_run H ho L now (serving s0) tr ops t s1"
    and reply: "enabled (Move i mv) s1" "map_of (srv_tasks s1) i = Some k"
      "srv_step H ho L (Move i mv) s1 = Some (Some (HttpReply r), s2)" "status_code r = 200"
      "json_present L 1024 (task_request k) = Inr b"
    and after: "srv_run H ho L t s2 tr' ops' t' s3"
    and nv: "n = acme_name (sys_config s0)" "v = present_value b"
  obtains began later ops2 where
    "own_operation H ho L now (serving s0) tr ops t s1 i k began later (request_op (task_endpoint k) began later n v) ops2"
    "\<And>w. task_endpoint k = ToPresent \<Longrightarrow> \<forall>p\<in>set (ops2 @ ops'). \<not> touches n v p \<Longrightarrow> t' \<le> w \<Longrightarrow>
       w < plus_duration later (token_lifetime (sys_config s0)) \<Longrightarrow> expire w (store_view (sys_acme (srv_system s3))) n v \<noteq> None"
    "\<And>w. task_endpoint k = ToCleanup \<Longrightarrow> \<forall>p\<in>set (ops2 @ ops'). \<not> touches n v p \<Longrightarrow> t' \<le> w \<Longrightarrow>
       expire w (store_view (sys_acme (srv_system s3))) n v = None"
    "srv_ok H s3" "sys_config (srv_system s3) = sys_config s0"
proof -
  have ok: "srv_ok H (serving s0)" using startup_sound(1) [OF laws(1,2) start] .
  have ok1: "srv_ok H s1" and c1: "sys_config (srv_system s1) = sys_config s0"
    using srv_run_ok [OF laws(2) before ok] by simp_all
  have ok2: "srv_ok H s2" and c2: "sys_config (srv_system s2) = sys_config s0"
    using srv_step_total [OF laws(2) ok1 reply(1), of ho] reply(3) c1 by auto
  have ok3: "srv_ok H s3" and c3: "sys_config (srv_system s3) = sys_config s0"
    using srv_run_ok [OF laws(2) after ok2] c2 by simp_all
  have move: "can_move mv (task_stage k)" using reply(1,2) by simp
  note r = reply_200 [OF reply(2) move reply(3,4)]
  have "had_operation H ho L now (serving s0) tr ops t s1 i k"
    by (rule srv_run_operations [OF laws(2,3) before ok _ reply(2)]) simp
  then have "\<exists>began later ops2. own_operation H ho L now (serving s0) tr ops t s1 i k began later
      (request_op (task_endpoint k) began later n v) ops2"
    using r(1) reply(4,5) nv c1 by (simp add: had_operation_def)
  then obtain began later ops2 where own: "own_operation H ho L now (serving s0) tr ops t s1 i k began later
      (request_op (task_endpoint k) began later n v) ops2" by blast
  show thesis
  proof (rule own_operation_store [OF laws(2) ok own r(1) reply(4) after ok2 r(2)])
    fix ar1 ar2 w
    assume s: "store_wf ar1" "lifetime ar1 = lifetime (sys_acme (srv_system (serving s0)))" "w \<le> t'"
      "store_run H ho (op_end (request_op (task_endpoint k) began later n v)) ar2 (ops2 @ ops') w (sys_acme (srv_system s3))"
      "task_endpoint k = ToPresent \<Longrightarrow> add H ho began later n v ar1 = Some (Inr (), ar2)"
      "task_endpoint k = ToCleanup \<Longrightarrow> ar2 = remove began n v ar1"
    show thesis
    proof (rule that [OF own _ _ ok3 c3])
      fix u assume u: "task_endpoint k = ToPresent" "\<forall>p\<in>set (ops2 @ ops'). \<not> touches n v p" "t' \<le> u"
        "u < plus_duration later (token_lifetime (sys_config s0))"
      show "expire u (store_view (sys_acme (srv_system s3))) n v \<noteq> None"
        by (rule presented_stays [OF s(5) [OF u(1)] s(1) _ u(2) order_trans [OF s(3) u(3)]])
          (use s(2,4) u(1,4) startup_life(1) [OF laws(1) start] in simp_all)
    next
      fix u assume u: "task_endpoint k = ToCleanup" "\<forall>p\<in>set (ops2 @ ops'). \<not> touches n v p" "t' \<le> u"
      show "expire u (store_view (sys_acme (srv_system s3))) n v = None"
        by (rule withdrawn_stays_away [OF s(1) _ u(2) order_trans [OF s(3) u(3)]])
          (use s(4,6) u(1) in simp)
    qed
  qed
qed

end
