(* ===== verification/Rate.thy ===== *)
theory Rate
  imports Gate
begin

text \<open>
  What the token bucket of \<open>src/api.rs\<close> admits over time. The code adds the refill of every check
  in double precision; the bound shown here includes all its rounding errors: the exact rate, one
  request more, and a relative error below one part in \<open>2^49\<close>.
\<close>

subsection \<open>Rounding up\<close>

lemma round_half_even_le_plus: "of_int (round_half_even r) \<le> r + 1"
  using round_half_even_bounds(2) [of r] by linarith

lemma f64_round_ulp:
  assumes "0 < x"
  shows "f64_round x \<le> x + 2 powi ulp_exponent x"
proof -
  let ?u = "(2 :: rat) powi ulp_exponent x"
  have "of_int (round_half_even (x / ?u)) * ?u \<le> (x / ?u + 1) * ?u"
    by (intro mult_right_mono round_half_even_le_plus) simp
  also have "\<dots> = x + ?u" by (simp add: algebra_simps)
  finally show ?thesis using assms by (simp add: f64_round_def Let_def)
qed

lemma ulp_le:
  assumes "0 < x"
  shows "2 powi ulp_exponent x \<le> max (x / 2 ^ 52) (2 powi (- 1074))"
proof -
  have "(2 :: rat) powi (bin_exponent x - 52) = 2 powi bin_exponent x / 2 ^ 52"
    by (simp add: pow2_diff pow2_nat)
  also have "\<dots> \<le> x / 2 ^ 52" using bin_exponent_bounds [OF assms] by (intro divide_right_mono) simp_all
  finally show ?thesis by (auto simp: ulp_exponent_def max_def)
qed

lemma f64_round_upper: "0 \<le> x \<Longrightarrow> f64_round x \<le> x * (1 + 1 / 2 ^ 52) + 2 powi (- 1074)"
proof (cases "x = 0")
  case False
  assume "0 \<le> x"
  with False have x: "0 < x" by simp
  have "0 \<le> x / 2 ^ 52" and "(0 :: rat) \<le> 2 powi (- 1074)" using x by (simp_all add: less_imp_le)
  with f64_round_ulp [OF x] ulp_le [OF x] show ?thesis by (simp add: algebra_simps)
qed (simp add: less_imp_le)

lemma f64_round_upper_normal:
  assumes "x = 0 \<or> 1 / 2 ^ 30 \<le> x"
  shows "f64_round x \<le> x * (1 + 1 / 2 ^ 52)"
proof (cases "x = 0")
  case False
  with assms have x: "1 / 2 ^ 30 \<le> x" by simp
  have "(0 :: rat) < 1 / 2 ^ 30" by simp
  with x have pos: "0 < x" by linarith
  have "(2 :: rat) powi (- 1074) \<le> 2 powi (- 82)" by (rule pow2_le_iff [THEN iffD2]) simp
  also have "\<dots> = 1 / 2 ^ 82" by (simp only: power_int_minus power_int_numeral inverse_eq_divide)
  also have "\<dots> = (1 / 2 ^ 30) / 2 ^ 52"
    by (simp only: divide_divide_eq_left power_add [symmetric]) simp
  also have "\<dots> \<le> x / 2 ^ 52" using x by (rule divide_right_mono) simp
  finally show ?thesis using f64_round_ulp [OF pos] ulp_le [OF pos] by (simp add: algebra_simps)
qed simp

subsection \<open>The refill of one check\<close>

definition eps :: rat where "eps = 1 / 2 ^ 52"

lemma eps_pos [simp]: "0 < eps" "0 \<le> eps"
  by (simp_all add: eps_def)

lemma f64_upper_normal: "x = 0 \<or> 1 / 2 ^ 30 \<le> x \<Longrightarrow> f64_round x \<le> x * (1 + eps)"
  using f64_round_upper_normal by (simp add: eps_def)

lemma f64_round_low: "1 / 2 ^ 30 \<le> x \<Longrightarrow> 1 / 2 ^ 30 \<le> f64_round x"
proof -
  assume "1 / 2 ^ 30 \<le> x"
  then have "f64_round (1 / 2 ^ 30) \<le> f64_round x" by (rule f64_round_mono)
  moreover have "(2 :: rat) powi (- 30) = 1 / 2 ^ 30"
    by (simp only: power_int_minus power_int_numeral inverse_eq_divide)
  then have "f64_rep (1 / 2 ^ 30)"
    unfolding f64_rep_def by (intro exI [of _ 1] exI [of _ "- 30"]) simp
  ultimately show ?thesis by (simp add: f64_round_id)
qed

lemma nanos_low: "n = 0 \<or> 1 / 2 ^ 30 \<le> (of_nat n / 10 ^ 9 :: rat)"
proof (cases "n = 0")
  case False
  then have "(1 :: rat) / 10 ^ 9 \<le> of_nat n / 10 ^ 9" by (intro divide_right_mono) simp_all
  moreover have "(1 :: rat) / 2 ^ 30 \<le> 1 / 10 ^ 9" by simp
  ultimately show ?thesis by linarith
qed simp

lemma f64_of_nat_upper: "f64_of_nat n \<le> of_nat n * (1 + eps)"
  unfolding f64_of_nat_def by (rule f64_upper_normal) (cases "n = 0"; simp)

lemma f64_of_nat_low: "f64_of_nat n = 0 \<or> 1 \<le> f64_of_nat n"
proof (cases "n = 0")
  case False
  then have "f64_round 1 \<le> f64_round (of_nat n)" by (intro f64_round_mono) simp
  with f64_of_nat_exact [of 1] show ?thesis by (simp add: f64_of_nat_def)
qed (simp add: f64_of_nat_def)

text \<open>The sum of seconds and fraction before its last rounding.\<close>

lemma as_secs_sum:
  fixes d :: duration
  defines "x \<equiv> f64_of_nat (d div 1000000000) + f64_round (of_nat (d mod 1000000000) / 10 ^ 9)"
  shows "as_secs_f64 d = f64_round x" and "x = 0 \<or> 1 / 2 ^ 30 \<le> x" and "x \<le> of_nat d / 10 ^ 9 * (1 + eps)"
proof -
  let ?s = "d div 1000000000" and ?n = "d mod 1000000000"
  let ?f = "f64_round (of_nat ?n / 10 ^ 9)"
  show "as_secs_f64 d = f64_round x"
    using mod_less_divisor [of 1000000000 d] by (simp add: as_secs_f64_def f64_of_nat_exact x_def)
  have "(1 :: rat) / 2 ^ 30 \<le> 1" by simp
  then show "x = 0 \<or> 1 / 2 ^ 30 \<le> x"
    using f64_of_nat_low [of ?s] nanos_low [of ?n] f64_round_low [of "of_nat ?n / 10 ^ 9"]
      f64_round_nonneg [of "of_nat ?n / 10 ^ 9"]
    unfolding x_def by (auto intro: order_trans)
  have "?f \<le> of_nat ?n / 10 ^ 9 * (1 + eps)"
    by (rule f64_upper_normal) (use nanos_low [of ?n] in auto)
  with f64_of_nat_upper [of ?s] have "x \<le> of_nat ?s * (1 + eps) + of_nat ?n / 10 ^ 9 * (1 + eps)"
    unfolding x_def by (rule add_mono)
  also have "\<dots> = (of_nat ?s + of_nat ?n / 10 ^ 9) * (1 + eps)" by (simp only: distrib_right)
  also have "(of_nat ?s :: rat) + of_nat ?n / 10 ^ 9 = of_nat d / 10 ^ 9"
  proof -
    have "(of_nat d :: rat) = of_nat (?s * 1000000000 + ?n)" by simp
    also have "\<dots> = of_nat ?s * 10 ^ 9 + of_nat ?n" by (simp only: of_nat_add of_nat_mult) simp
    finally show ?thesis by (simp add: add_divide_distrib)
  qed
  finally show "x \<le> of_nat d / 10 ^ 9 * (1 + eps)" .
qed

lemma as_secs_upper: "as_secs_f64 d \<le> of_nat d / 10 ^ 9 * (1 + eps) ^ 2"
proof -
  note x = as_secs_sum [of d]
  have "as_secs_f64 d \<le> (f64_of_nat (d div 1000000000) + f64_round (of_nat (d mod 1000000000) / 10 ^ 9)) * (1 + eps)"
    unfolding x(1) by (rule f64_upper_normal [OF x(2)])
  also have "\<dots> \<le> of_nat d / 10 ^ 9 * (1 + eps) * (1 + eps)"
    by (rule mult_right_mono [OF x(3)]) (simp add: add_nonneg_nonneg)
  finally show ?thesis by (simp add: power2_eq_square mult.assoc)
qed

lemma as_secs_low: "as_secs_f64 d = 0 \<or> 1 / 2 ^ 30 \<le> as_secs_f64 d"
  using as_secs_sum(2) [of d] f64_round_low unfolding as_secs_sum(1) by auto

definition tiny :: rat where "tiny = 2 powi (- 1074)"

lemma f64_upper: "0 \<le> x \<Longrightarrow> f64_round x \<le> x * (1 + eps) + tiny"
  using f64_round_upper by (simp add: eps_def tiny_def)

lemma tiny_nonneg [simp]: "0 \<le> tiny"
  by (simp add: tiny_def less_imp_le)

lemma refilled_upper:
  assumes ok: "bucket_ok b" and r: "1 \<le> rate_per_second b"
  shows "refilled now b \<le> tokens b +
    rate_per_second b * (of_nat (duration_since now (last_refill b)) / 10 ^ 9) * (1 + eps) ^ 4 + (burst b * eps + tiny)"
proof -
  let ?d = "duration_since now (last_refill b)" and ?r = "rate_per_second b"
  let ?D = "of_nat ?d / 10 ^ 9 :: rat" and ?e = "as_secs_f64 ?d"
  have t: "0 \<le> tokens b" "tokens b \<le> burst b" using ok f64_rep_nonneg by (auto simp: bucket_ok_def)
  have low: "?e * ?r = 0 \<or> 1 / 2 ^ 30 \<le> ?e * ?r"
    using as_secs_low [of ?d] mult_mono [of "1 / 2 ^ 30" ?e 1 ?r] r by auto
  have "f64_round (?e * ?r) \<le> ?e * ?r * (1 + eps)" by (rule f64_upper_normal [OF low])
  also have "\<dots> \<le> ?D * (1 + eps) ^ 2 * ?r * (1 + eps)"
    using r by (intro mult_right_mono as_secs_upper) (simp_all add: add_nonneg_nonneg)
  also have "\<dots> = ?r * ?D * (1 + eps) ^ 3" by (simp add: power2_eq_square power3_eq_cube algebra_simps)
  finally have x: "tokens b + f64_round (?e * ?r) \<le> tokens b + ?r * ?D * (1 + eps) ^ 3" by simp
  have "refilled now b \<le> f64_round (tokens b + f64_round (?e * ?r))" by (simp add: refilled_def)
  also have "\<dots> \<le> (tokens b + f64_round (?e * ?r)) * (1 + eps) + tiny"
    using t by (intro f64_upper) simp
  also have "\<dots> \<le> (tokens b + ?r * ?D * (1 + eps) ^ 3) * (1 + eps) + tiny"
    using x by (intro add_right_mono mult_right_mono) (simp_all add: add_nonneg_nonneg)
  also have "\<dots> = tokens b + ?r * ?D * (1 + eps) ^ 4 + (tokens b * eps + tiny)"
    by (simp add: distrib_right distrib_left power_add [of "1 + eps" 3 1, simplified])
  also have "\<dots> \<le> tokens b + ?r * ?D * (1 + eps) ^ 4 + (burst b * eps + tiny)"
    using t by (intro add_left_mono add_right_mono mult_right_mono) simp_all
  finally show ?thesis .
qed

subsection \<open>A window of checks\<close>

definition admitted_count :: "instant list \<Rightarrow> 'sem request_gate \<Rightarrow> nat" where
  "admitted_count ts g = length (filter id (fst (admissions ts g)))"

definition elapsed :: "instant \<Rightarrow> instant list \<Rightarrow> duration" where
  "elapsed t ts = duration_since (last (t # ts)) t"

lemma elapsed_Cons:
  assumes "sorted (t # u # ts)"
  shows "elapsed t (u # ts) = duration_since u t + elapsed u ts"
proof -
  have "u \<le> last (u # ts)" using assms by (cases ts) (auto simp: last_in_set)
  then show ?thesis using assms
    by (cases t; cases u; cases "last (u # ts)") (auto simp: elapsed_def)
qed

lemma admitted_upper:
  assumes "gate_ok g" and "1 \<le> rate_per_second (rate g)" and "sorted (last_refill (rate g) # ts)"
  shows "of_nat (admitted_count ts g) \<le> tokens (rate g) +
    rate_per_second (rate g) * (of_nat (elapsed (last_refill (rate g)) ts) / 10 ^ 9) * (1 + eps) ^ 4 +
    of_nat (length ts) * (burst (rate g) * eps + tiny)"
  using assms
proof (induction ts arbitrary: g)
  case Nil
  then show ?case
    by (simp add: admitted_count_def elapsed_def gate_ok_def bucket_ok_def f64_rep_nonneg) 
next
  case (Cons t ts)
  let ?b = "rate g" and ?g = "snd (check_rate t g)"
  let ?k = "(1 + eps) ^ 4" and ?r = "rate_per_second (rate g)" and ?err = "burst (rate g) * eps + tiny"
  have ok: "bucket_ok ?b" using Cons.prems(1) by (simp add: gate_ok_def)
  have "gate_ok ?g" using Cons.prems(1) by (rule gate.check_wf)
  then have IH: "of_nat (admitted_count ts ?g) \<le> tokens (rate ?g) + ?r * (of_nat (elapsed t ts) / 10 ^ 9) * ?k +
      of_nat (length ts) * ?err"
    using Cons.IH [of ?g] Cons.prems by simp
  have "admitted_count (t # ts) g = of_bool (fst (check_rate t g)) + admitted_count ts ?g"
    by (simp add: admitted_count_def case_prod_unfold Let_def)
  moreover have "of_bool (fst (check_rate t g)) + tokens (rate ?g) = refilled t ?b"
    using check_bucket_tokens [OF ok, of t] by simp
  ultimately have "of_nat (admitted_count (t # ts) g) \<le> refilled t ?b + ?r * (of_nat (elapsed t ts) / 10 ^ 9) * ?k +
      of_nat (length ts) * ?err"
    using IH by simp
  also have "\<dots> \<le> tokens ?b + ?r * (of_nat (duration_since t (last_refill ?b)) / 10 ^ 9) * ?k + ?err +
      ?r * (of_nat (elapsed t ts) / 10 ^ 9) * ?k + of_nat (length ts) * ?err"
    using refilled_upper [OF ok Cons.prems(2), of t] by simp
  also have "\<dots> = tokens ?b + ?r * (of_nat (elapsed (last_refill ?b) (t # ts)) / 10 ^ 9) * ?k + of_nat (length (t # ts)) * ?err"
    unfolding elapsed_Cons [OF Cons.prems(3)] by (simp add: distrib_left distrib_right add_divide_distrib)
  finally show ?case .
qed

lemma error_small:
  assumes "1 \<le> b" and "n * b \<le> 2 ^ 50"
  shows "of_nat n * (of_nat b * eps + tiny) \<le> 1"
proof -
  have nb: "of_nat (n * b) \<le> (2 ^ 50 :: rat)" using assms(2) by (metis of_nat_le_iff of_nat_numeral of_nat_power)
  have "n \<le> n * b" using assms(1) by simp
  then have "(of_nat n :: rat) \<le> of_nat (n * b)" by (simp only: of_nat_le_iff)
  with nb have n: "of_nat n \<le> (2 ^ 50 :: rat)" by linarith
  have "tiny \<le> 2 powi (- 51)" unfolding tiny_def by (rule pow2_le_iff [THEN iffD2]) simp
  also have "\<dots> = 1 / 2 ^ 51" by (simp only: power_int_minus power_int_numeral inverse_eq_divide)
  finally have "of_nat n * tiny \<le> 2 ^ 50 * (1 / 2 ^ 51)" using n by (intro mult_mono) simp_all
  moreover have "of_nat (n * b) * eps \<le> 2 ^ 50 * (1 / 2 ^ 52)"
    using nb by (intro mult_mono) (simp_all add: eps_def)
  ultimately show ?thesis by (simp add: distrib_left mult.assoc)
qed

text \<open>
  The rate limit over time: from the moment the gate is made, however the checks are spread, it has
  admitted at any later moment at most the burst, the rate times the time that has passed, and one
  request more for all rounding errors together (with a relative error below \<open>2^-49\<close> of the
  refill). The bound is for up to \<open>2^50\<close> divided by the burst checks.
\<close>

lemma admitted_bound:
  assumes "1 \<le> rps" and "1 \<le> brst" and "length ts * brst \<le> 2 ^ 50" and "sorted (now # ts)"
  shows "of_nat (admitted_count ts (new_gate S now mx rps brst)) \<le>
    of_nat brst + rps * (of_nat (elapsed now ts) / 10 ^ 9) * (1 + 1 / 2 ^ 49) + 1"
proof (cases "ts = []")
  case True
  then show ?thesis by (cases now) (simp add: admitted_count_def elapsed_def)
next
  case False
  let ?g = "new_gate S now mx rps brst" and ?T = "of_nat (elapsed now ts) / 10 ^ 9 :: rat"
  have "1 \<le> length ts" using False by (cases ts) simp_all
  then have "brst \<le> length ts * brst" by simp
  then have "brst \<le> 2 ^ 50" using assms(3) by (rule order_trans)
  then have b: "brst \<le> 2 ^ 53" by simp
  then have g: "gate_ok ?g" "tokens (rate ?g) = of_nat brst" "burst (rate ?g) = of_nat brst"
      "last_refill (rate ?g) = now" "rate_per_second (rate ?g) = rps"
    using new_gate_ok [of rps brst S now mx] assms(1) by (simp_all add: gate_ok_def) (simp_all add: new_gate_def f64_of_nat_exact)
  have "of_nat (admitted_count ts ?g) \<le> of_nat brst + rps * ?T * (1 + eps) ^ 4 + of_nat (length ts) * (of_nat brst * eps + tiny)"
    using admitted_upper [OF g(1), of ts] g assms(1,4) by simp
  also have "rps * ?T * (1 + eps) ^ 4 \<le> rps * ?T * (1 + 1 / 2 ^ 49)"
    using assms(1) by (intro mult_left_mono) (simp_all add: eps_def power4_eq_xxxx)
  finally show ?thesis using error_small [OF assms(2,3)] by linarith
qed

end
