(* ===== verification/Load.thy ===== *)
theory Load
  imports Rate Process_Spec
begin

text \<open>
  The rate limiter in the histories of the server: the requests that pass it, counted over any
  interleaving with other requests and DNS messages, are bounded by the burst and the rate.
\<close>

subsection \<open>The checks of a history\<close>

fun check_times :: "('body srv_event \<times> reply option) list \<Rightarrow> instant list" where
  "check_times [] = []"
| "check_times ((Move i (CheckRate now), out) # tr) = now # check_times tr"
| "check_times (e # tr) = check_times tr"

text \<open>A request that is not answered in its rate check has passed it.\<close>

fun passed :: "'body srv_event \<times> reply option \<Rightarrow> bool" where
  "passed (Move i (CheckRate now), None) = True"
| "passed _ = False"

lemma check_times_append: "check_times (tr @ tr') = check_times tr @ check_times tr'"
  by (induction tr rule: check_times.induct) simp_all

lemma admissions_snoc:
  "fst (admissions (ts @ [t]) g) = fst (admissions ts g) @ [fst (check_bucket t (rate (snd (admissions ts g))))]"
  "rate (snd (admissions (ts @ [t]) g)) = snd (check_bucket t (rate (snd (admissions ts g))))"
  by (induction ts arbitrary: g) (simp_all add: case_prod_unfold Let_def)

lemma admitted_snoc: "admitted_count (ts @ [t]) g =
    admitted_count ts g + of_bool (fst (check_bucket t (rate (snd (admissions ts g)))))"
  by (simp add: admitted_count_def admissions_snoc)

lemma run_handler_gate: "run_handler H ho ep now later b s = Some (r, s') \<Longrightarrow> api_gate s' = api_gate s"
  by (cases ep; cases "validate_request b (api_config s)") (auto simp: present_def cleanup_def bind_eq_Some_conv)

lemma gate_rate [simp]:
  "rate (release_permit S g) = rate g"
  "try_acquire S g = Some g' \<Longrightarrow> rate g' = rate g"
  by (auto simp: release_permit_def try_acquire_def split: option.splits)

lemma task_step_rate:
  fixes req :: "'body http_request"
  assumes "can_move mv st" and "task_step H ho L ep req mv st s = Some (out, s')"
  obtains (other) "\<not> passed (Move i mv :: 'body srv_event, answer_of out)" "rate (api_gate s') = rate (api_gate s)"
  | (checked) now where "mv = CheckRate now" "rate (api_gate s') = snd (check_bucket now (rate (api_gate s)))"
      "passed (Move i mv :: 'body srv_event, answer_of out) \<longleftrightarrow> fst (check_bucket now (rate (api_gate s)))"
  using assms(1)
proof (cases rule: can_move_cases)
  case (check now)
  show thesis
  proof (cases "check_basic_auth L (headers req) (api_config s)")
    case (Inl e)
    with check assms(2) show thesis by (intro other) auto
  next
    case (Inr u)
    with check assms(2) show thesis by (intro checked) (auto simp: case_prod_unfold Let_def split: if_splits)
  qed
next
  case (operate now later b)
  with assms(2) have "api_gate s' = api_gate s" using run_handler_gate [of H ho ep now later b s] by auto
  with operate show thesis by (intro other) simp_all
qed (use assms(2) other in \<open>auto split: option.splits sum.splits if_splits\<close>)

lemma srv_run_rate:
  assumes "srv_run H ho L t0 s0 tr ops t s"
  shows "\<exists>ts. subseq ts (check_times tr) \<and>
    rate (sys_gate (srv_system s)) = rate (snd (admissions ts (sys_gate (srv_system s0)))) \<and>
    length (filter passed tr) = admitted_count ts (sys_gate (srv_system s0))"
  using assms
proof (induction rule: srv_run.induct)
  case srv_none
  then show ?case by (intro exI [of _ "[]"]) (simp add: admitted_count_def)
next
  case (srv_event tr ops t s ev t' out s')
  let ?g = "sys_gate (srv_system s0)" and ?tr = "tr @ [(ev, out)]"
  obtain ts where IH: "subseq ts (check_times tr)" "rate (sys_gate (srv_system s)) = rate (snd (admissions ts ?g))"
      "length (filter passed tr) = admitted_count ts ?g"
    using srv_event.IH by blast
  have sub: "subseq ts (check_times ?tr)"
    using IH(1) by (simp add: check_times_append list_emb_prefix)
  have idle: ?case if "\<not> passed (ev, out)" "rate (sys_gate (srv_system s')) = rate (sys_gate (srv_system s))"
    using that IH(2,3) sub by (intro exI [of _ ts]) simp
  show ?case
  proof (cases ev)
    case (Move i mv)
    then obtain k where k: "map_of (srv_tasks s) i = Some k" "can_move mv (task_stage k)"
      using srv_event.hyps(2) by (auto split: option.splits)
    then obtain o' a where a: "task_step H ho L (task_endpoint k) (task_request k) mv (task_stage k)
        (api_view (srv_system s)) = Some (o', a)" "sys_gate (srv_system s') = api_gate a" "out = answer_of o'"
      using srv_event.hyps(4) Move by auto
    from k(2) a(1) show ?thesis
    proof (cases rule: task_step_rate [where i = i])
      case other
      with idle a(2,3) Move show ?thesis by simp
    next
      case (checked now)
      have "subseq (ts @ [now]) (check_times ?tr)"
        using IH(1) Move checked(1) by (simp add: check_times_append)
      moreover have "length (filter passed ?tr) = admitted_count (ts @ [now]) ?g"
        using IH(2,3) checked(3) a(3) Move by (simp add: admitted_snoc)
      moreover have "rate (sys_gate (srv_system s')) = rate (snd (admissions (ts @ [now]) ?g))"
        using IH(2) checked(2) a(2) by (simp add: admissions_snoc)
      ultimately show ?thesis by blast
    qed
  qed (use idle srv_event.hyps(4) in auto)
qed

subsection \<open>The bound\<close>

lemma duration_since_mono: "a \<le> t \<Longrightarrow> t \<le> t' \<Longrightarrow> duration_since t a \<le> duration_since t' a"
  by (cases a; cases t; cases t') simp

lemma subseq_set: "subseq ts us \<Longrightarrow> x \<in> set ts \<Longrightarrow> x \<in> set us"
  by (induction rule: list_emb.induct) auto

lemma subseq_sorted: "subseq ts us \<Longrightarrow> sorted us \<Longrightarrow> sorted ts"
  by (induction rule: list_emb.induct) (auto dest: subseq_set)

lemma elapsed_subseq:
  assumes "subseq ts us" and "sorted (t # us)"
  shows "elapsed t ts \<le> elapsed t us"
proof (cases "ts = []")
  case True
  then show ?thesis by (cases t) (simp add: elapsed_def)
next
  case False
  then have "last ts \<in> set us" using subseq_set [OF assms(1)] by simp
  with assms(2) have "last ts \<le> last us" by (cases us rule: rev_cases) (auto simp: sorted_append)
  moreover have "us \<noteq> []" "t \<le> last ts" using \<open>last ts \<in> set us\<close> assms(2) by auto
  ultimately show ?thesis using False by (simp add: elapsed_def duration_since_mono)
qed

text \<open>
  C11. In any history of a started server, with requests overlapping in any way and DNS traffic between
  them, the number of requests that pass the rate limiter is at most the burst, twenty for every
  second since the start, and one more. Requests with wrong credentials are not counted and take
  nothing from the others.
\<close>

theorem requests_bounded_by_rate:
  assumes "clap_law C" and "startup H C (sem_lib L) args timestamp now = Some (Inr s0)"
    and "srv_run H ho L now (serving s0) tr ops t s"
    and "sorted (now # check_times tr)"
    and "length (check_times tr) * max 100 (2 * max_tokens (sys_config s0)) \<le> 2 ^ 50"
  shows "of_nat (length (filter passed tr)) \<le> of_nat (max 100 (2 * max_tokens (sys_config s0))) +
    20 * (of_nat (elapsed now (check_times tr)) / 10 ^ 9) * (1 + 1 / 2 ^ 49) + (1 :: rat)"
proof -
  let ?b = "max 100 (2 * max_tokens (sys_config s0))" and ?us = "check_times tr"
  have "valid_config H (sys_config s0)" using startup_ok(1) [OF assms(1,2)] by (simp add: sys_ok_def)
  then have m: "max_tokens (sys_config s0) \<le> 2 ^ 52" using valid_config_tokens [of H "sys_config s0"] by simp
  obtain ar where "sys_gate s0 = api_gate (router (sem_lib L) now (sys_config s0) (ar :: 'a acme_records))"
    using startup_ok(2) [OF assms(1,2)] by blast
  then have g: "sys_gate s0 = new_gate (sem_lib L) now 64 20 ?b"
    by (simp add: router_burst [OF m] MAX_CONCURRENT_REQUESTS_def REQUEST_RATE_PER_SECOND_def)
  obtain ts where ts: "subseq ts ?us" "length (filter passed tr) = admitted_count ts (sys_gate s0)"
    using srv_run_rate [OF assms(3)] by (auto simp: serving_def)
  have "length ts * ?b \<le> length ?us * ?b" by (rule mult_right_mono [OF list_emb_length [OF ts(1)]]) simp
  then have len: "length ts * ?b \<le> 2 ^ 50" using assms(5) by (rule order_trans)
  have "subseq (now # ts) (now # ?us)" using ts(1) by simp
  then have sorted: "sorted (now # ts)" using assms(4) by (rule subseq_sorted)
  have "of_nat (admitted_count ts (sys_gate s0)) \<le>
      of_nat ?b + 20 * (of_nat (elapsed now ts) / 10 ^ 9) * (1 + 1 / 2 ^ 49) + (1 :: rat)"
    unfolding g by (rule admitted_bound [OF _ _ len sorted]) simp_all
  moreover have "(of_nat (elapsed now ts) :: rat) \<le> of_nat (elapsed now ?us)"
    using elapsed_subseq [OF ts(1) assms(4)] by simp
  then have "20 * (of_nat (elapsed now ts) / 10 ^ 9) * (1 + 1 / 2 ^ 49) \<le>
      20 * (of_nat (elapsed now ?us) / 10 ^ 9) * (1 + 1 / 2 ^ 49 :: rat)"
    by (intro mult_right_mono mult_left_mono divide_right_mono) simp_all
  ultimately show ?thesis using ts(2) by linarith
qed

end
