(* ===== verification/Unit_Tests.thy ===== *)
theory Unit_Tests
  imports Store_Run
begin

text \<open>
  The unit tests of \<open>src/xip.rs\<close>, \<open>src/config.rs\<close>, \<open>src/wire.rs\<close> and \<open>src/state.rs\<close>, run on the
  model. A test is a value of type \<open>unit option\<close>; \<open>None\<close> is a failed assertion or a panic. The
  tests are stated for any DNS library and any clock for which the source expects them to pass:
  what a test takes for granted of either is a hypothesis of its lemma.
\<close>

subsection \<open>Assertions\<close>

definition assert_that :: "bool \<Rightarrow> unit option" where
  "assert_that b = (if b then Some () else None)"

definition unwrap :: "'e + 'a \<Rightarrow> 'a option" where
  "unwrap r = (case r of Inl e \<Rightarrow> None | Inr x \<Rightarrow> Some x)"

definition is_err :: "'e + 'a \<Rightarrow> bool" where
  "is_err r = (case r of Inl e \<Rightarrow> True | Inr x \<Rightarrow> False)"

lemma assert_that_iff [simp]: "assert_that b = Some () \<longleftrightarrow> b"
  by (simp add: assert_that_def)

lemma unwrap_simps [simp]: "unwrap (Inl e) = None" "unwrap (Inr x) = Some x"
  and is_err_simps [simp]: "is_err (Inl e)" "\<not> is_err (Inr x)"
  by (simp_all add: unwrap_def is_err_def)

lemma assert_bind [simp]: "Option.bind (assert_that b) f = (if b then f () else None)"
  by (simp add: assert_that_def)

subsection \<open>Names\<close>

definition domain_matching_respects_label_boundaries_and_case :: "unit option" where
  "domain_matching_respects_label_boundaries_and_case = do {
     assert_that (is_our_domain ''XIP.TEST'' ''xip.test'');
     assert_that (is_our_domain ''host.XIP.TEST'' ''xip.test'');
     assert_that (\<not> is_our_domain ''notxip.test'' ''xip.test'');
     assert_that (\<not> is_our_domain ''xip.test.example'' ''xip.test'')
   }"

definition parses_valid_ipv4_octets :: "unit option" where
  "parses_valid_ipv4_octets =
     assert_that (parse_xip_ip ''service-192-0-2-10.xip.test'' ''xip.test'' = Some (Ipv4 192 0 2 10))"

definition rejects_invalid_or_out_of_zone_octets :: "unit option" where
  "rejects_invalid_or_out_of_zone_octets = do {
     assert_that (parse_xip_ip ''256-0-0-1.xip.test'' ''xip.test'' = None);
     assert_that (parse_xip_ip ''127-0-0.xip.test'' ''xip.test'' = None);
     assert_that (parse_xip_ip ''127-0-0-1.other.test'' ''xip.test'' = None)
   }"


lemma parse_xip_ip_scan:
  assumes "strip_suffix (to_lowercase h) (''.'' @ to_lowercase d) = Some p" and "split_char CHR ''-'' p = parts"
  shows "parse_xip_ip h d = (if length parts < 4 then None else scan_windows parts (length parts - 4))"
  using assms by (simp add: parse_xip_ip_def Let_def)

lemma parse_xip_ip_outside: "strip_suffix (to_lowercase h) (''.'' @ to_lowercase d) = None \<Longrightarrow> parse_xip_ip h d = None"
  by (simp add: parse_xip_ip_def Let_def)

lemma xip_service:
  "strip_suffix (to_lowercase ''service-192-0-2-10.xip.test'') (''.'' @ to_lowercase ''xip.test'') = Some ''service-192-0-2-10''"
  "split_char CHR ''-'' ''service-192-0-2-10'' = [''service'', ''192'', ''0'', ''2'', ''10'']"
  by code_simp+

lemma xip_256:
  "strip_suffix (to_lowercase ''256-0-0-1.xip.test'') (''.'' @ to_lowercase ''xip.test'') = Some ''256-0-0-1''"
  "split_char CHR ''-'' ''256-0-0-1'' = [''256'', ''0'', ''0'', ''1'']"
  by code_simp+

lemma xip_short:
  "strip_suffix (to_lowercase ''127-0-0.xip.test'') (''.'' @ to_lowercase ''xip.test'') = Some ''127-0-0''"
  "split_char CHR ''-'' ''127-0-0'' = [''127'', ''0'', ''0'']"
  by code_simp+

lemma xip_other: "strip_suffix (to_lowercase ''127-0-0-1.other.test'') (''.'' @ to_lowercase ''xip.test'') = None"
  by code_simp

lemmas octet_eval = window_def parse_octets_def parse_uint_def to_digit_def ipv4_from_def

lemma xip_tests_pass:
  "domain_matching_respects_label_boundaries_and_case = Some ()"
  "parses_valid_ipv4_octets = Some ()"
  "rejects_invalid_or_out_of_zone_octets = Some ()"
proof -
  show "domain_matching_respects_label_boundaries_and_case = Some ()" by code_simp
  show "parses_valid_ipv4_octets = Some ()"
    by (simp add: parses_valid_ipv4_octets_def parse_xip_ip_scan [OF xip_service] octet_eval)
  show "rejects_invalid_or_out_of_zone_octets = Some ()"
    by (simp add: rejects_invalid_or_out_of_zone_octets_def parse_xip_ip_scan [OF xip_256]
        parse_xip_ip_scan [OF xip_short] parse_xip_ip_outside [OF xip_other] octet_eval)
qed

subsection \<open>Configuration\<close>

definition test_config :: config where
  "test_config =
     \<lparr>domain = ''xip.test'', ns_hostname = ''ns1.xip.test'', ns_hostname2 = ''ns2.xip.test'',
      dns_bind = V4 (Ipv4 0 0 0 0), dns_port = 53, api_bind = V4 (Ipv4 127 0 0 1), api_port = 8080,
      ns_ip = Ipv4 127 0 0 1, api_key = ''0123456789abcdef0123456789abcdef'', txt_ttl = 60,
      default_ttl = 60, token_lifetime_secs = 600, max_tokens = 100\<rparr>"

definition normalizes_dns_names :: "'nm hickory \<Rightarrow> unit option" where
  "normalizes_dns_names H = do {
     n \<leftarrow> unwrap (parse_dns_name H ''XIP.Example.COM.'');
     assert_that (n = ''xip.example.com'')
   }"

definition rejects_invalid_dns_names :: "'nm hickory \<Rightarrow> unit option" where
  "rejects_invalid_dns_names H = do {
     assert_that (is_err (parse_dns_name H []));
     assert_that (is_err (parse_dns_name H ''bad name.example''))
   }"

definition rejects_empty_and_short_api_keys :: "unit option" where
  "rejects_empty_and_short_api_keys = do {
     assert_that (is_err (parse_api_key []));
     assert_that (is_err (parse_api_key ''too-short''));
     assert_that (\<not> is_err (parse_api_key (replicate MIN_API_KEY_LEN CHR ''x'')))
   }"

definition requires_distinct_in_zone_nameservers :: "'nm hickory \<Rightarrow> unit option" where
  "requires_distinct_in_zone_nameservers H = do {
     let c = test_config;
     let c = c\<lparr>ns_hostname2 := ns_hostname c\<rparr>;
     r \<leftarrow> validate H c;
     assert_that (is_err r);
     let c = c\<lparr>ns_hostname2 := ''ns.other.test''\<rparr>;
     r \<leftarrow> validate H c;
     assert_that (is_err r)
   }"

definition rejects_token_limit_above_the_zone_wire_maximum :: "'nm hickory \<Rightarrow> unit option" where
  "rejects_token_limit_above_the_zone_wire_maximum H = do {
     let c = test_config;
     cap \<leftarrow> from_config H c;
     wire_max \<leftarrow> maximum_token_count H cap;
     let c = c\<lparr>max_tokens := wire_max\<rparr>;
     r \<leftarrow> validate H c;
     assert_that (\<not> is_err r);
     let c = c\<lparr>max_tokens := wire_max + 1\<rparr>;
     r \<leftarrow> validate H c;
     assert_that (r = Inl (''token limit must be between 1 and '' @ show_nat wire_max @ '' for the configured DNS names''))
   }"

lemma from_config_limit: "from_config H (c\<lparr>max_tokens := n\<rparr>) = from_config H c"
  by (simp add: from_config_def acme_name_def)

lemma test_config_sel [simp]:
  "domain test_config = ''xip.test''" "ns_hostname test_config = ''ns1.xip.test''"
  "ns_hostname2 test_config = ''ns2.xip.test''"
  by (simp_all add: test_config_def)

lemma config_tests_pass:
  "is_ok (from_ascii H ''xip.example.com'') \<Longrightarrow> normalizes_dns_names H = Some ()"
  "\<not> is_ok (from_ascii H ''bad name.example'') \<Longrightarrow> rejects_invalid_dns_names H = Some ()"
  "rejects_empty_and_short_api_keys = Some ()"
  "requires_distinct_in_zone_nameservers H = Some ()"
proof -
  have "to_ascii_lowercase (trim_end_matches CHR ''.'' ''XIP.Example.COM.'') = ''xip.example.com''" by code_simp
  then show "is_ok (from_ascii H ''xip.example.com'') \<Longrightarrow> normalizes_dns_names H = Some ()"
    by (auto simp: normalizes_dns_names_def parse_dns_name_def Let_def is_ok_iff)
  have "to_ascii_lowercase (trim_end_matches CHR ''.'' ''bad name.example'') = ''bad name.example''" by code_simp
  moreover have "parse_dns_name H [] = Inl ''DNS name must not be empty or the root zone''"
    by (simp add: parse_dns_name_def trim_end_matches_def to_ascii_lowercase_def)
  ultimately show "\<not> is_ok (from_ascii H ''bad name.example'') \<Longrightarrow> rejects_invalid_dns_names H = Some ()"
    by (auto simp: rejects_invalid_dns_names_def parse_dns_name_def Let_def is_ok_iff split: sum.split)
  show "rejects_empty_and_short_api_keys = Some ()"
    by (simp add: rejects_empty_and_short_api_keys_def parse_api_key_def MIN_API_KEY_LEN_def)
  show "requires_distinct_in_zone_nameservers H = Some ()"
    by (simp add: requires_distinct_in_zone_nameservers_def validate_def ends_with_def)
qed

lemma token_limit_test_passes:
  assumes "from_config H test_config = Some cap" and "soa_ok H (cap_zone cap)"
    and "is_ok (from_ascii H ''admin.xip.test'')"
  shows "rejects_token_limit_above_the_zone_wire_maximum H = Some ()"
proof -
  obtain m where m: "maximum_token_count H cap = Some m" using maximum_token_count_total [OF assms(2)] by blast
  have "is_ok (from_ascii H (acme_name test_config))"
    using assms(1) by (simp add: from_config_eq_Some is_ok_iff)
  then have "check_derived H [acme_name test_config, ''admin.'' @ domain test_config] = Inr ()"
    using assms(3) unfolding check_derived_ok by simp
  moreover have "check_nameservers (domain test_config) [ns_hostname test_config, ns_hostname2 test_config] = Inr ()"
    unfolding check_nameservers_ok by (simp add: ends_with_def)
  ultimately have v: "validate H (test_config\<lparr>max_tokens := n\<rparr>) = Some
      (if n > m then Inl (''token limit must be between 1 and '' @ show_nat m @ '' for the configured DNS names'')
       else Inr ())" for n
    using assms(1) m by (simp add: validate_def from_config_limit acme_name_def)
  show ?thesis by (simp add: rejects_token_limit_above_the_zone_wire_maximum_def assms(1) m v)
qed

subsection \<open>Values of the greatest length\<close>

text \<open>\<open>format!("{:04}{}", index, "x".repeat(251))\<close>.\<close>

definition filler :: "nat \<Rightarrow> string" where
  "filler i = replicate (4 - length (show_nat i)) CHR ''0'' @ show_nat i @ replicate 251 CHR ''x''"

definition fillers :: "nat \<Rightarrow> string list" where
  "fillers n = map filler [0..<n]"

lemma parse_digits_zeros: "parse_digits mx 0 (replicate k CHR ''0'' @ s) = parse_digits mx 0 s"
  by (induction k) (simp_all add: to_digit_def)

lemma filler_inj: "filler i = filler j \<longleftrightarrow> i = j"
proof
  assume "filler i = filler j"
  then have "replicate (4 - length (show_nat i)) CHR ''0'' @ show_nat i =
      replicate (4 - length (show_nat j)) CHR ''0'' @ show_nat j"
    unfolding filler_def append_assoc [symmetric] by simp
  then have "parse_digits (max i j) 0 (show_nat i) = parse_digits (max i j) 0 (show_nat j)"
    by (metis parse_digits_zeros)
  then show "i = j" by (simp add: parse_digits_show_nat)
qed simp

lemma fillers_simps [simp]: "fillers 0 = []" "fillers (Suc n) = fillers n @ [filler n]" "length (fillers n) = n"
  by (simp_all add: fillers_def)

lemma filler_in_fillers: "filler i \<in> set (fillers n) \<longleftrightarrow> i < n"
  by (auto simp: fillers_def filler_inj)

subsection \<open>Wire capacity\<close>

definition local_config :: config where
  "local_config = test_config\<lparr>dns_bind := V4 (Ipv4 127 0 0 1)\<rparr>"

text \<open>The loop that adds values while they fit.\<close>

partial_function (option) fill :: "'nm hickory \<Rightarrow> 'nm acme_wire_capacity \<Rightarrow> string list \<Rightarrow> string list option" where
  "fill H cap values = do {
     b \<leftarrow> fits H cap values;
     if b then fill H cap (values @ [filler (length values)]) else Some values
   }"

definition includes_record_and_message_overhead_at_the_boundary :: "'nm hickory \<Rightarrow> unit option" where
  "includes_record_and_message_overhead_at_the_boundary H = do {
     capacity \<leftarrow> from_config H local_config;
     values \<leftarrow> fill H capacity [];
     rejected \<leftarrow> (if values = [] then None else Some (last values));
     let values = butlast values;
     b \<leftarrow> fits H capacity values;
     assert_that b;
     let values = values @ [rejected];
     b \<leftarrow> fits H capacity values;
     assert_that (\<not> b)
   }"

text \<open>What the tests take for granted: the values of a message of at most 65535 bytes are finitely many.\<close>

definition first_overflow :: "'nm hickory \<Rightarrow> 'nm acme_wire_capacity \<Rightarrow> nat \<Rightarrow> bool" where
  "first_overflow H cap n \<longleftrightarrow> (\<forall>k<n. fits H cap (fillers k) = Some True) \<and> fits H cap (fillers n) = Some False"

lemma fill_overflow:
  assumes "first_overflow H cap n" and "k \<le> n"
  shows "fill H cap (fillers k) = Some (fillers n)"
  using assms(2)
proof (induction "n - k" arbitrary: k)
  case 0
  with assms(1) show ?case by (subst fill.simps) (simp add: first_overflow_def)
next
  case (Suc d)
  then have "fill H cap (fillers (Suc k)) = Some (fillers n)" by (intro Suc.hyps) simp_all
  moreover have "fits H cap (fillers k) = Some True" using assms(1) Suc.hyps(2) by (simp add: first_overflow_def)
  ultimately show ?case by (subst fill.simps) simp
qed

lemma wire_test_passes:
  assumes "from_config H local_config = Some cap" and "first_overflow H cap (Suc n)"
  shows "includes_record_and_message_overhead_at_the_boundary H = Some ()"
proof -
  have "fill H cap (fillers 0) = Some (fillers (Suc n))" by (rule fill_overflow [OF assms(2)]) simp
  then show ?thesis
    using assms by (simp add: includes_record_and_message_overhead_at_the_boundary_def first_overflow_def)
qed

end
