(* ===== verification/Store_Tests.thy ===== *)
theory Store_Tests
  imports Unit_Tests
begin

text \<open>
  The unit tests of \<open>src/state.rs\<close> on the model. \<open>c i\<close> is the clock at operation \<open>i\<close> of a test;
  the tests that do not sleep pass when all their readings are within the lifetime of a token.
\<close>

subsection \<open>Operations as the tests use them\<close>

definition test_capacity :: "'nm hickory \<Rightarrow> 'nm acme_wire_capacity option" where
  "test_capacity H = from_config H local_config"

definition test_records :: "'nm hickory \<Rightarrow> int \<Rightarrow> duration \<Rightarrow> nat \<Rightarrow> 'nm acme_records option" where
  "test_records H timestamp life mx = do {
     capacity \<leftarrow> test_capacity H;
     Some (new_records timestamp life mx capacity)
   }"

definition test_records_with_serial :: "'nm hickory \<Rightarrow> duration \<Rightarrow> nat \<Rightarrow> u32 \<Rightarrow> 'nm acme_records option" where
  "test_records_with_serial H life mx ser = do {
     capacity \<leftarrow> test_capacity H;
     Some (with_serial life mx capacity ser)
   }"

text \<open>\<open>add(..).await.unwrap()\<close>, an \<open>add\<close> that is expected to fail, and \<open>get\<close>.\<close>

definition must_add :: "'nm hickory \<Rightarrow> (zone_records \<Rightarrow> zone_records) \<Rightarrow> instant \<Rightarrow> string \<Rightarrow> string \<Rightarrow>
    'nm acme_records \<Rightarrow> 'nm acme_records option" where
  "must_add H ho now n v ar = do {
     (r, ar) \<leftarrow> add H ho now now n v ar;
     u \<leftarrow> unwrap r;
     Some ar
   }"

definition refused_add :: "'nm hickory \<Rightarrow> (zone_records \<Rightarrow> zone_records) \<Rightarrow> instant \<Rightarrow> string \<Rightarrow> string \<Rightarrow>
    add_error \<Rightarrow> 'nm acme_records \<Rightarrow> 'nm acme_records option" where
  "refused_add H ho now n v error ar = do {
     (r, ar) \<leftarrow> add H ho now now n v ar;
     assert_that (r = Inl error);
     Some ar
   }"

definition get_values :: "instant \<Rightarrow> string \<Rightarrow> 'nm acme_records \<Rightarrow> string list \<times> 'nm acme_records" where
  "get_values now n ar = (let ((values, ser), ar) = get_with_serial now n ar in (values, ar))"

definition expect_serial :: "instant \<Rightarrow> u32 \<Rightarrow> 'nm acme_records \<Rightarrow> 'nm acme_records option" where
  "expect_serial now ser ar =
     (let (s, ar) = read_serial now ar in do { assert_that (s = ser); Some ar })"

subsection \<open>The tests\<close>

definition deduplicates_and_refreshes_tokens ::
    "'nm hickory \<Rightarrow> (zone_records \<Rightarrow> zone_records) \<Rightarrow> int \<Rightarrow> (nat \<Rightarrow> instant) \<Rightarrow> unit option" where
  "deduplicates_and_refreshes_tokens H ho timestamp c = do {
     ar \<leftarrow> test_records H timestamp (duration_from_secs 60) 1;
     ar \<leftarrow> must_add H ho (c 0) ''name'' ''value'' ar;
     ar \<leftarrow> must_add H ho (c 1) ''name'' ''value'' ar;
     assert_that (fst (get_values (c 2) ''name'' ar) = [''value''])
   }"

definition enforces_capacity ::
    "'nm hickory \<Rightarrow> (zone_records \<Rightarrow> zone_records) \<Rightarrow> int \<Rightarrow> (nat \<Rightarrow> instant) \<Rightarrow> unit option" where
  "enforces_capacity H ho timestamp c = do {
     ar \<leftarrow> test_records H timestamp (duration_from_secs 60) 1;
     ar \<leftarrow> must_add H ho (c 0) ''name'' ''one'' ar;
     ar \<leftarrow> refused_add H ho (c 1) ''name'' ''two'' TokenLimitReached ar;
     Some ()
   }"

definition expires_tokens ::
    "'nm hickory \<Rightarrow> (zone_records \<Rightarrow> zone_records) \<Rightarrow> int \<Rightarrow> (nat \<Rightarrow> instant) \<Rightarrow> unit option" where
  "expires_tokens H ho timestamp c = do {
     ar \<leftarrow> test_records H timestamp 10000000 1;
     ar \<leftarrow> must_add H ho (c 0) ''name'' ''value'' ar;
     assert_that (fst (get_values (c 1) ''name'' ar) = [])
   }"

definition serial_tracks_effective_rrset_changes_only ::
    "'nm hickory \<Rightarrow> (zone_records \<Rightarrow> zone_records) \<Rightarrow> (nat \<Rightarrow> instant) \<Rightarrow> unit option" where
  "serial_tracks_effective_rrset_changes_only H ho c = do {
     ar \<leftarrow> test_records_with_serial H (duration_from_secs 60) 1 100;
     ar \<leftarrow> expect_serial (c 0) 100 ar;
     ar \<leftarrow> expect_serial (c 1) 100 ar;
     ar \<leftarrow> must_add H ho (c 2) ''name'' ''value'' ar;
     ar \<leftarrow> expect_serial (c 3) 101 ar;
     ar \<leftarrow> must_add H ho (c 4) ''name'' ''value'' ar;
     ar \<leftarrow> expect_serial (c 5) 101 ar;
     ar \<leftarrow> refused_add H ho (c 6) ''name'' ''other'' TokenLimitReached ar;
     ar \<leftarrow> expect_serial (c 7) 101 ar;
     let ar = remove (c 8) ''name'' ''missing'' ar;
     ar \<leftarrow> expect_serial (c 9) 101 ar;
     let ar = remove (c 10) ''name'' ''value'' ar;
     ar \<leftarrow> expect_serial (c 11) 102 ar;
     Some ()
   }"

definition serial_advances_once_when_expired_records_are_pruned ::
    "'nm hickory \<Rightarrow> (zone_records \<Rightarrow> zone_records) \<Rightarrow> (nat \<Rightarrow> instant) \<Rightarrow> unit option" where
  "serial_advances_once_when_expired_records_are_pruned H ho c = do {
     ar \<leftarrow> test_records_with_serial H 10000000 2 (- 1 - 1);
     ar \<leftarrow> must_add H ho (c 0) ''name'' ''one'' ar;
     ar \<leftarrow> must_add H ho (c 1) ''name'' ''two'' ar;
     ar \<leftarrow> expect_serial (c 2) 0 ar;
     let ((values, ser), ar) = get_with_serial (c 3) ''name'' ar;
     assert_that (values = []);
     assert_that (ser = 1);
     ar \<leftarrow> expect_serial (c 4) 1 ar;
     Some ()
   }"

subsection \<open>They pass\<close>

lemmas test_eval = must_add_def refused_add_def get_values_def expect_serial_def test_records_def
  test_records_with_serial_def new_records_def with_serial_def add_def remove_def remove_value_def read_serial_def
  get_with_serial_def refresh_zone_def prune_def retain_live_def token_count_def set_zone_def tokens_of_def
  all_values_def advance_serial_def

lemma fair_order_small: "fair_order ho \<Longrightarrow> ho [] = []" "fair_order ho \<Longrightarrow> ho [x] = [x]"
  unfolding fair_order_def by (metis mset_zero_iff, metis mset_single_iff_right mset.simps)

text \<open>A store with tokens under one name, and the operations on it while they are live.\<close>

definition one_name_store :: "duration \<Rightarrow> nat \<Rightarrow> 'nm acme_wire_capacity \<Rightarrow> string \<Rightarrow> token list \<Rightarrow> u32 \<Rightarrow> 'nm acme_records" where
  "one_name_store life mx cap n ts ser =
     \<lparr>state = \<lparr>records = (if ts = [] then [] else [(n, ts)]), serial = ser\<rparr>,
      lifetime = life, ar_max_tokens = mx, wire_capacity = cap\<rparr>"

lemma start_store:
  "test_capacity H = Some cap \<Longrightarrow>
     test_records H timestamp life mx = Some (one_name_store life mx cap n [] (word_of_int timestamp))"
  "test_capacity H = Some cap \<Longrightarrow>
     test_records_with_serial H life mx ser = Some (one_name_store life mx cap n [] ser)"
  by (simp_all add: one_name_store_def test_eval)

lemma serial_live:
  "\<forall>t\<in>set ts. now < expires_at t \<Longrightarrow> expect_serial now s (one_name_store life mx cap n ts ser) =
     (if s = ser then Some (one_name_store life mx cap n ts ser) else None)"
  by (simp add: one_name_store_def test_eval)

lemma get_one:
  "now < expires_at t \<Longrightarrow> fst (get_values now n (one_name_store life mx cap n [t] ser)) = [token_value t]"
  by (simp add: one_name_store_def test_eval)

lemma add_first:
  "fair_order ho \<Longrightarrow> fits H cap [v] = Some True \<Longrightarrow> 0 < mx \<Longrightarrow> must_add H ho now n v (one_name_store life mx cap n [] ser) =
     Some (one_name_store life mx cap n [\<lparr>token_value = v, expires_at = plus_duration now life\<rparr>] (ser + 1))"
  by (simp add: one_name_store_def test_eval fair_order_small)

lemma add_same:
  "now < e \<Longrightarrow> must_add H ho now n v (one_name_store life mx cap n [\<lparr>token_value = v, expires_at = e\<rparr>] ser) =
     Some (one_name_store life mx cap n [\<lparr>token_value = v, expires_at = plus_duration now life\<rparr>] ser)"
  by (simp add: one_name_store_def test_eval)

lemma add_refused:
  "now < e \<Longrightarrow> v \<noteq> w \<Longrightarrow> refused_add H ho now n w TokenLimitReached
       (one_name_store life (Suc 0) cap n [\<lparr>token_value = v, expires_at = e\<rparr>] ser) =
     Some (one_name_store life (Suc 0) cap n [\<lparr>token_value = v, expires_at = e\<rparr>] ser)"
  by (simp add: one_name_store_def test_eval)

lemma remove_one:
  "now < e \<Longrightarrow> remove now n w (one_name_store life mx cap n [\<lparr>token_value = v, expires_at = e\<rparr>] ser) =
     (if v = w then one_name_store life mx cap n [] (ser + 1)
      else one_name_store life mx cap n [\<lparr>token_value = v, expires_at = e\<rparr>] ser)"
  by (simp add: one_name_store_def test_eval)

lemmas one_name_eval = start_store [where n = "''name''"] serial_live get_one add_first add_same add_refused remove_one

lemma state_tests_pass:
  assumes cap: "test_capacity H = Some cap" and fits: "\<And>v. length v \<le> 5 \<Longrightarrow> fits H cap [v] = Some True"
    and order: "fair_order ho" and live: "\<And>i j. c i < plus_duration (c j) (duration_from_secs 60)"
  shows "deduplicates_and_refreshes_tokens H ho timestamp c = Some ()"
    "enforces_capacity H ho timestamp c = Some ()"
    "serial_tracks_effective_rrset_changes_only H ho c = Some ()"
  by (simp_all add: deduplicates_and_refreshes_tokens_def enforces_capacity_def
      serial_tracks_effective_rrset_changes_only_def one_name_eval cap fits order live)

lemma expiry_tests_pass:
  assumes cap: "test_capacity H = Some cap" and fits: "\<And>vs. length vs \<le> 2 \<Longrightarrow> \<forall>v\<in>set vs. length v \<le> 5 \<Longrightarrow> fits H cap vs = Some True"
    and order: "fair_order ho"
  shows "c 1 \<ge> plus_duration (c 0) 20000000 \<Longrightarrow> expires_tokens H ho timestamp c = Some ()"
    and "c 0 \<le> c 1 \<Longrightarrow> c 1 \<le> c 2 \<Longrightarrow> c 2 < plus_duration (c 0) 10000000 \<Longrightarrow>
      plus_duration (c 2) 20000000 \<le> c 3 \<Longrightarrow>
      serial_advances_once_when_expired_records_are_pruned H ho c = Some ()"
proof -
  note ho = fair_order_small [OF order]
  {
    assume "c 1 \<ge> plus_duration (c 0) 20000000"
    then have "\<not> c 1 < plus_duration (c 0) 10000000" by (cases "c 0"; cases "c 1") simp
    then show "expires_tokens H ho timestamp c = Some ()"
      by (simp add: expires_tokens_def test_eval cap ho fits)
  next
    assume t: "c 0 \<le> c 1" "c 1 \<le> c 2" "c 2 < plus_duration (c 0) 10000000" "plus_duration (c 2) 20000000 \<le> c 3"
    have "c 1 < plus_duration (c 0) 10000000" "c 2 < plus_duration (c 1) 10000000"
      "\<not> c 3 < plus_duration (c 0) 10000000" "\<not> c 3 < plus_duration (c 1) 10000000"
      using t by (cases "c 0"; cases "c 1"; cases "c 2"; cases "c 3"; simp)+
    then show "serial_advances_once_when_expired_records_are_pruned H ho c = Some ()"
      using t(3) by (simp add: serial_advances_once_when_expired_records_are_pruned_def test_eval cap ho fits)
  }
qed

subsection \<open>Filling the store\<close>

text \<open>The loop that adds values until one is refused.\<close>

partial_function (option) fill_store :: "'nm hickory \<Rightarrow> (zone_records \<Rightarrow> zone_records) \<Rightarrow> (nat \<Rightarrow> instant) \<Rightarrow>
    string \<Rightarrow> string list \<Rightarrow> 'nm acme_records \<Rightarrow> (string list \<times> 'nm acme_records) option" where
  "fill_store H ho c n accept ar = do {
     let value = filler (length accept);
     (r, ar) \<leftarrow> add H ho (c (length accept)) (c (length accept)) n value ar;
     if r = Inr () then fill_store H ho c n (accept @ [value]) ar
     else if r = Inl DnsWireCapacityReached then Some (accept, ar) else None
   }"

definition rejects_wire_overflow_without_changing_existing_records ::
    "'nm hickory \<Rightarrow> (zone_records \<Rightarrow> zone_records) \<Rightarrow> int \<Rightarrow> (nat \<Rightarrow> instant) \<Rightarrow> instant \<Rightarrow> unit option" where
  "rejects_wire_overflow_without_changing_existing_records H ho timestamp c now = do {
     ar \<leftarrow> test_records H timestamp (duration_from_secs 60) 18446744073709551615;
     let name = ''_acme-challenge.xip.test'';
     (accept, ar) \<leftarrow> fill_store H ho c name [] ar;
     assert_that (accept \<noteq> []);
     assert_that (fst (get_values now name ar) = accept)
   }"

text \<open>\<open>order\<close> is the order in which the tasks take the lock; they ignore what \<open>add\<close> returns.\<close>

fun add_each :: "'nm hickory \<Rightarrow> (zone_records \<Rightarrow> zone_records) \<Rightarrow> (nat \<Rightarrow> instant) \<Rightarrow> string \<Rightarrow> nat list \<Rightarrow>
    'nm acme_records \<Rightarrow> 'nm acme_records option" where
  "add_each H ho c n [] ar = Some ar"
| "add_each H ho c n (index # order) ar = do {
     (r, ar) \<leftarrow> add H ho (c index) (c index) n (filler index) ar;
     add_each H ho c n order ar
   }"

definition concurrent_additions_cannot_exceed_wire_capacity ::
    "'nm hickory \<Rightarrow> (zone_records \<Rightarrow> zone_records) \<Rightarrow> int \<Rightarrow> (nat \<Rightarrow> instant) \<Rightarrow> nat list \<Rightarrow> instant \<Rightarrow> unit option" where
  "concurrent_additions_cannot_exceed_wire_capacity H ho timestamp c order now = do {
     ar \<leftarrow> test_records H timestamp (duration_from_secs 60) 18446744073709551615;
     ar \<leftarrow> add_each H ho c ''_acme-challenge.xip.test'' order ar;
     let (values, ar) = get_values now ''_acme-challenge.xip.test'' ar;
     capacity \<leftarrow> test_capacity H;
     b \<leftarrow> fits H capacity values;
     assert_that b;
     let overflow = values @ [replicate 255 CHR ''z''];
     b \<leftarrow> fits H capacity overflow;
     assert_that (\<not> b)
   }"

subsection \<open>A store under one name whose tokens are all live\<close>

definition holds :: "string \<Rightarrow> token list \<Rightarrow> 'nm acme_records \<Rightarrow> bool" where
  "holds n ts ar \<longleftrightarrow> records (state ar) = (if ts = [] then [] else [(n, ts)])"

lemma holds_live:
  assumes "holds n ts ar" and "\<forall>t\<in>set ts. now < expires_at t"
  shows "prune now (records (state ar)) = (records (state ar), False)"
    and "tokens_of (records (state ar)) n = ts"
    and "token_count (records (state ar)) = length ts"
    and "fair_order ho \<Longrightarrow> all_values (ho (records (state ar))) = map token_value ts"
  using assms fair_order_small [of ho]
  by (auto simp: holds_def prune_def retain_live_def token_count_def tokens_of_def all_values_def)

lemma set_zone_same: "set_zone (records (state ar)) False ar = ar"
  by (simp add: set_zone_def)

lemma refresh_absent: "v \<notin> token_value ` set ts \<Longrightarrow> refresh v e ts = None"
  by (induction ts) auto

lemma add_live:
  assumes "holds n ts ar" and "\<forall>t\<in>set ts. now < expires_at t" and "v \<notin> token_value ` set ts"
    and "fair_order ho" and "length ts < ar_max_tokens ar"
  shows "add H ho now later n v ar = map_option (\<lambda>b. if b
      then (Inr (), set_zone [(n, ts @ [\<lparr>token_value = v, expires_at = plus_duration later (lifetime ar)\<rparr>])] True ar)
      else (Inl DnsWireCapacityReached, ar)) (fits H (wire_capacity ar) (map token_value ts @ [v]))"
proof -
  have "Option.bind (map_of (records (state ar)) n) (refresh v e) = None" for e
    using assms(1,3) by (simp add: holds_def refresh_absent)
  moreover have "AList.update n us (records (state ar)) = [(n, us)]" for us
    using assms(1) by (simp add: holds_def)
  ultimately show ?thesis
    using holds_live [OF assms(1,2)] assms(4,5)
    by (auto simp: add_def set_zone_same map_option_case bind_eq_Some_conv split: option.split)
qed

lemma holds_added: "holds n (ts @ [t]) (set_zone [(n, ts @ [t])] True ar)"
  by (simp add: holds_def set_zone_def)

lemma get_live:
  assumes "holds n ts ar" and "\<forall>t\<in>set ts. now < expires_at t"
  shows "fst (get_values now n ar) = map token_value ts"
  using holds_live [OF assms]
  by (simp add: get_values_def get_with_serial_def refresh_zone_def set_zone_same case_prod_unfold Let_def)

lemma add_full:
  assumes "holds n ts ar" and "\<forall>t\<in>set ts. now < expires_at t" and "v \<notin> token_value ` set ts"
    and "ar_max_tokens ar \<le> length ts"
  shows "add H ho now later n v ar = Some (Inl TokenLimitReached, ar)"
proof -
  have "Option.bind (map_of (records (state ar)) n) (refresh v e) = None" for e
    using assms(1,3) by (simp add: holds_def refresh_absent)
  then show ?thesis using holds_live [OF assms(1,2)] assms(4) by (simp add: add_def set_zone_same)
qed

text \<open>
  A store filled by a test: it holds these values, in this order, and the expiry of each was
  computed from a reading of the clock \<open>c\<close>.
\<close>

definition filled :: "duration \<Rightarrow> nat \<Rightarrow> 'nm acme_wire_capacity \<Rightarrow> (nat \<Rightarrow> instant) \<Rightarrow> string \<Rightarrow> string list \<Rightarrow> 'nm acme_records \<Rightarrow> bool" where
  "filled life mx cap c n vs ar \<longleftrightarrow> lifetime ar = life \<and> wire_capacity ar = cap \<and> ar_max_tokens ar = mx \<and>
     (\<exists>ts. holds n ts ar \<and> map token_value ts = vs \<and> (\<forall>t\<in>set ts. \<exists>i. expires_at t = plus_duration (c i) life))"

lemma filledE:
  assumes "filled life mx cap c n vs ar" and "\<And>j. now < plus_duration (c j) life"
  obtains ts where "holds n ts ar" "map token_value ts = vs" "\<forall>t\<in>set ts. \<exists>i. expires_at t = plus_duration (c i) life"
    "\<forall>t\<in>set ts. now < expires_at t" "lifetime ar = life" "wire_capacity ar = cap" "ar_max_tokens ar = mx"
proof -
  obtain ts where ts: "holds n ts ar" "map token_value ts = vs" "\<forall>t\<in>set ts. \<exists>i. expires_at t = plus_duration (c i) life"
    using assms(1) by (auto simp: filled_def)
  moreover have "\<forall>t\<in>set ts. now < expires_at t" using ts(3) assms(2) by metis
  ultimately show thesis using assms(1) by (intro that) (simp_all add: filled_def)
qed

lemma filled_start: "filled life mx cap c n [] (with_serial life mx cap ser)"
  by (simp add: with_serial_def filled_def holds_def)

lemma filled_test_records:
  "test_capacity H = Some cap \<Longrightarrow> test_records H timestamp life mx = Some ar \<Longrightarrow> filled life mx cap c n [] ar"
  by (auto simp: test_records_def new_records_def filled_start)

lemma filled_add:
  assumes "filled life mx cap c n vs ar" and "\<And>j. now < plus_duration (c j) life" and "fair_order ho"
    and "v \<notin> set vs" and "length vs < mx" and "fits H cap (vs @ [v]) = Some b"
  shows "\<exists>ar'. add H ho now (c i) n v ar = Some (if b then Inr () else Inl DnsWireCapacityReached, ar') \<and>
    filled life mx cap c n (if b then vs @ [v] else vs) ar'"
proof -
  obtain ts where ts: "holds n ts ar" "map token_value ts = vs" "\<forall>t\<in>set ts. \<exists>i. expires_at t = plus_duration (c i) life"
    "\<forall>t\<in>set ts. now < expires_at t" and ar: "lifetime ar = life" "wire_capacity ar = cap" "ar_max_tokens ar = mx"
    by (rule filledE [OF assms(1,2)])
  have "length ts < ar_max_tokens ar" using assms(5) ts(2) ar(3) by auto
  moreover have "v \<notin> token_value ` set ts" using assms(4) ts(2) by auto
  ultimately have a: "add H ho now (c i) n v ar = Some (if b
      then (Inr (), set_zone [(n, ts @ [\<lparr>token_value = v, expires_at = plus_duration (c i) life\<rparr>])] True ar)
      else (Inl DnsWireCapacityReached, ar))"
    using add_live [OF ts(1,4) _ assms(3), of v H "c i"] assms(6) ts(2) ar by simp
  show ?thesis
  proof (cases b)
    case False
    with a assms(1) show ?thesis by simp
  next
    case True
    let ?ts = "ts @ [\<lparr>token_value = v, expires_at = plus_duration (c i) life\<rparr>]"
    have "\<forall>t\<in>set ?ts. \<exists>j. expires_at t = plus_duration (c j) life" using ts(3) by auto
    moreover have "map token_value ?ts = vs @ [v]" using ts(2) by simp
    ultimately have "filled life mx cap c n (vs @ [v]) (set_zone [(n, ?ts)] True ar)"
      using holds_added [of n ts "\<lparr>token_value = v, expires_at = plus_duration (c i) life\<rparr>" ar] ar
      unfolding filled_def by (simp only: set_zone_sel) blast
    with a True show ?thesis by simp
  qed
qed

lemma filled_full:
  assumes "filled life mx cap c n vs ar" and "\<And>j. now < plus_duration (c j) life" and "v \<notin> set vs" and "mx \<le> length vs"
  shows "add H ho now later n v ar = Some (Inl TokenLimitReached, ar)"
proof -
  obtain ts where "holds n ts ar" "map token_value ts = vs" "\<forall>t\<in>set ts. now < expires_at t" "ar_max_tokens ar = mx"
    by (rule filledE [OF assms(1,2)])
  with assms(3,4) show ?thesis by (intro add_full) auto
qed

lemma filled_get:
  assumes "filled life mx cap c n vs ar" and "\<And>j. now < plus_duration (c j) life"
  shows "fst (get_values now n ar) = vs"
proof -
  obtain ts where "holds n ts ar" "map token_value ts = vs" "\<forall>t\<in>set ts. now < expires_at t"
    by (rule filledE [OF assms])
  with get_live [of n ts ar now] show ?thesis by simp
qed

lemma filled_remove:
  assumes "filled life mx cap c n vs ar" and "\<And>j. now < plus_duration (c j) life"
  shows "filled life mx cap c n (filter (\<lambda>w. w \<noteq> v) vs) (remove now n v ar)"
proof -
  obtain ts where ts: "holds n ts ar" "map token_value ts = vs" "\<forall>t\<in>set ts. \<exists>i. expires_at t = plus_duration (c i) life"
    "\<forall>t\<in>set ts. now < expires_at t" and ar: "lifetime ar = life" "wire_capacity ar = cap" "ar_max_tokens ar = mx"
    by (rule filledE [OF assms])
  have "holds n (remove_value v ts) (remove now n v ar)"
    using holds_live(1) [OF ts(1,4)] ts(1) by (auto simp: remove_def holds_def remove_value_def set_zone_def Let_def)
  moreover have "map token_value (remove_value v ts) = filter (\<lambda>w. w \<noteq> v) vs"
    by (simp add: ts(2) [symmetric] remove_value_def filter_map comp_def)
  moreover have "\<forall>t\<in>set (remove_value v ts). \<exists>i. expires_at t = plus_duration (c i) life"
    using ts(3) by (simp add: remove_value_def)
  moreover have "lifetime (remove now n v ar) = life" "wire_capacity (remove now n v ar) = cap"
    "ar_max_tokens (remove now n v ar) = mx"
    using ar by (auto simp: remove_def case_prod_unfold Let_def split: option.split)
  ultimately show ?thesis unfolding filled_def by blast
qed

lemma fill_store_overflow:
  assumes over: "first_overflow H cap N" "N \<le> mx" and live: "\<And>i j. c i < plus_duration (c j) life"
    and order: "fair_order ho" and "filled life mx cap c n (fillers k) ar" and "k < N"
  shows "\<exists>ar'. fill_store H ho c n (fillers k) ar = Some (fillers (N - 1), ar') \<and> filled life mx cap c n (fillers (N - 1)) ar'"
  using assms(5,6)
proof (induction "N - Suc k" arbitrary: k ar)
  case 0
  then have k: "N = Suc k" by simp
  then have "fits H cap (fillers k @ [filler k]) = Some False" using over(1) by (simp add: first_overflow_def)
  then obtain ar' where "add H ho (c k) (c k) n (filler k) ar = Some (Inl DnsWireCapacityReached, ar')"
      "filled life mx cap c n (fillers k) ar'"
    using filled_add [OF 0(2) live order, of "filler k" H False k] k over(2) by (auto simp: filler_in_fillers)
  with k show ?case by (subst fill_store.simps) simp
next
  case (Suc d)
  then have "Suc k < N" by simp
  then have "fits H cap (fillers (Suc k)) = Some True" using over(1) unfolding first_overflow_def by blast
  then have "fits H cap (fillers k @ [filler k]) = Some True" by simp
  then obtain ar' where ar': "add H ho (c k) (c k) n (filler k) ar = Some (Inr (), ar')"
      "filled life mx cap c n (fillers (Suc k)) ar'"
    using filled_add [OF Suc.prems(1) live order, of "filler k" H True k] Suc.prems(2) over(2)
    by (auto simp: filler_in_fillers)
  have "\<exists>ar''. fill_store H ho c n (fillers (Suc k)) ar' = Some (fillers (N - 1), ar'') \<and>
      filled life mx cap c n (fillers (N - 1)) ar''"
    using Suc.hyps(2) by (intro Suc.hyps(1) ar'(2)) simp_all
  with ar'(1) show ?case by (subst fill_store.simps) simp
qed

lemma overflow_test_passes:
  assumes cap: "test_capacity H = Some cap" and over: "first_overflow H cap N" "1 < N" "N \<le> 18446744073709551615"
    and order: "fair_order ho" and live: "\<And>i j. c i < plus_duration (c j) (duration_from_secs 60)"
    "\<And>j. now < plus_duration (c j) (duration_from_secs 60)"
  shows "rejects_wire_overflow_without_changing_existing_records H ho timestamp c now = Some ()"
proof -
  let ?n = "''_acme-challenge.xip.test''" and ?life = "duration_from_secs 60"
  obtain ar where ar: "test_records H timestamp ?life 18446744073709551615 = Some ar"
    by (simp add: test_records_def cap)
  have "filled ?life 18446744073709551615 cap c ?n (fillers 0) ar" using filled_test_records [OF cap ar] by simp
  from fill_store_overflow [OF over(1,3) live(1) order this] over(2) obtain ar' where
    "fill_store H ho c ?n [] ar = Some (fillers (N - 1), ar')" "filled ?life 18446744073709551615 cap c ?n (fillers (N - 1)) ar'" by auto
  moreover have "fillers (N - 1) \<noteq> []" using over(2) by (metis fillers_simps(3) list.size(3) zero_less_diff less_irrefl)
  ultimately show ?thesis
    using filled_get [OF _ live(2)] by (simp add: rejects_wire_overflow_without_changing_existing_records_def ar)
qed

text \<open>
  For the concurrent test: values of the same lengths take the same room, because a TXT string is
  written with its length and is not compressed.
\<close>

definition length_law :: "'nm hickory \<Rightarrow> 'nm acme_wire_capacity \<Rightarrow> bool" where
  "length_law H cap \<longleftrightarrow> (\<forall>vs ws. map length vs = map length ws \<longrightarrow> fits H cap vs = fits H cap ws)"

lemma length_show_nat: "i < 10 ^ Suc k \<Longrightarrow> length (show_nat i) \<le> Suc k"
proof (induction k arbitrary: i)
  case 0
  then show ?case by (subst show_nat.simps) simp
next
  case (Suc k)
  then have "i div 10 < 10 ^ Suc k" by (simp add: div_less_iff_less_mult)
  with Suc.IH [of "i div 10"] show ?case by (subst show_nat.simps) simp
qed

lemma length_filler: "i < 10000 \<Longrightarrow> length (filler i) = 255"
  using length_show_nat [of i 3] by (simp add: filler_def)

lemma fits_by_count:
  assumes "first_overflow H cap N" and "N < 10000" and "length_law H cap"
    and "\<forall>v\<in>set vs. length v = 255" and "length vs \<le> N"
  shows "fits H cap vs = Some (length vs < N)"
proof -
  have "map length vs = map (\<lambda>_. 255) vs" using assms(4) by (intro map_cong) simp_all
  then have "map length vs = replicate (length vs) 255" by (simp only: map_replicate_const)
  moreover have "map length (fillers (length vs)) = map (\<lambda>_. 255) [0..<length vs]"
    unfolding fillers_def map_map
  proof (rule map_cong)
    fix k assume "k \<in> set [0..<length vs]"
    with assms(2,5) have "k < 10000" by simp
    then show "(length \<circ> filler) k = 255" by (simp add: length_filler)
  qed simp
  then have "map length (fillers (length vs)) = replicate (length vs) 255"
    by (simp only: map_replicate_const length_upt diff_zero)
  ultimately have "fits H cap vs = fits H cap (fillers (length vs))"
    using assms(3) unfolding length_law_def by metis
  with assms(1,5) show ?thesis by (cases "length vs < N") (auto simp: first_overflow_def)
qed

lemma add_each_fills:
  assumes over: "first_overflow H cap N" "N < 10000" "N \<le> mx" and len: "length_law H cap"
    and live: "\<And>i j. c i < plus_duration (c j) life" and order: "fair_order ho"
    and "filled life mx cap c n vs ar" and "distinct is" and "\<forall>i\<in>set is. i < 10000 \<and> filler i \<notin> set vs"
    and "\<forall>v\<in>set vs. length v = 255" and "length vs < N"
  shows "\<exists>ar' vs'. add_each H ho c n is ar = Some ar' \<and> filled life mx cap c n vs' ar' \<and>
    (\<forall>v\<in>set vs'. length v = 255) \<and> length vs' = min (length vs + length is) (N - 1)"
  using assms(7-)
proof (induction "is" arbitrary: vs ar)
  case Nil
  then show ?case by auto
next
  case (Cons i "is")
  have i: "i < 10000" "filler i \<notin> set vs" using Cons.prems(3) by auto
  have fits: "fits H cap (vs @ [filler i]) = Some (Suc (length vs) < N)"
    using fits_by_count [OF over(1,2) len, of "vs @ [filler i]"] Cons.prems(4,5) i length_filler by auto
  let ?vs = "if Suc (length vs) < N then vs @ [filler i] else vs"
  have "length vs < mx" using Cons.prems(5) over(3) by simp
  from filled_add [where now = "c i" and i = i, OF Cons.prems(1) live order i(2) this fits] obtain ar1 r where
    ar1: "add H ho (c i) (c i) n (filler i) ar = Some (r, ar1)" "filled life mx cap c n ?vs ar1" by auto
  have "\<forall>j\<in>set is. j < 10000 \<and> filler j \<notin> set ?vs" using Cons.prems(2,3) by (auto simp: filler_inj)
  moreover have "\<forall>v\<in>set ?vs. length v = 255" using Cons.prems(4) length_filler [OF i(1)] by auto
  moreover have "length ?vs < N" using Cons.prems(5) by simp
  moreover have "distinct is" using Cons.prems(2) by simp
  ultimately obtain ar' vs' where r: "add_each H ho c n is ar1 = Some ar'" "filled life mx cap c n vs' ar'"
      "\<forall>v\<in>set vs'. length v = 255" "length vs' = min (length ?vs + length is) (N - 1)"
    using Cons.IH [OF ar1(2)] by blast
  have "min (length ?vs + length is) (N - 1) = min (length vs + length (i # is)) (N - 1)"
    using Cons.prems(5) by auto
  moreover have "add_each H ho c n (i # is) ar = Some ar'" using ar1(1) r(1) by simp
  ultimately show ?case using r(2-4) by metis
qed

lemma concurrent_test_passes:
  assumes cap: "test_capacity H = Some cap" and over: "first_overflow H cap N" "0 < N" "N \<le> 400"
    and len: "length_law H cap" and fair: "fair_order ho" and "mset order = mset [0..<400]"
    and live: "\<And>i j. c i < plus_duration (c j) (duration_from_secs 60)" "\<And>j. now < plus_duration (c j) (duration_from_secs 60)"
  shows "concurrent_additions_cannot_exceed_wire_capacity H ho timestamp c order now = Some ()"
proof -
  let ?n = "''_acme-challenge.xip.test''" and ?life = "duration_from_secs 60"
  have order: "distinct order" "set order = {0..<400}" "length order = 400"
    using assms(7) by (metis distinct_upt mset_eq_imp_distinct_iff, metis set_upt mset_eq_setD,
        metis mset_eq_length length_upt diff_zero)
  obtain ar where ar: "test_records H timestamp ?life 18446744073709551615 = Some ar"
    by (simp add: test_records_def cap)
  obtain ar' vs where vs: "add_each H ho c ?n order ar = Some ar'" "filled ?life 18446744073709551615 cap c ?n vs ar'"
      "\<forall>v\<in>set vs. length v = 255" "length vs = min 400 (N - 1)"
    using add_each_fills [OF over(1) _ _ len live(1) fair filled_test_records [OF cap ar, of c ?n], of order] order over by auto
  have "fits H cap vs = Some True" and "fits H cap (vs @ [replicate 255 CHR ''z'']) = Some False"
    using fits_by_count [OF over(1) _ len, of vs] fits_by_count [OF over(1) _ len, of "vs @ [replicate 255 CHR ''z'']"]
      vs(3,4) over by auto
  then show ?thesis
    using filled_get [OF vs(2) live(2)] vs(1)
    by (simp add: concurrent_additions_cannot_exceed_wire_capacity_def ar cap case_prod_unfold Let_def)
qed

subsection \<open>An instance\<close>

text \<open>
  What the tests take for granted can hold: a DNS library whose messages carry 150 records, and a
  clock that stands still, or that advances by 20 milliseconds where a test sleeps.
\<close>

lemma counting_capacity: "test_capacity (counting_hickory k) = Some
  \<lparr>cap_acme_name = ''_acme-challenge.xip.test'', cap_zone = ''xip.test'', cap_ns_hostname = ''ns1.xip.test'', cap_txt_ttl = 60\<rparr>"
  by (simp add: test_capacity_def local_config_def from_config_eq_Some test_config_def acme_name_def)

lemma counting_overflow: "first_overflow (counting_hickory k) cap (Suc k)"
  by (simp add: first_overflow_def counting_fits del: fillers_simps(2))

lemma counting_length: "length_law (counting_hickory k) cap"
  by (auto simp: length_law_def counting_fits dest: map_eq_imp_length_eq)

lemma unit_tests_pass_at_counting_hickory:
  defines "H \<equiv> counting_hickory 150" and "ho \<equiv> (\<lambda>rs. rs)" and "c \<equiv> (\<lambda>i. Instant 0)"
  shows "includes_record_and_message_overhead_at_the_boundary H = Some ()"
    "deduplicates_and_refreshes_tokens H ho 7 c = Some ()"
    "enforces_capacity H ho 7 c = Some ()"
    "expires_tokens H ho 7 (\<lambda>i. Instant (20000000 * i)) = Some ()"
    "rejects_wire_overflow_without_changing_existing_records H ho 7 c (Instant 0) = Some ()"
    "concurrent_additions_cannot_exceed_wire_capacity H ho 7 c (rev [0..<400]) (Instant 0) = Some ()"
    "serial_tracks_effective_rrset_changes_only H ho c = Some ()"
    "serial_advances_once_when_expired_records_are_pruned H ho
       (\<lambda>i. if i < 3 then Instant 0 else Instant 20000000) = Some ()"
proof -
  have order: "fair_order ho" by (simp add: ho_def fair_order_def)
  have still: "c i < plus_duration (c j) (duration_from_secs 60)" "Instant 0 < plus_duration (c j) (duration_from_secs 60)" for i j
    by (simp_all add: c_def duration_from_secs_def)
  note cap = counting_capacity [of 150, folded H_def]
  have fits: "fits H cap vs = Some (length vs \<le> 150)" for cap vs by (simp add: H_def counting_fits)
  have over: "first_overflow H cap (Suc 150)" for cap unfolding H_def by (rule counting_overflow)
  have len: "length_law H cap" for cap unfolding H_def by (rule counting_length)
  show "includes_record_and_message_overhead_at_the_boundary H = Some ()"
    by (rule wire_test_passes [OF cap [unfolded test_capacity_def] over])
  show "deduplicates_and_refreshes_tokens H ho 7 c = Some ()" "enforces_capacity H ho 7 c = Some ()"
    "serial_tracks_effective_rrset_changes_only H ho c = Some ()"
    by (rule state_tests_pass [OF cap _ order still(1)]; simp add: fits)+
  show "rejects_wire_overflow_without_changing_existing_records H ho 7 c (Instant 0) = Some ()"
    by (rule overflow_test_passes [OF cap over _ _ order still]) simp_all
  show "concurrent_additions_cannot_exceed_wire_capacity H ho 7 c (rev [0..<400]) (Instant 0) = Some ()"
    by (rule concurrent_test_passes [OF cap over _ _ len order _ still]) simp_all
  show "expires_tokens H ho 7 (\<lambda>i. Instant (20000000 * i)) = Some ()"
    by (rule expiry_tests_pass(1) [OF cap _ order]) (simp_all add: fits)
  show "serial_advances_once_when_expired_records_are_pruned H ho
      (\<lambda>i. if i < 3 then Instant 0 else Instant 20000000) = Some ()"
    by (rule expiry_tests_pass(2) [OF cap _ order]) (simp_all add: fits)
qed

end
