(* ===== verification/Api_Tests.thy ===== *)
theory Api_Tests
  imports Store_Tests Concurrent_Spec
begin

text \<open>
  The unit tests of \<open>src/api.rs\<close> on the model. \<open>oneshot\<close> is \<open>serve\<close>, and \<open>a i\<close> is what surrounds
  request \<open>i\<close> of a test. What the tests themselves take from third-party crates is the record
  \<open>test_lib\<close>; the named hypotheses about it are what the crates document.
\<close>

subsection \<open>What the tests use\<close>

record 'body test_lib =
  base64_encode :: "bytes \<Rightarrow> string"
  body_of :: "string \<Rightarrow> 'body"          \<comment> \<open>\<open>Body::from\<close>\<close>
  body_stream :: "string \<Rightarrow> 'body"      \<comment> \<open>\<open>Body::from_stream\<close> of one chunk\<close>
  body_pending :: "'body"               \<comment> \<open>\<open>Body::from_stream(stream::pending())\<close>\<close>
  json_of :: "present_request \<Rightarrow> string"   \<comment> \<open>\<open>json!({..}).to_string()\<close>\<close>

definition api_test_config :: config where
  "api_test_config = test_config
     \<lparr>dns_bind := V4 (Ipv4 127 0 0 1), dns_port := 5353, max_tokens := 10\<rparr>"

definition api_records :: "'nm hickory \<Rightarrow> int \<Rightarrow> nat \<Rightarrow> 'nm acme_records option" where
  "api_records H timestamp mx = do {
     capacity \<leftarrow> from_config H api_test_config;
     Some (new_records timestamp (duration_from_secs 60) mx capacity)
   }"

definition app :: "'nm hickory \<Rightarrow> 'sem semaphore \<Rightarrow> int \<Rightarrow> instant \<Rightarrow> ('nm, 'sem) api_state option" where
  "app H S timestamp now = do {
     ar \<leftarrow> api_records H timestamp 10;
     Some (router S now api_test_config ar)
   }"

definition app_with_tokens :: "'nm hickory \<Rightarrow> 'sem semaphore \<Rightarrow> int \<Rightarrow> instant \<Rightarrow> nat \<Rightarrow> ('nm, 'sem) api_state option" where
  "app_with_tokens H S timestamp now mx = do {
     ar \<leftarrow> api_records H timestamp mx;
     Some (router S now api_test_config ar)
   }"

definition app_with_limits :: "'nm hickory \<Rightarrow> 'sem semaphore \<Rightarrow> int \<Rightarrow> instant \<Rightarrow> nat \<Rightarrow> nat \<Rightarrow> rat \<Rightarrow> nat \<Rightarrow>
    ('nm, 'sem) api_state option" where
  "app_with_limits H S timestamp now mx max_concurrent rps brst = do {
     ar \<leftarrow> api_records H timestamp mx;
     Some (router_with_limits S now api_test_config ar max_concurrent rps brst)
   }"

definition post_with_body :: "string option \<Rightarrow> 'body \<Rightarrow> 'body http_request" where
  "post_with_body auth body =
     \<lparr>headers = (''content-type'', as_bytes ''application/json'') #
        (case auth of None \<Rightarrow> [] | Some auth \<Rightarrow> [(''authorization'', as_bytes auth)]),
      request_body = body\<rparr>"

definition test_request :: "'body test_lib \<Rightarrow> string option \<Rightarrow> string \<Rightarrow> 'body http_request" where
  "test_request T auth body = post_with_body auth (body_of T body)"

definition test_auth :: "'body test_lib \<Rightarrow> string \<Rightarrow> string" where
  "test_auth T password = ''Basic '' @ base64_encode T (as_bytes (''user:'' @ password))"

definition KEY :: string where "KEY = ''0123456789abcdef0123456789abcdef''"

text \<open>The JSON text of a request whose strings need no escapes.\<close>

definition quoted :: "string \<Rightarrow> string" where
  "quoted s = CHR 0x22 # s @ [CHR 0x22]"

definition json_text :: "present_request \<Rightarrow> string" where
  "json_text p = ''{'' @ quoted ''fqdn'' @ '':'' @ quoted (fqdn p) @ '','' @
     quoted ''value'' @ '':'' @ quoted (present_value p) @ ''}''"

definition json_body :: "string \<Rightarrow> string \<Rightarrow> string" where
  "json_body n v = json_text \<lparr>fqdn = n, present_value = v\<rparr>"

definition json_value :: "'body test_lib \<Rightarrow> string \<Rightarrow> string" where
  "json_value T v = json_of T \<lparr>fqdn = ''_acme-challenge.xip.test.'', present_value = v\<rparr>"

definition token_name :: "nat \<Rightarrow> string" where   \<comment> \<open>\<open>format!("token-{index}")\<close>\<close>
  "token_name index = ''token-'' @ show_nat index"

fun replace_first :: "string \<Rightarrow> string \<Rightarrow> string \<Rightarrow> string" where   \<comment> \<open>\<open>replacen(.., 1)\<close>\<close>
  "replace_first p q [] = (if p = [] then q else [])"
| "replace_first p q (x # xs) =
     (if take (length p) (x # xs) = p then q @ drop (length p) (x # xs)
      else x # replace_first p q xs)"

fun run_each :: "('a \<Rightarrow> 's \<Rightarrow> 's option) \<Rightarrow> 'a list \<Rightarrow> 's \<Rightarrow> 's option" where
  "run_each f [] s = Some s"
| "run_each f (x # xs) s = do { s \<leftarrow> f x s; run_each f xs s }"

definition expect_status :: "'nm hickory \<Rightarrow> (zone_records \<Rightarrow> zone_records) \<Rightarrow> ('sem, 'body) http_lib \<Rightarrow>
    arrival \<Rightarrow> route \<Rightarrow> 'body http_request \<Rightarrow> nat \<Rightarrow> ('nm, 'sem) api_state \<Rightarrow>
    (http_response \<times> ('nm, 'sem) api_state) option" where
  "expect_status H ho L a rt req status s = do {
     (r, s) \<leftarrow> serve H ho L a rt req s;
     assert_that (status_code r = status);
     Some (r, s)
   }"

subsection \<open>The tests\<close>

text \<open>App \<open>i\<close> of a test is built at \<open>t i\<close>.\<close>

definition rejects_missing_and_incorrect_authentication ::
    "'nm hickory \<Rightarrow> (zone_records \<Rightarrow> zone_records) \<Rightarrow> ('sem, 'body) http_lib \<Rightarrow> 'body test_lib \<Rightarrow>
    int \<Rightarrow> (nat \<Rightarrow> instant) \<Rightarrow> (nat \<Rightarrow> arrival) \<Rightarrow> unit option" where
  "rejects_missing_and_incorrect_authentication H ho L T timestamp t a = do {
     s \<leftarrow> app H (sem_lib L) timestamp (t 0);
     (missing, s) \<leftarrow> expect_status H ho L (a 0) Present (test_request T None (json_body ''_acme-challenge.xip.test.'' ''token'')) 401 s;
     assert_that (map_of (response_headers missing) ''www-authenticate'' =
       Some (''Basic realm='' @ quoted ''safexip'' @ '', charset='' @ quoted ''UTF-8''));
     s \<leftarrow> app H (sem_lib L) timestamp (t 1);
     (wrong, s) \<leftarrow> expect_status H ho L (a 1) Present
       (test_request T (Some (test_auth T ''wrong'')) (json_body ''_acme-challenge.xip.test.'' ''token'')) 401 s;
     Some ()
   }"

definition rejects_malformed_basic_authentication ::
    "'nm hickory \<Rightarrow> (zone_records \<Rightarrow> zone_records) \<Rightarrow> ('sem, 'body) http_lib \<Rightarrow> 'body test_lib \<Rightarrow>
    int \<Rightarrow> (nat \<Rightarrow> instant) \<Rightarrow> (nat \<Rightarrow> arrival) \<Rightarrow> unit option" where
  "rejects_malformed_basic_authentication H ho L T timestamp t a = do {
     let missing_colon = base64_encode T (as_bytes KEY);
     let invalid_utf8 = base64_encode T ([0xFF, 58] @ as_bytes KEY);
     run_each (\<lambda>authorization u. do {
         s \<leftarrow> app H (sem_lib L) timestamp (t 0);
         (r, s) \<leftarrow> expect_status H ho L (a 0) Present
           (test_request T (Some authorization) (json_body ''_acme-challenge.xip.test.'' ''token'')) 401 s;
         assert_that (''www-authenticate'' \<in> fst ` set (response_headers r))
       })
       [''Bearer token'', ''Basic !!!'', ''Basic '' @ missing_colon, ''Basic '' @ invalid_utf8] ()
   }"

definition accepts_basic_scheme_case_insensitively ::
    "'nm hickory \<Rightarrow> (zone_records \<Rightarrow> zone_records) \<Rightarrow> ('sem, 'body) http_lib \<Rightarrow> 'body test_lib \<Rightarrow>
    int \<Rightarrow> (nat \<Rightarrow> instant) \<Rightarrow> (nat \<Rightarrow> arrival) \<Rightarrow> unit option" where
  "accepts_basic_scheme_case_insensitively H ho L T timestamp t a = do {
     let authorization = replace_first ''Basic'' ''bAsIc'' (test_auth T KEY);
     s \<leftarrow> app H (sem_lib L) timestamp (t 0);
     (r, s) \<leftarrow> expect_status H ho L (a 0) Present
       (test_request T (Some authorization) (json_body ''_acme-challenge.xip.test.'' ''token'')) 200 s;
     Some ()
   }"

definition rejects_authentication_before_parsing_the_body ::
    "'nm hickory \<Rightarrow> (zone_records \<Rightarrow> zone_records) \<Rightarrow> ('sem, 'body) http_lib \<Rightarrow> 'body test_lib \<Rightarrow>
    int \<Rightarrow> (nat \<Rightarrow> instant) \<Rightarrow> (nat \<Rightarrow> arrival) \<Rightarrow> unit option" where
  "rejects_authentication_before_parsing_the_body H ho L T timestamp t a = do {
     s \<leftarrow> app H (sem_lib L) timestamp (t 0);
     (r, s) \<leftarrow> expect_status H ho L (a 0) Present (test_request T None ''not json'') 401 s;
     s \<leftarrow> app H (sem_lib L) timestamp (t 1);
     (r, s) \<leftarrow> expect_status H ho L (a 1) Present
       (test_request T (Some (test_auth T KEY)) ''not json'') 400 s;
     Some ()
   }"

definition rejects_oversized_bodies_with_and_without_a_known_length ::
    "'nm hickory \<Rightarrow> (zone_records \<Rightarrow> zone_records) \<Rightarrow> ('sem, 'body) http_lib \<Rightarrow> 'body test_lib \<Rightarrow>
    int \<Rightarrow> (nat \<Rightarrow> instant) \<Rightarrow> (nat \<Rightarrow> arrival) \<Rightarrow> unit option" where
  "rejects_oversized_bodies_with_and_without_a_known_length H ho L T timestamp t a = do {
     let oversized = replicate (MAX_REQUEST_BODY_LEN + 1) CHR ''x'';
     s \<leftarrow> app H (sem_lib L) timestamp (t 0);
     (r, s) \<leftarrow> expect_status H ho L (a 0) Present
       (test_request T (Some (test_auth T KEY)) oversized) 413 s;
     s \<leftarrow> app H (sem_lib L) timestamp (t 1);
     (r, s) \<leftarrow> expect_status H ho L (a 1) Present
       (post_with_body (Some (test_auth T KEY)) (body_stream T oversized)) 413 s;
     Some ()
   }"

text \<open>\<open>order\<close> is the order in which the twelve tasks run.\<close>

definition allows_a_normal_concurrent_lego_burst ::
    "'nm hickory \<Rightarrow> (zone_records \<Rightarrow> zone_records) \<Rightarrow> ('sem, 'body) http_lib \<Rightarrow> 'body test_lib \<Rightarrow>
    int \<Rightarrow> (nat \<Rightarrow> instant) \<Rightarrow> (nat \<Rightarrow> arrival) \<Rightarrow> nat list \<Rightarrow> instant \<Rightarrow> unit option" where
  "allows_a_normal_concurrent_lego_burst H ho L T timestamp t a order now = do {
     s \<leftarrow> app_with_tokens H (sem_lib L) timestamp (t 0) 20;
     s \<leftarrow> run_each (\<lambda>index s. do {
         (r, s) \<leftarrow> expect_status H ho L (a index) Present
           (test_request T (Some (test_auth T KEY)) (json_value T (token_name index))) 200 s;
         Some s
       }) order s;
     let (values, ar) = get_values now ''_acme-challenge.xip.test'' (api_acme s);
     assert_that (length values = 12)
   }"

definition rate_limit_has_a_burst_and_retry_header ::
    "'nm hickory \<Rightarrow> (zone_records \<Rightarrow> zone_records) \<Rightarrow> ('sem, 'body) http_lib \<Rightarrow> 'body test_lib \<Rightarrow>
    int \<Rightarrow> (nat \<Rightarrow> instant) \<Rightarrow> (nat \<Rightarrow> arrival) \<Rightarrow> unit option" where
  "rate_limit_has_a_burst_and_retry_header H ho L T timestamp t a = do {
     s \<leftarrow> app_with_limits H (sem_lib L) timestamp (t 0) 10 2 0 2;
     s \<leftarrow> run_each (\<lambda>(index, expected) s. do {
         (r, s) \<leftarrow> expect_status H ho L (a index) Present
           (test_request T (Some (test_auth T KEY)) (json_value T (token_name index))) expected s;
         assert_that (expected = 429 \<longrightarrow> map_of (response_headers r) ''retry-after'' = Some ''1'');
         Some s
       }) [(0, 200), (1, 200), (2, 429)] s;
     Some ()
   }"

definition times_out_an_incomplete_authenticated_body ::
    "'nm hickory \<Rightarrow> (zone_records \<Rightarrow> zone_records) \<Rightarrow> ('sem, 'body) http_lib \<Rightarrow> 'body test_lib \<Rightarrow>
    int \<Rightarrow> (nat \<Rightarrow> instant) \<Rightarrow> (nat \<Rightarrow> arrival) \<Rightarrow> unit option" where
  "times_out_an_incomplete_authenticated_body H ho L T timestamp t a = do {
     s \<leftarrow> app_with_limits H (sem_lib L) timestamp (t 0) 10 1 100 10;
     (r, s) \<leftarrow> expect_status H ho L ((a 0)\<lparr>in_time := False\<rparr>) Present
       (post_with_body (Some (test_auth T KEY)) (body_pending T)) 408 s;
     Some ()
   }"

text \<open>
  The held request takes its steps up to its body, which never comes; it is dropped by the abort
  of its task.
\<close>

definition rejects_and_recovers_from_concurrency_exhaustion ::
    "'nm hickory \<Rightarrow> (zone_records \<Rightarrow> zone_records) \<Rightarrow> ('sem, 'body) http_lib \<Rightarrow> 'body test_lib \<Rightarrow>
    int \<Rightarrow> (nat \<Rightarrow> instant) \<Rightarrow> (nat \<Rightarrow> arrival) \<Rightarrow> unit option" where
  "rejects_and_recovers_from_concurrency_exhaustion H ho L T timestamp t a = do {
     s \<leftarrow> app_with_limits H (sem_lib L) timestamp (t 0) 10 1 100 10;
     let held = post_with_body (Some (test_auth T KEY)) (body_pending T);
     (out, s) \<leftarrow> task_step H ho L ToPresent held (CheckRate (at_gate (a 0))) Received s;
     assert_that (out = Continue Rated);
     (out, s) \<leftarrow> task_step H ho L ToPresent held Acquire Rated s;
     assert_that (out = Continue Admitted);
     (r, s) \<leftarrow> expect_status H ho L (a 1) Present
       (test_request T (Some (test_auth T KEY)) (json_body ''_acme-challenge.xip.test.'' ''token'')) 503 s;
     (out, s) \<leftarrow> task_step H ho L ToPresent held Disconnect Admitted s;
     (r, s) \<leftarrow> expect_status H ho L (a 2) Present
       (test_request T (Some (test_auth T KEY)) (json_body ''_acme-challenge.xip.test.'' ''token'')) 200 s;
     Some ()
   }"

definition accepts_the_configured_challenge_name_case_insensitively ::
    "'nm hickory \<Rightarrow> (zone_records \<Rightarrow> zone_records) \<Rightarrow> ('sem, 'body) http_lib \<Rightarrow> 'body test_lib \<Rightarrow>
    int \<Rightarrow> (nat \<Rightarrow> instant) \<Rightarrow> (nat \<Rightarrow> arrival) \<Rightarrow> unit option" where
  "accepts_the_configured_challenge_name_case_insensitively H ho L T timestamp t a = do {
     s \<leftarrow> app H (sem_lib L) timestamp (t 0);
     (r, s) \<leftarrow> expect_status H ho L (a 0) Present
       (test_request T (Some (test_auth T KEY)) (json_body ''_AcMe-Challenge.XIP.TEST.'' ''token'')) 200 s;
     Some ()
   }"

definition rejects_names_that_the_dns_server_cannot_answer ::
    "'nm hickory \<Rightarrow> (zone_records \<Rightarrow> zone_records) \<Rightarrow> ('sem, 'body) http_lib \<Rightarrow> 'body test_lib \<Rightarrow>
    int \<Rightarrow> (nat \<Rightarrow> instant) \<Rightarrow> (nat \<Rightarrow> arrival) \<Rightarrow> unit option" where
  "rejects_names_that_the_dns_server_cannot_answer H ho L T timestamp t a = do {
     s \<leftarrow> app H (sem_lib L) timestamp (t 0);
     (r, s) \<leftarrow> expect_status H ho L (a 0) Present
       (test_request T (Some (test_auth T KEY)) (json_body ''_acme-challenge.other.test.'' ''token'')) 400 s;
     Some ()
   }"

definition rejects_empty_and_oversized_tokens ::
    "'nm hickory \<Rightarrow> (zone_records \<Rightarrow> zone_records) \<Rightarrow> ('sem, 'body) http_lib \<Rightarrow> 'body test_lib \<Rightarrow>
    int \<Rightarrow> (nat \<Rightarrow> instant) \<Rightarrow> (nat \<Rightarrow> arrival) \<Rightarrow> unit option" where
  "rejects_empty_and_oversized_tokens H ho L T timestamp t a = 
     run_each (\<lambda>v u. do {
         s \<leftarrow> app H (sem_lib L) timestamp (t 0);
         (r, s) \<leftarrow> expect_status H ho L (a 0) Present
           (test_request T (Some (test_auth T KEY)) (json_value T v)) 400 s;
         Some ()
       }) [[], replicate (MAX_TXT_VALUE_LEN + 1) CHR ''x''] ()"

definition cleanup_removes_only_the_requested_token ::
    "'nm hickory \<Rightarrow> (zone_records \<Rightarrow> zone_records) \<Rightarrow> ('sem, 'body) http_lib \<Rightarrow> 'body test_lib \<Rightarrow>
    int \<Rightarrow> (nat \<Rightarrow> instant) \<Rightarrow> (nat \<Rightarrow> arrival) \<Rightarrow> instant \<Rightarrow> unit option" where
  "cleanup_removes_only_the_requested_token H ho L T timestamp t a now = do {
     s \<leftarrow> app H (sem_lib L) timestamp (t 0);
     (r, s) \<leftarrow> expect_status H ho L (a 0) Present
       (test_request T (Some (test_auth T KEY)) (json_value T ''token-one'')) 200 s;
     (r, s) \<leftarrow> expect_status H ho L (a 1) Present
       (test_request T (Some (test_auth T KEY)) (json_value T ''token-two'')) 200 s;
     (r, s) \<leftarrow> expect_status H ho L (a 2) Cleanup
       (test_request T (Some (test_auth T KEY)) (json_body ''_acme-challenge.xip.test.'' ''token-one'')) 200 s;
     let (values, ar) = get_values now ''_acme-challenge.xip.test'' (api_acme s);
     assert_that (values = [''token-two''])
   }"

definition reports_capacity_exhaustion ::
    "'nm hickory \<Rightarrow> (zone_records \<Rightarrow> zone_records) \<Rightarrow> ('sem, 'body) http_lib \<Rightarrow> 'body test_lib \<Rightarrow>
    int \<Rightarrow> (nat \<Rightarrow> instant) \<Rightarrow> (nat \<Rightarrow> arrival) \<Rightarrow> unit option" where
  "reports_capacity_exhaustion H ho L T timestamp t a = do {
     s \<leftarrow> app_with_tokens H (sem_lib L) timestamp (t 0) 1;
     s \<leftarrow> run_each (\<lambda>(index, expected) s. do {
         (r, s) \<leftarrow> expect_status H ho L (a index) Present
           (test_request T (Some (test_auth T KEY)) (json_value T (token_name index))) expected s;
         Some s
       }) [(1, 200), (2, 503)] s;
     Some ()
   }"

text \<open>The loop that presents values until one is refused.\<close>

partial_function (option) fill_api :: "'nm hickory \<Rightarrow> (zone_records \<Rightarrow> zone_records) \<Rightarrow>
    ('sem, 'body) http_lib \<Rightarrow> 'body test_lib \<Rightarrow> (nat \<Rightarrow> arrival) \<Rightarrow> string list \<Rightarrow> ('nm, 'sem) api_state \<Rightarrow>
    (string list \<times> ('nm, 'sem) api_state) option" where
  "fill_api H ho L T a accept s = do {
     let v = filler (length accept);
     (r, s) \<leftarrow> serve H ho L (a (length accept)) Present
       (test_request T (Some (test_auth T KEY)) (json_value T v)) s;
     if status_code r = 200 then fill_api H ho L T a (accept @ [v]) s
     else do {
       assert_that (status_code r = 503);
       assert_that (response_body r =
         JsonError \<lparr>error_text = ''active TXT records have reached DNS TCP capacity''\<rparr>);
       Some (accept, s)
     }
   }"

definition reports_dns_wire_capacity_without_changing_existing_records ::
    "'nm hickory \<Rightarrow> (zone_records \<Rightarrow> zone_records) \<Rightarrow> ('sem, 'body) http_lib \<Rightarrow> 'body test_lib \<Rightarrow>
    int \<Rightarrow> (nat \<Rightarrow> instant) \<Rightarrow> (nat \<Rightarrow> arrival) \<Rightarrow> instant \<Rightarrow> unit option" where
  "reports_dns_wire_capacity_without_changing_existing_records H ho L T timestamp t a now = do {
     s \<leftarrow> app_with_limits H (sem_lib L) timestamp (t 0) USIZE_MAX MAX_CONCURRENT_REQUESTS REQUEST_RATE_PER_SECOND 1000;
     (accept, s) \<leftarrow> fill_api H ho L T a [] s;
     let (values, ar) = get_values now ''_acme-challenge.xip.test'' (api_acme s);
     assert_that (values = accept)
   }"

subsection \<open>What the tests take for granted\<close>

definition base64_law :: "('sem, 'body) http_lib \<Rightarrow> 'body test_lib \<Rightarrow> bool" where
  "base64_law L T \<longleftrightarrow>
     (\<forall>bs. base64_decode L (as_bytes (base64_encode T bs)) = Some bs \<and>
        32 \<notin> set (as_bytes (base64_encode T bs)) \<and> (base64_encode T bs = [] \<longleftrightarrow> bs = [])) \<and>
     base64_decode L (as_bytes ''!!!'') = None"

text \<open>Strings that JSON writes as they are.\<close>

definition plain :: "string \<Rightarrow> bool" where
  "plain s \<longleftrightarrow> set s \<subseteq> set (''ABCDEFGHIJKLMNOPQRSTUVWXYZabcdefghijklmnopqrstuvwxyz'' @ ''0123456789-_.'')"

definition extractor_law :: "('sem, 'body) http_lib \<Rightarrow> 'body test_lib \<Rightarrow> bool" where
  "extractor_law L T \<longleftrightarrow>
     (\<forall>auth s body n. body = body_of T s \<or> body = body_stream T s \<longrightarrow>
        (n < length s \<longrightarrow> (\<exists>r. json_present L n (post_with_body auth body) = Inl r \<and> status_code r = 413)) \<and>
        (length s \<le> n \<longrightarrow> s = ''not json'' \<longrightarrow>
           (\<exists>r. json_present L n (post_with_body auth body) = Inl r \<and> status_code r = 400)) \<and>
        (\<forall>p. length s \<le> n \<longrightarrow> s = json_text p \<longrightarrow> plain (fqdn p) \<longrightarrow> plain (present_value p) \<longrightarrow>
           json_present L n (post_with_body auth body) = Inr p)) \<and>
     (\<forall>p. plain (fqdn p) \<longrightarrow> plain (present_value p) \<longrightarrow> json_of T p = json_text p)"

definition test_libs :: "('sem, 'body) http_lib \<Rightarrow> 'body test_lib \<Rightarrow> bool" where
  "test_libs L T \<longleftrightarrow> semaphore_law (sem_lib L) \<and> ct_eq_law L \<and> base64_law L T \<and> extractor_law L T \<and>
     (\<forall>n. status_code (timeout_response L n) = n)"

subsection \<open>Credentials of the tests\<close>

lemma headers_post [simp]:
  "map_of (headers (post_with_body (Some auth) body)) ''authorization'' = Some (as_bytes auth)"
  "map_of (headers (post_with_body None body)) ''authorization'' = None"
  by (simp_all add: post_with_body_def)

lemma api_key_test [simp]: "api_key api_test_config = KEY"
  by (simp add: api_test_config_def test_config_def KEY_def)

lemma as_bytes_simps: "as_bytes (s @ u) = as_bytes s @ as_bytes u" "as_bytes [] = []"
  by (simp_all add: as_bytes_def)

lemma valid_utf8_test: "valid_utf8 (as_bytes (''user:'' @ KEY))" "valid_utf8 (as_bytes (''user:wrong''))"
  "valid_utf8 (as_bytes KEY)"
  by (rule valid_utf8_ascii; simp add: as_bytes_def KEY_def)+

lemma tok_hd: "32 \<notin> set tok \<Longrightarrow> tok = [] \<or> hd tok \<noteq> (32 :: u8)"
  by (cases tok) auto

lemma good_credentials:
  assumes "test_libs L T" and "eq_ignore_ascii_case scheme ''Basic''"
  shows "check_basic_auth L (headers (post_with_body (Some (scheme @ '' '' @ base64_encode T (as_bytes (''user:'' @ KEY)))) body))
    api_test_config = Inr ()"
proof -
  let ?tok = "as_bytes (base64_encode T (as_bytes (''user:'' @ KEY)))"
  have "basic_header L api_test_config (as_bytes (scheme @ '' '' @ base64_encode T (as_bytes (''user:'' @ KEY))))"
    unfolding basic_header_def
  proof (intro exI conjI)
    show "as_bytes (scheme @ '' '' @ base64_encode T (as_bytes (''user:'' @ KEY))) = as_bytes scheme @ replicate (Suc 0) 32 @ ?tok"
      by (simp add: as_bytes_def)
    show "base64_decode L ?tok = Some (as_bytes (''user'' @ '':'' @ api_key api_test_config))" "32 \<notin> set ?tok" "?tok \<noteq> []"
      using assms(1) by (auto simp: test_libs_def base64_law_def as_bytes_def)
    show "valid_utf8 (as_bytes (''user'' @ '':'' @ api_key api_test_config))" using valid_utf8_test(1) by simp
  qed (use assms(2) in simp_all)
  then show ?thesis using assms(1) by (subst check_basic_auth_eq [of L]) (auto simp: test_libs_def)
qed

lemma test_credentials:
  assumes "test_libs L T"
  shows "check_basic_auth L (headers (post_with_body (Some (test_auth T KEY)) body)) api_test_config = Inr ()"
  using good_credentials [OF assms, of "''Basic''"] by (simp add: test_auth_def eq_ignore_ascii_case_def)

lemma bad_credentials:
  assumes "test_libs L T" and "from_utf8 bs = None \<or> from_utf8 bs = Some d \<and>
    (split_once CHR '':'' d = None \<or> split_once CHR '':'' d = Some (u, pass) \<and> pass \<noteq> KEY)"
  shows "\<exists>m. check_basic_auth L (headers (post_with_body (Some (''Basic '' @ base64_encode T bs)) body))
    api_test_config = Inl m"
proof -
  let ?tok = "as_bytes (base64_encode T bs)"
  have tok: "32 \<notin> set ?tok" "base64_decode L ?tok = Some bs" "ct_eq_law L"
    using assms(1) by (auto simp: test_libs_def base64_law_def)
  have "map_of (headers (post_with_body (Some (''Basic '' @ base64_encode T bs)) body)) ''authorization'' =
      Some (as_bytes ''Basic'' @ 32 # replicate 0 32 @ ?tok)"
    by (simp add: as_bytes_def)
  from check_basic_auth_parts [OF this no_space_basic tok_hd [OF tok(1)], of L api_test_config] show ?thesis
    using assms(2) tok by (auto simp: eq_ignore_ascii_case_def ct_eq_law_def)
qed

subsection \<open>Requests that are let in\<close>

text \<open>A server of the tests that can admit \<open>k\<close> more requests, whatever its clock reads.\<close>

definition ready :: "('sem, 'body) http_lib \<Rightarrow> nat \<Rightarrow> ('nm, 'sem) api_state \<Rightarrow> bool" where
  "ready L k s \<longleftrightarrow> api_config s = api_test_config \<and> gate_ok (api_gate s) \<and>
     0 < permits (sem_lib L) (api_gate s) \<and> of_nat k \<le> tokens (rate (api_gate s))"

lemma check_ready:
  assumes "gate_ok g" and "of_nat (Suc k) \<le> tokens (rate g)"
  shows "fst (check_rate now g) \<and> of_nat k \<le> tokens (rate (snd (check_rate now g)))"
proof -
  have b: "bucket_ok (rate g)" using assms(1) by (simp add: gate_ok_def)
  have "of_nat (Suc k) \<le> refilled now (rate g)" using refilled_ge [OF b, of now] assms(2) by linarith
  then show ?thesis using check_bucket_tokens [OF b, of now] by simp
qed

lemma authorize_ready:
  assumes libs: "test_libs L T" and s: "ready L (Suc k) s"
    and auth: "check_basic_auth L (headers req) api_test_config = Inr ()"
    and handler: "\<And>s1. api_config s1 = api_test_config \<Longrightarrow> api_acme s1 = api_acme s \<Longrightarrow>
      nxt req s1 = Some (r, s1\<lparr>api_acme := ar\<rparr>)"
  shows "\<exists>s'. authorize_and_admit L now nxt req s = Some (r, s') \<and> ready L k s' \<and> api_acme s' = ar"
proof -
  have law: "semaphore_law (sem_lib L)" using libs by (simp add: test_libs_def)
  have r: "api_config s = api_test_config" "gate_ok (api_gate s)" "0 < permits (sem_lib L) (api_gate s)"
    "of_nat (Suc k) \<le> tokens (rate (api_gate s))" using s by (simp_all add: ready_def)
  let ?g = "snd (check_rate now (api_gate s))"
  obtain g' where g': "try_acquire (sem_lib L) ?g = Some g'"
    using try_acquire_None [OF law, of ?g] r(3) by auto
  let ?s' = "s\<lparr>api_gate := release_permit (sem_lib L) g', api_acme := ar\<rparr>"
  have "nxt req (s\<lparr>api_gate := g'\<rparr>) = Some (r, s\<lparr>api_gate := g'\<rparr>\<lparr>api_acme := ar\<rparr>)"
    by (rule handler) (simp_all add: r(1))
  with r(1) auth check_ready [OF r(2,4), of now] g'
  have "authorize_and_admit L now nxt req s = Some (r, ?s')"
    by (simp add: authorize_and_admit_def case_prod_unfold Let_def)
  moreover have "ready L k ?s'"
    using check_ready [OF r(2,4), of now] r try_acquire_Some [OF law g'] permits_release [OF law]
      gate.check_wf [OF r(2), of now]
    by (simp add: ready_def gate_ok_def release_permit_def permits_def)
  ultimately show ?thesis by auto
qed

lemma serve_present_ready:
  assumes libs: "test_libs L T" and s: "ready L (Suc k) s" and "in_time a"
    and auth: "check_basic_auth L (headers req) api_test_config = Inr ()"
    and json: "json_present L MAX_REQUEST_BODY_LEN req = Inr b"
  shows "validate_request b api_test_config = Inl e \<Longrightarrow>
      \<exists>s'. serve H ho L a Present req s = Some (into_response e, s') \<and> ready L k s' \<and> api_acme s' = api_acme s"
    and "validate_request b api_test_config = Inr n \<Longrightarrow>
      add H ho (at_store a) (at_deadline a) n (present_value b) (api_acme s) = Some (res, ar) \<Longrightarrow>
      \<exists>s'. serve H ho L a Present req s =
        Some (json_result (case res of Inl e \<Rightarrow> Inl (add_error_response e) | Inr u \<Rightarrow> Inr ()), s') \<and>
        ready L k s' \<and> api_acme s' = ar"
    and "validate_request b api_test_config = Inr n \<Longrightarrow>
      \<exists>s'. serve H ho L a Cleanup req s = Some (json_result (Inr ()), s') \<and> ready L k s' \<and>
        api_acme s' = remove (at_store a) n (present_value b) (api_acme s)"
  unfolding serve_def route.case
  by (rule authorize_ready [OF libs s auth]; simp add: inner_layers_def json assms(3) present_def
      cleanup_def json_result_def)+

lemma serve_rejected_ready:
  assumes libs: "test_libs L T" and s: "ready L (Suc k) s"
    and auth: "check_basic_auth L (headers req) api_test_config = Inr ()"
  shows "in_time a \<Longrightarrow> json_present L MAX_REQUEST_BODY_LEN req = Inl r \<Longrightarrow>
      \<exists>s'. serve H ho L a Present req s = Some (r, s') \<and> ready L k s' \<and> api_acme s' = api_acme s"
    and "\<not> in_time a \<Longrightarrow>
      \<exists>s'. serve H ho L a Present req s = Some (timeout_response L 408, s') \<and> ready L k s' \<and> api_acme s' = api_acme s"
  unfolding serve_def route.case
  by (rule authorize_ready [OF libs s auth]; simp add: inner_layers_def)+

lemma serve_unauthorized:
  assumes "check_basic_auth L (headers req) (api_config s) = Inl m"
  shows "serve H ho L a Present req s = Some (unauthorized m, s)"
  using assms by (simp add: serve_def authorize_and_admit_def)

lemma unauthorized_sel [simp]:
  "status_code (unauthorized m) = 401"
  "response_headers (unauthorized m) =
     [(''www-authenticate'', ''Basic realm='' @ quoted ''safexip'' @ '', charset='' @ quoted ''UTF-8'')]"
  by (simp_all add: unauthorized_def into_response_def make_error_def quoted_def)

subsection \<open>The requests of the tests\<close>

lemma plain_simps [simp]: "plain []" "plain (s @ u) \<longleftrightarrow> plain s \<and> plain u" "plain (replicate n CHR ''x'')"
    "plain (replicate n CHR ''0'')"
  by (auto simp: plain_def)

lemma plain_show_nat [simp]: "plain (show_nat i)"
proof -
  have "list_all (\<lambda>d. plain [digit_char d]) [0..<10]" by code_simp
  then have "plain [digit_char d]" if "d < 10" for d using that by (simp add: list_all_iff)
  then show ?thesis using show_nat_digits [of _ i] unfolding plain_def [of "show_nat i"] by (auto simp: plain_def [of "[_]"])
qed

lemma plain_test [simp]: "plain ''token''" "plain ''token-''" "plain ''token-one''" "plain ''token-two''"
    "plain ''_acme-challenge.xip.test.''" "plain ''_AcMe-Challenge.XIP.TEST.''" "plain ''_acme-challenge.other.test.''"
  by (simp_all add: plain_def)

lemma plain_filler [simp]: "plain (filler i)"
  by (simp add: filler_def)

lemma length_json_text: "length (json_text p) = length (fqdn p) + length (present_value p) + 22"
  by (simp add: json_text_def quoted_def)

lemma extract_test:
  assumes "test_libs L T" and "body = body_of T s \<or> body = body_stream T s"
  shows "n < length s \<Longrightarrow> \<exists>r. json_present L n (post_with_body auth body) = Inl r \<and> status_code r = 413"
    and "length s \<le> n \<Longrightarrow> s = ''not json'' \<Longrightarrow>
      \<exists>r. json_present L n (post_with_body auth body) = Inl r \<and> status_code r = 400"
    and "length s \<le> n \<Longrightarrow> s = json_text p \<Longrightarrow> plain (fqdn p) \<Longrightarrow> plain (present_value p) \<Longrightarrow>
      json_present L n (post_with_body auth body) = Inr p"
  using assms unfolding test_libs_def extractor_law_def by blast+

lemma json_request:
  assumes "test_libs L T" and "plain n" and "plain v" and "length n + length v \<le> 1002"
  shows "json_present L MAX_REQUEST_BODY_LEN (test_request T auth (json_body n v)) = Inr \<lparr>fqdn = n, present_value = v\<rparr>"
    and "n = ''_acme-challenge.xip.test.'' \<Longrightarrow> json_value T v = json_body n v"
proof -
  let ?p = "\<lparr>fqdn = n, present_value = v\<rparr>"
  have "length (json_text ?p) \<le> MAX_REQUEST_BODY_LEN"
    using assms(4) by (simp add: length_json_text MAX_REQUEST_BODY_LEN_def)
  then show "json_present L MAX_REQUEST_BODY_LEN (test_request T auth (json_body n v)) = Inr ?p"
    unfolding test_request_def json_body_def
    using assms(2,3) by (intro extract_test(3) [OF assms(1) disjI1 [OF refl]]) simp_all
  show "n = ''_acme-challenge.xip.test.'' \<Longrightarrow> json_value T v = json_body n v"
    using assms(1-3) by (simp add: test_libs_def extractor_law_def json_body_def json_value_def)
qed

lemma validate_test:
  "v \<noteq> [] \<Longrightarrow> length v \<le> 255 \<Longrightarrow> f = ''_acme-challenge.xip.test.'' \<or> f = ''_AcMe-Challenge.XIP.TEST.'' \<Longrightarrow>
     validate_request \<lparr>fqdn = f, present_value = v\<rparr> api_test_config = Inr ''_acme-challenge.xip.test''"
  "\<exists>e. validate_request \<lparr>fqdn = ''_acme-challenge.other.test.'', present_value = v\<rparr> api_test_config = Inl e \<and> fst e = 400"
  "v = [] \<or> 255 < length v \<Longrightarrow> \<exists>e. validate_request \<lparr>fqdn = f, present_value = v\<rparr> api_test_config = Inl e \<and> fst e = 400"
proof -
  have n: "acme_name api_test_config = ''_acme-challenge.xip.test''" by (simp add: acme_name_def api_test_config_def test_config_def)
  have "to_lowercase (trim_end_matches CHR ''.'' ''_acme-challenge.xip.test.'') = ''_acme-challenge.xip.test''"
    "to_lowercase (trim_end_matches CHR ''.'' ''_AcMe-Challenge.XIP.TEST.'') = ''_acme-challenge.xip.test''"
    "to_lowercase (trim_end_matches CHR ''.'' ''_acme-challenge.other.test.'') = ''_acme-challenge.other.test''"
    by code_simp+
  note v = this validate_request_eq_Inr [of "\<lparr>fqdn = _, present_value = v\<rparr>" api_test_config, unfolded n]
  have inl: "\<exists>e. r = Inl e \<and> fst e = 400" if "r = validate_request b c" "\<And>n. r \<noteq> Inr n" for r :: "(nat \<times> error_response) + string" and b c
    using that validate_request_Inl [of b c] by (metis sum.exhaust)
  show "v \<noteq> [] \<Longrightarrow> length v \<le> 255 \<Longrightarrow> f = ''_acme-challenge.xip.test.'' \<or> f = ''_AcMe-Challenge.XIP.TEST.'' \<Longrightarrow>
      validate_request \<lparr>fqdn = f, present_value = v\<rparr> api_test_config = Inr ''_acme-challenge.xip.test''"
    by (auto simp: v Suc_le_eq)
  show "\<exists>e. validate_request \<lparr>fqdn = ''_acme-challenge.other.test.'', present_value = v\<rparr> api_test_config = Inl e \<and> fst e = 400"
    by (rule inl [OF refl]) (simp add: v)
  show "v = [] \<or> 255 < length v \<Longrightarrow> \<exists>e. validate_request \<lparr>fqdn = f, present_value = v\<rparr> api_test_config = Inl e \<and> fst e = 400"
    by (rule inl [OF refl]) (auto simp: v)
qed

subsection \<open>The servers of the tests\<close>

lemma app_start:
  assumes "from_config H api_test_config = Some cap" and "test_libs L T"
  shows "0 \<le> rps \<Longrightarrow> brst \<le> 2 ^ 53 \<Longrightarrow> 0 < mc \<Longrightarrow>
      \<exists>s. app_with_limits H (sem_lib L) timestamp now mx mc rps brst = Some s \<and> ready L brst s \<and>
        filled (duration_from_secs 60) mx cap c n [] (api_acme s)"
    and "\<exists>s. app_with_tokens H (sem_lib L) timestamp now mx = Some s \<and> ready L 100 s \<and>
        filled (duration_from_secs 60) mx cap c n [] (api_acme s)"
    and "\<exists>s. app H (sem_lib L) timestamp now = Some s \<and> ready L 100 s \<and>
        filled (duration_from_secs 60) 10 cap c n [] (api_acme s)"
proof -
  let ?ar = "\<lambda>mx. new_records timestamp (duration_from_secs 60) mx cap"
  have ar: "api_records H timestamp mx = Some (?ar mx)" for mx using assms(1) by (simp add: api_records_def)
  have fl: "filled (duration_from_secs 60) mx cap c n [] (?ar mx)" for mx by (simp add: new_records_def filled_start)
  have avail: "sem_available (sem_lib L) (sem_new (sem_lib L) mc) = mc" for mc
    using assms(2) by (simp add: test_libs_def semaphore_law_def)
  have r: "ready L brst (router_with_limits (sem_lib L) now api_test_config (?ar mx) mc rps brst)"
    if "0 \<le> rps" "brst \<le> 2 ^ 53" "0 < mc" for rps brst mc mx
    using that new_gate_ok [OF that(1,2), of "sem_lib L" now mc] avail
    by (simp add: ready_def router_with_limits_def permits_def gate_ok_def) (simp add: new_gate_def f64_of_nat_exact)
  have router: "router (sem_lib L) now api_test_config (?ar mx) = router_with_limits (sem_lib L) now api_test_config (?ar mx) 64 20 100" for mx
    by (simp add: router_def api_test_config_def test_config_def saturating_mul_def USIZE_MAX_def REQUEST_RATE_BURST_def
        MAX_CONCURRENT_REQUESTS_def REQUEST_RATE_PER_SECOND_def)
  show "0 \<le> rps \<Longrightarrow> brst \<le> 2 ^ 53 \<Longrightarrow> 0 < mc \<Longrightarrow>
      \<exists>s. app_with_limits H (sem_lib L) timestamp now mx mc rps brst = Some s \<and> ready L brst s \<and>
        filled (duration_from_secs 60) mx cap c n [] (api_acme s)"
    using r [of rps brst mc mx] fl [of mx] by (simp add: app_with_limits_def ar) (simp add: router_with_limits_def)
  show "\<exists>s. app_with_tokens H (sem_lib L) timestamp now mx = Some s \<and> ready L 100 s \<and>
      filled (duration_from_secs 60) mx cap c n [] (api_acme s)"
    using r [of 20 100 64 mx] fl [of mx] by (simp add: app_with_tokens_def ar router) (simp add: router_with_limits_def)
  show "\<exists>s. app H (sem_lib L) timestamp now = Some s \<and> ready L 100 s \<and>
      filled (duration_from_secs 60) 10 cap c n [] (api_acme s)"
    using r [of 20 100 64 10] fl [of 10] by (simp add: app_def ar router) (simp add: router_with_limits_def)
qed

subsection \<open>Presenting to a store that a test has filled\<close>

abbreviation "test_name \<equiv> ''_acme-challenge.xip.test''"

text \<open>All requests of a test are in time and within the lifetime of the tokens it presents.\<close>

definition prompt :: "(nat \<Rightarrow> arrival) \<Rightarrow> bool" where
  "prompt a \<longleftrightarrow> (\<forall>i. in_time (a i)) \<and>
     (\<forall>i j. at_store (a i) < plus_duration (at_deadline (a j)) (duration_from_secs 60))"

abbreviation presented :: "nat \<Rightarrow> 'nm acme_wire_capacity \<Rightarrow> (nat \<Rightarrow> arrival) \<Rightarrow> string list \<Rightarrow> ('nm, 'sem) api_state \<Rightarrow> bool" where
  "presented mx cap a vs s \<equiv>
     filled (duration_from_secs 60) mx cap (\<lambda>i. at_deadline (a i)) test_name vs (api_acme s)"

lemma present_filled:
  assumes libs: "test_libs L T" and s: "ready L (Suc k) s" "presented mx cap a vs s" and "prompt a" and "fair_order ho"
    and auth: "check_basic_auth L (headers req) api_test_config = Inr ()"
    and json: "json_present L MAX_REQUEST_BODY_LEN req = Inr \<lparr>fqdn = f, present_value = v\<rparr>"
    and f: "f = ''_acme-challenge.xip.test.'' \<or> f = ''_AcMe-Challenge.XIP.TEST.''"
    and v: "v \<noteq> []" "length v \<le> 255" "v \<notin> set vs"
  shows "length vs < mx \<Longrightarrow> fits H cap (vs @ [v]) = Some b \<Longrightarrow>
      \<exists>r s'. serve H ho L (a i) Present req s = Some (r, s') \<and> ready L k s' \<and>
        presented mx cap a (if b then vs @ [v] else vs) s' \<and> status_code r = (if b then 200 else 503) \<and>
        (\<not> b \<longrightarrow> response_body r = JsonError \<lparr>error_text = ''active TXT records have reached DNS TCP capacity''\<rparr>)"
    and "mx \<le> length vs \<Longrightarrow>
      \<exists>r s'. serve H ho L (a i) Present req s = Some (r, s') \<and> ready L k s' \<and> presented mx cap a vs s' \<and>
        status_code r = 503"
proof -
  have t: "in_time (a i)" "\<And>j. at_store (a i) < plus_duration (at_deadline (a j)) (duration_from_secs 60)"
    using assms(4) by (simp_all add: prompt_def)
  note served = serve_present_ready(2) [where H = H and ho = ho, OF libs s(1) t(1) auth json validate_test(1) [OF v(1,2) f]]
  show "\<exists>r s'. serve H ho L (a i) Present req s = Some (r, s') \<and> ready L k s' \<and>
      presented mx cap a (if b then vs @ [v] else vs) s' \<and> status_code r = (if b then 200 else 503) \<and>
      (\<not> b \<longrightarrow> response_body r = JsonError \<lparr>error_text = ''active TXT records have reached DNS TCP capacity''\<rparr>)"
    if "length vs < mx" "fits H cap (vs @ [v]) = Some b"
  proof -
    note room = that
    obtain ar where ar: "add H ho (at_store (a i)) (at_deadline (a i)) test_name v (api_acme s) =
        Some (if b then Inr () else Inl DnsWireCapacityReached, ar)"
      "filled (duration_from_secs 60) mx cap (\<lambda>i. at_deadline (a i)) test_name (if b then vs @ [v] else vs) ar"
      using filled_add [OF s(2) t(2) assms(5) v(3) room, of i] by blast
    from served [of "if b then Inr () else Inl DnsWireCapacityReached" ar] ar show ?thesis
      by (auto simp: json_result_def into_response_def service_unavailable_def make_error_def)
  qed
  show "\<exists>r s'. serve H ho L (a i) Present req s = Some (r, s') \<and> ready L k s' \<and> presented mx cap a vs s' \<and>
      status_code r = 503" if "mx \<le> length vs"
    using served [of "Inl TokenLimitReached" "api_acme s"] filled_full [OF s(2) t(2) v(3) that, of H ho "at_deadline (a i)"] s(2)
    by (auto simp: json_result_def into_response_def service_unavailable_def make_error_def)
qed

text \<open>The requests that the tests build with \<open>json!\<close>.\<close>

abbreviation "token_request T v \<equiv> test_request T (Some (test_auth T KEY)) (json_value T v)"

lemma token_request:
  assumes "test_libs L T" and "plain v" and "length v \<le> 900"
  shows "check_basic_auth L (headers (token_request T v)) api_test_config = Inr ()"
    and "json_present L MAX_REQUEST_BODY_LEN (token_request T v) =
      Inr \<lparr>fqdn = ''_acme-challenge.xip.test.'', present_value = v\<rparr>"
proof -
  show "check_basic_auth L (headers (token_request T v)) api_test_config = Inr ()"
    unfolding test_request_def by (rule test_credentials [OF assms(1)])
  show "json_present L MAX_REQUEST_BODY_LEN (token_request T v) =
      Inr \<lparr>fqdn = ''_acme-challenge.xip.test.'', present_value = v\<rparr>"
    using json_request [OF assms(1) plain_test(5) assms(2)] assms(3) by simp
qed

lemma present_token:
  assumes "test_libs L T" and "ready L (Suc k) s" "presented mx cap a vs s" and "prompt a" and "fair_order ho"
    and "plain v" and v: "v \<noteq> []" "length v \<le> 255" "v \<notin> set vs"
  shows "length vs < mx \<Longrightarrow> fits H cap (vs @ [v]) = Some b \<Longrightarrow>
      \<exists>r s'. serve H ho L (a i) Present (token_request T v) s = Some (r, s') \<and> ready L k s' \<and>
        presented mx cap a (if b then vs @ [v] else vs) s' \<and> status_code r = (if b then 200 else 503) \<and>
        (\<not> b \<longrightarrow> response_body r = JsonError \<lparr>error_text = ''active TXT records have reached DNS TCP capacity''\<rparr>)"
    and "mx \<le> length vs \<Longrightarrow>
      \<exists>r s'. serve H ho L (a i) Present (token_request T v) s = Some (r, s') \<and> ready L k s' \<and>
        presented mx cap a vs s' \<and> status_code r = 503"
  using v(2)
  by (rule_tac present_filled [OF assms(1-5) token_request [OF assms(1,6)] disjI1 [OF refl] v]; simp)+

subsection \<open>They pass\<close>

lemma expect_serve: "serve H ho L a rt req s = Some (r, s') \<Longrightarrow> status_code r = n \<Longrightarrow>
    expect_status H ho L a rt req n s = Some (r, s')"
  by (simp add: expect_status_def)

lemma expect_401:
  "ready L k s \<Longrightarrow> check_basic_auth L (headers req) api_test_config = Inl m \<Longrightarrow>
     expect_status H ho L a Present req 401 s = Some (unauthorized m, s)"
  by (intro expect_serve serve_unauthorized) (simp_all add: ready_def)

lemma app_obtain:
  assumes "from_config H api_test_config = Some cap" and "test_libs L T"
  obtains s where "\<And>i. app H (sem_lib L) timestamp (t i) = Some (s i)" "\<And>i. ready L 100 (s i)" "\<And>i. presented 10 cap a [] (s i)"
proof (rule that [of "\<lambda>i. the (app H (sem_lib L) timestamp (t i))"])
  note start = app_start(3) [OF assms, of timestamp _ "\<lambda>i. at_deadline (a i)" test_name]
  show "app H (sem_lib L) timestamp (t i) = Some (the (app H (sem_lib L) timestamp (t i)))" for i
    using start [of "t i"] by auto
  show "ready L 100 (the (app H (sem_lib L) timestamp (t i)))" "presented 10 cap a [] (the (app H (sem_lib L) timestamp (t i)))" for i
    using start [of "t i"] by auto
qed

lemma bad_headers:
  assumes "test_libs L T"
  shows "\<exists>m. check_basic_auth L (headers (post_with_body (Some ''Bearer token'') body)) api_test_config = Inl m"
    and "\<exists>m. check_basic_auth L (headers (post_with_body (Some ''Basic !!!'') body)) api_test_config = Inl m"
proof -
  have "map_of (headers (post_with_body (Some ''Bearer token'') body)) ''authorization'' =
      Some (as_bytes ''Bearer'' @ 32 # replicate 0 32 @ as_bytes ''token'')"
    and "32 \<notin> set (as_bytes ''Bearer'')" and "as_bytes ''token'' = [] \<or> hd (as_bytes ''token'') \<noteq> 32"
    and "\<not> eq_ignore_ascii_case ''Bearer'' ''Basic''"
    by (simp_all add: as_bytes_def) code_simp
  from check_basic_auth_parts [OF this(1-3), of L api_test_config] this(4)
  show "\<exists>m. check_basic_auth L (headers (post_with_body (Some ''Bearer token'') body)) api_test_config = Inl m"
    by simp
  have "map_of (headers (post_with_body (Some ''Basic !!!'') body)) ''authorization'' =
      Some (as_bytes ''Basic'' @ 32 # replicate 0 32 @ as_bytes ''!!!'')"
    and "32 \<notin> set (as_bytes ''Basic'')" and "as_bytes ''!!!'' = [] \<or> hd (as_bytes ''!!!'') \<noteq> 32"
    by (simp_all add: as_bytes_def)
  from check_basic_auth_parts [OF this, of L api_test_config] assms
  show "\<exists>m. check_basic_auth L (headers (post_with_body (Some ''Basic !!!'') body)) api_test_config = Inl m"
    by (auto simp: test_libs_def base64_law_def split: option.split)
qed

lemma run_each_stays: "(\<And>x. x \<in> set xs \<Longrightarrow> f x s = Some s) \<Longrightarrow> run_each f xs s = Some s"
  by (induction xs) simp_all

lemma split_once_absent: "c \<notin> set s \<Longrightarrow> split_once c s = None"
  by (induction s) auto

lemma api_auth_tests_pass:
  assumes cap: "from_config H api_test_config = Some cap" and libs: "test_libs L T"
  shows "rejects_missing_and_incorrect_authentication H ho L T timestamp t a = Some ()"
    and "rejects_malformed_basic_authentication H ho L T timestamp t a = Some ()"
proof -
  obtain s where s: "\<And>i. app H (sem_lib L) timestamp (t i) = Some (s i)" "\<And>i. ready L 100 (s i)" "\<And>i. presented 10 cap a [] (s i)"
    by (rule app_obtain [OF cap libs, of timestamp t a]) (rule that)
  have missing: "check_basic_auth L (headers (test_request T None b)) api_test_config = Inl ''missing Basic auth''" for b
    by (simp add: check_basic_auth_def test_request_def)
  have "from_utf8 (as_bytes (''user:wrong'')) = Some ''user:wrong''" by (simp only: from_utf8_eq_Some valid_utf8_test)
  moreover have "split_once CHR '':'' ''user:wrong'' = Some (''user'', ''wrong'')" by (simp add: split_once_eq_Some)
  ultimately have wrong: "\<exists>m. check_basic_auth L (headers (test_request T (Some (test_auth T ''wrong'')) b)) api_test_config = Inl m" for b
    using bad_credentials [OF libs, of "as_bytes (''user:wrong'')" "''user:wrong''" "''user''" "''wrong''"]
    unfolding test_request_def test_auth_def by (simp add: KEY_def)
  have ok: "\<exists>r. expect_status H ho L b Present (test_request T (Some au) body) 401 (s i) = Some (r, s i) \<and> ''www-authenticate'' \<in> fst ` set (response_headers r)"
    if "\<exists>m. check_basic_auth L (headers (test_request T (Some au) body)) api_test_config = Inl m" for au body b i
    using that expect_401 [OF s(2)] by fastforce
  obtain r where "expect_status H ho L (a 1) Present (test_request T (Some (test_auth T ''wrong''))
      (json_body ''_acme-challenge.xip.test.'' ''token'')) 401 (s 1) = Some (r, s 1)"
    using ok [OF wrong] by blast
  then show "rejects_missing_and_incorrect_authentication H ho L T timestamp t a = Some ()"
    by (simp add: rejects_missing_and_incorrect_authentication_def s(1) expect_401 [OF s(2) missing])
  have "from_utf8 (as_bytes KEY) = Some KEY" by (simp only: from_utf8_eq_Some valid_utf8_test)
  moreover have "split_once CHR '':'' KEY = None" by (rule split_once_absent) (simp add: KEY_def)
  ultimately have no_colon: "from_utf8 (as_bytes KEY) = None \<or> from_utf8 (as_bytes KEY) = Some KEY \<and>
      (split_once CHR '':'' KEY = None \<or> split_once CHR '':'' KEY = Some ([], []) \<and> [] \<noteq> KEY)"
    by blast
  have no_text: "from_utf8 ([0xFF, 58] @ as_bytes KEY) = None \<or> from_utf8 ([0xFF, 58] @ as_bytes KEY) = Some [] \<and>
      (split_once CHR '':'' [] = None \<or> split_once CHR '':'' [] = Some ([], []) \<and> [] \<noteq> KEY)"
    by (simp add: from_utf8_def)
  have "\<exists>m. check_basic_auth L (headers (test_request T (Some au) b)) api_test_config = Inl m"
    if "au \<in> {''Bearer token'', ''Basic !!!'', ''Basic '' @ base64_encode T (as_bytes KEY),
      ''Basic '' @ base64_encode T ([0xFF, 58] @ as_bytes KEY)}" for au b
    using that bad_headers [OF libs, of "body_of T b"] bad_credentials [OF libs no_colon, of "body_of T b"]
      bad_credentials [OF libs no_text, of "body_of T b"]
    unfolding test_request_def by (elim insertE emptyE; simp only:)
  note bad = ok [OF this]
  show "rejects_malformed_basic_authentication H ho L T timestamp t a = Some ()"
    unfolding rejects_malformed_basic_authentication_def Let_def
  proof (rule run_each_stays)
    fix au
    assume au: "au \<in> set [''Bearer token'', ''Basic !!!'', ''Basic '' @ base64_encode T (as_bytes KEY),
      ''Basic '' @ base64_encode T ([0xFF, 58] @ as_bytes KEY)]"
    obtain r where "expect_status H ho L (a 0) Present (test_request T (Some au)
        (json_body ''_acme-challenge.xip.test.'' ''token'')) 401 (s 0) = Some (r, s 0)"
      "''www-authenticate'' \<in> fst ` set (response_headers r)"
      using bad [of au] au by (metis (no_types, lifting) list.set)
    then show "do {
         s \<leftarrow> app H (sem_lib L) timestamp (t 0);
         (r, s) \<leftarrow> expect_status H ho L (a 0) Present
           (test_request T (Some au) (json_body ''_acme-challenge.xip.test.'' ''token'')) 401 s;
         assert_that (''www-authenticate'' \<in> fst ` set (response_headers r))
       } = Some ()"
      by (simp add: s(1))
  qed
qed

text \<open>A request with the right credentials whose body is not accepted.\<close>

lemma expect_rejected:
  assumes libs: "test_libs L T" and s: "ready L (Suc k) s" and "in_time a"
    and json: "\<exists>r. json_present L MAX_REQUEST_BODY_LEN (post_with_body (Some (test_auth T KEY)) body) = Inl r \<and> status_code r = n"
  shows "\<exists>r s'. expect_status H ho L a Present (post_with_body (Some (test_auth T KEY)) body) n s = Some (r, s') \<and> ready L k s'"
proof -
  obtain r where "json_present L MAX_REQUEST_BODY_LEN (post_with_body (Some (test_auth T KEY)) body) = Inl r" "status_code r = n"
    using json by blast
  with serve_rejected_ready(1) [OF libs s test_credentials [OF libs] assms(3), of body r H ho] expect_serve show ?thesis by blast
qed

lemma expect_invalid:
  assumes libs: "test_libs L T" and s: "ready L (Suc k) s" and "in_time a"
    and json: "json_present L MAX_REQUEST_BODY_LEN (test_request T (Some (test_auth T KEY)) body) = Inr b"
    and "\<exists>e. validate_request b api_test_config = Inl e \<and> fst e = n"
  shows "\<exists>r s'. expect_status H ho L a Present (test_request T (Some (test_auth T KEY)) body) n s = Some (r, s') \<and> ready L k s'"
proof -
  obtain e where e: "validate_request b api_test_config = Inl e" "fst e = n" using assms(5) by blast
  have auth: "check_basic_auth L (headers (test_request T (Some (test_auth T KEY)) body)) api_test_config = Inr ()"
    unfolding test_request_def by (rule test_credentials [OF libs])
  from serve_present_ready(1) [OF libs s assms(3) auth json e(1), of H ho] e(2) show ?thesis
    by (auto simp: expect_status_def into_response_def)
qed

lemma ready_100: "ready L 100 s \<longleftrightarrow> ready L (Suc 99) s"
  by simp

lemma api_body_tests_pass:
  assumes cap: "from_config H api_test_config = Some cap" and libs: "test_libs L T" and "prompt a"
  shows "rejects_authentication_before_parsing_the_body H ho L T timestamp t a = Some ()"
    and "rejects_oversized_bodies_with_and_without_a_known_length H ho L T timestamp t a = Some ()"
    and "rejects_names_that_the_dns_server_cannot_answer H ho L T timestamp t a = Some ()"
    and "rejects_empty_and_oversized_tokens H ho L T timestamp t a = Some ()"
proof -
  obtain s where s: "\<And>i. app H (sem_lib L) timestamp (t i) = Some (s i)" "\<And>i. ready L 100 (s i)" "\<And>i. presented 10 cap a [] (s i)"
    by (rule app_obtain [OF cap libs, of timestamp t a]) (rule that)
  note r = s(2) [unfolded ready_100]
  have time: "in_time (a i)" for i using assms(3) by (simp add: prompt_def)
  have missing: "check_basic_auth L (headers (test_request T None b)) api_test_config = Inl ''missing Basic auth''" for b
    by (simp add: check_basic_auth_def test_request_def)
  have "length ''not json'' \<le> MAX_REQUEST_BODY_LEN" by (simp add: MAX_REQUEST_BODY_LEN_def)
  note unread = extract_test(2) [OF libs disjI1 [OF refl] this refl]
  obtain q s' where "expect_status H ho L (a 1) Present (test_request T (Some (test_auth T KEY)) ''not json'') 400 (s 1) = Some (q, s')"
    using expect_rejected [OF libs r time unread] unfolding test_request_def by blast
  then show "rejects_authentication_before_parsing_the_body H ho L T timestamp t a = Some ()"
    by (simp add: rejects_authentication_before_parsing_the_body_def s(1) expect_401 [OF s(2) missing])
  let ?big = "replicate (MAX_REQUEST_BODY_LEN + 1) CHR ''x''"
  have "MAX_REQUEST_BODY_LEN < length ?big" by simp
  note known = extract_test(1) [OF libs disjI1 [OF refl] this] and unknown = extract_test(1) [OF libs disjI2 [OF refl] this]
  obtain q s' where "expect_status H ho L (a 0) Present (test_request T (Some (test_auth T KEY)) ?big) 413 (s 0) = Some (q, s')"
    using expect_rejected [OF libs r time known] unfolding test_request_def by blast
  moreover obtain q s' where "expect_status H ho L (a 1) Present (post_with_body (Some (test_auth T KEY)) (body_stream T ?big)) 413 (s 1) = Some (q, s')"
    using expect_rejected [OF libs r time unknown] by blast
  ultimately show "rejects_oversized_bodies_with_and_without_a_known_length H ho L T timestamp t a = Some ()"
    by (simp only: rejects_oversized_bodies_with_and_without_a_known_length_def s(1) Let_def) simp
  have "json_present L MAX_REQUEST_BODY_LEN (test_request T (Some (test_auth T KEY)) (json_body ''_acme-challenge.other.test.'' ''token'')) =
      Inr \<lparr>fqdn = ''_acme-challenge.other.test.'', present_value = ''token''\<rparr>"
    by (rule json_request(1) [OF libs]) simp_all
  from expect_invalid [OF libs r time this validate_test(2)] obtain q s' where
    "expect_status H ho L (a 0) Present (test_request T (Some (test_auth T KEY)) (json_body ''_acme-challenge.other.test.'' ''token'')) 400 (s 0) = Some (q, s')"
    by blast
  then show "rejects_names_that_the_dns_server_cannot_answer H ho L T timestamp t a = Some ()"
    by (simp add: rejects_names_that_the_dns_server_cannot_answer_def s(1))
  show "rejects_empty_and_oversized_tokens H ho L T timestamp t a = Some ()"
    unfolding rejects_empty_and_oversized_tokens_def
  proof (rule run_each_stays)
    fix v
    assume v: "v \<in> set [[], replicate (MAX_TXT_VALUE_LEN + 1) CHR ''x'']"
    then have "plain v" "length v \<le> 900" "v = [] \<or> 255 < length v" by (auto simp: MAX_TXT_VALUE_LEN_def)
    from expect_invalid [OF libs r time token_request(2) [OF libs this(1,2)] validate_test(3) [OF this(3)]] obtain q s' where
      "expect_status H ho L (a 0) Present (token_request T v) 400 (s 0) = Some (q, s')" by blast
    then show "do {
         s \<leftarrow> app H (sem_lib L) timestamp (t 0);
         (r, s) \<leftarrow> expect_status H ho L (a 0) Present (token_request T v) 400 s;
         Some ()
       } = Some ()" by (simp add: s(1))
  qed
qed

text \<open>A few short values always fit in an answer.\<close>

definition room :: "'nm hickory \<Rightarrow> 'nm acme_wire_capacity \<Rightarrow> bool" where
  "room H cap \<longleftrightarrow> (\<forall>vs. length vs \<le> 12 \<longrightarrow> (\<forall>v\<in>set vs. length v \<le> 9) \<longrightarrow> fits H cap vs = Some True)"

lemma expect_present:
  assumes "test_libs L T" and "ready L (Suc k) s" "presented mx cap a vs s" and "prompt a" and "fair_order ho" and "room H cap"
    and auth: "check_basic_auth L (headers req) api_test_config = Inr ()"
    and json: "json_present L MAX_REQUEST_BODY_LEN req = Inr \<lparr>fqdn = f, present_value = v\<rparr>"
    and f: "f = ''_acme-challenge.xip.test.'' \<or> f = ''_AcMe-Challenge.XIP.TEST.''"
    and v: "v \<noteq> []" "length v \<le> 9" "v \<notin> set vs" and vs: "\<forall>v\<in>set vs. length v \<le> 9" "length vs < 12" "length vs < mx"
  shows "\<exists>r s'. expect_status H ho L (a i) Present req 200 s = Some (r, s') \<and> ready L k s' \<and> presented mx cap a (vs @ [v]) s'"
proof -
  have "fits H cap (vs @ [v]) = Some True" using assms(6) v(2) vs(1,2) by (simp add: room_def)
  moreover have "length v \<le> 255" using v(2) by simp
  ultimately show ?thesis
    using present_filled(1) [where b = True and i = i, OF assms(1-5) auth json f v(1) _ v(3) vs(3)] expect_serve by fastforce
qed

lemma expect_token:
  assumes "test_libs L T" and "ready L (Suc k) s" "presented mx cap a vs s" and "prompt a" and "fair_order ho" and "room H cap"
    and v: "plain v" "v \<noteq> []" "length v \<le> 9" "v \<notin> set vs" and vs: "\<forall>v\<in>set vs. length v \<le> 9" "length vs < 12" "length vs < mx"
  shows "\<exists>r s'. expect_status H ho L (a i) Present (token_request T v) 200 s = Some (r, s') \<and> ready L k s' \<and>
    presented mx cap a (vs @ [v]) s'"
proof -
  have "length v \<le> 900" using v(3) by simp
  from expect_present [OF assms(1-6) token_request [OF assms(1) v(1) this] disjI1 [OF refl] v(2-4) vs] show ?thesis .
qed

lemma token_name_inj: "token_name i = token_name j \<longleftrightarrow> i = j"
proof
  assume "token_name i = token_name j"
  then have "parse_digits (max i j) 0 (show_nat i) = parse_digits (max i j) 0 (show_nat j)" by (simp add: token_name_def)
  then show "i = j" by (simp add: parse_digits_show_nat)
qed simp

lemma token_name_facts [simp]: "plain (token_name i)" "token_name i \<noteq> []"
  by (simp_all only: token_name_def plain_simps plain_test plain_show_nat) simp_all

lemma length_token_name: "i < 100 \<Longrightarrow> length (token_name i) \<le> 9"
  using length_show_nat [of i 1] by (simp add: token_name_def)

lemma present_each:
  assumes libs: "test_libs L T" and "prompt a" and "fair_order ho" and "room H cap"
    and "ready L (length is + k) s" and "presented mx cap a vs s" and "distinct is"
    and "\<forall>i\<in>set is. i < 100 \<and> token_name i \<notin> set vs" and "\<forall>v\<in>set vs. length v \<le> 9"
    and "length vs + length is \<le> 12" and "length vs + length is \<le> mx"
  shows "\<exists>s'. run_each (\<lambda>index s. do {
         (r, s) \<leftarrow> expect_status H ho L (a index) Present
           (test_request T (Some (test_auth T KEY)) (json_value T (token_name index))) 200 s;
         Some s
       }) is s = Some s' \<and> ready L k s' \<and> presented mx cap a (vs @ map token_name is) s'"
  using assms(5-)
proof (induction "is" arbitrary: vs s)
  case (Cons i "is")
  have i: "length (token_name i) \<le> 9" using length_token_name Cons.prems(4) by simp
  have "ready L (Suc (length is + k)) s" using Cons.prems(1) by simp
  from expect_token [OF libs this Cons.prems(2) assms(2-4) _ _ i(1), of i] Cons.prems obtain r s' where
    s': "expect_status H ho L (a i) Present (token_request T (token_name i)) 200 s = Some (r, s')" "ready L (length is + k) s'"
      "presented mx cap a (vs @ [token_name i]) s'" by auto
  have "distinct is" "\<forall>j\<in>set is. j < 100 \<and> token_name j \<notin> set (vs @ [token_name i])"
    "\<forall>v\<in>set (vs @ [token_name i]). length v \<le> 9" "length (vs @ [token_name i]) + length is \<le> 12"
    "length (vs @ [token_name i]) + length is \<le> mx"
    using Cons.prems i token_name_inj by auto
  from Cons.IH [OF s'(2,3) this] s'(1) show ?case by simp
qed auto

lemma api_present_tests_pass:
  assumes cap: "from_config H api_test_config = Some cap" and libs: "test_libs L T" and "prompt a" and "fair_order ho" and "room H cap"
    and now: "\<And>j. now < plus_duration (at_deadline (a j)) (duration_from_secs 60)"
  shows "accepts_basic_scheme_case_insensitively H ho L T timestamp t a = Some ()"
    and "accepts_the_configured_challenge_name_case_insensitively H ho L T timestamp t a = Some ()"
    and "mset order = mset [0..<12] \<Longrightarrow> allows_a_normal_concurrent_lego_burst H ho L T timestamp t a order now = Some ()"
proof -
  obtain s where s: "\<And>i. app H (sem_lib L) timestamp (t i) = Some (s i)" "\<And>i. ready L 100 (s i)" "\<And>i. presented 10 cap a [] (s i)"
    by (rule app_obtain [OF cap libs, of timestamp t a]) (rule that)
  note r = s(2) [unfolded ready_100]
  note present = expect_present [OF libs r s(3) assms(3-5)]
  have "replace_first ''Basic'' ''bAsIc'' (test_auth T KEY) = ''bAsIc'' @ '' '' @ base64_encode T (as_bytes (''user:'' @ KEY))"
    by (simp add: test_auth_def)
  moreover have "eq_ignore_ascii_case ''bAsIc'' ''Basic''" by code_simp
  ultimately have "check_basic_auth L (headers (test_request T (Some (replace_first ''Basic'' ''bAsIc'' (test_auth T KEY))) b)) api_test_config = Inr ()" for b
    unfolding test_request_def using good_credentials [OF libs, of "''bAsIc''"] by simp
  then have "\<exists>q s'. expect_status H ho L (a 0) Present (test_request T (Some (replace_first ''Basic'' ''bAsIc'' (test_auth T KEY)))
        (json_body ''_acme-challenge.xip.test.'' ''token'')) 200 (s 0) = Some (q, s') \<and> ready L 99 s' \<and>
        presented 10 cap a ([] @ [''token'']) s'"
    using json_request(1) [OF libs, of "''_acme-challenge.xip.test.''" "''token''"] by (intro present [where f = "''_acme-challenge.xip.test.''"]) simp_all
  then show "accepts_basic_scheme_case_insensitively H ho L T timestamp t a = Some ()"
    by (auto simp: accepts_basic_scheme_case_insensitively_def s(1) simp del: replace_first.simps)
  have "\<exists>q s'. expect_status H ho L (a 0) Present (test_request T (Some (test_auth T KEY))
        (json_body ''_AcMe-Challenge.XIP.TEST.'' ''token'')) 200 (s 0) = Some (q, s') \<and> ready L 99 s' \<and>
        presented 10 cap a ([] @ [''token'']) s'"
    using json_request(1) [OF libs, of "''_AcMe-Challenge.XIP.TEST.''" "''token''"] test_credentials [OF libs]
    by (intro present [where f = "''_AcMe-Challenge.XIP.TEST.''"]) (simp_all add: test_request_def)
  then show "accepts_the_configured_challenge_name_case_insensitively H ho L T timestamp t a = Some ()"
    by (auto simp: accepts_the_configured_challenge_name_case_insensitively_def s(1))
  assume "mset order = mset [0..<12]"
  then have order: "distinct order" "set order = {0..<12}" "length order = 12"
    by (metis distinct_upt mset_eq_imp_distinct_iff, metis set_upt mset_eq_setD, metis mset_eq_length length_upt diff_zero)
  obtain s0 where s0: "app_with_tokens H (sem_lib L) timestamp (t 0) 20 = Some s0" "ready L 100 s0" "presented 20 cap a [] s0"
    using app_start(2) [OF cap libs] by blast
  have "ready L (length order + 88) s0" using s0(2) order(3) by simp
  from present_each [OF libs assms(3-5) this s0(3) order(1)] order(2,3) obtain s1 where
    s1: "run_each (\<lambda>index s. do {
         (r, s) \<leftarrow> expect_status H ho L (a index) Present
           (test_request T (Some (test_auth T KEY)) (json_value T (token_name index))) 200 s;
         Some s
       }) order s0 = Some s1" "presented 20 cap a (map token_name order) s1" by auto
  from filled_get [OF s1(2) now] order(3) s0(1) s1(1)
  show "allows_a_normal_concurrent_lego_burst H ho L T timestamp t a order now = Some ()"
    by (simp add: allows_a_normal_concurrent_lego_burst_def case_prod_unfold Let_def)
qed

subsection \<open>The tests of the limits\<close>

lemma api_limit_tests_pass:
  assumes cap: "from_config H api_test_config = Some cap" and libs: "test_libs L T" and "prompt a" and "fair_order ho" and "room H cap"
    and now: "\<And>j. now < plus_duration (at_deadline (a j)) (duration_from_secs 60)"
  shows "times_out_an_incomplete_authenticated_body H ho L T timestamp t a = Some ()"
    and "cleanup_removes_only_the_requested_token H ho L T timestamp t a now = Some ()"
    and "reports_capacity_exhaustion H ho L T timestamp t a = Some ()"
proof -
  obtain s where s: "app_with_limits H (sem_lib L) timestamp (t 0) 10 1 100 10 = Some s" "ready L (Suc 9) s"
    using app_start(1) [OF cap libs, of 100 10 1 timestamp "t 0" 10] by auto
  have "\<exists>s'. serve H ho L ((a 0)\<lparr>in_time := False\<rparr>) Present (post_with_body (Some (test_auth T KEY)) (body_pending T)) s =
      Some (timeout_response L 408, s') \<and> ready L 9 s' \<and> api_acme s' = api_acme s"
    by (rule serve_rejected_ready(2) [OF libs s(2) test_credentials [OF libs]]) simp
  moreover have "status_code (timeout_response L 408) = 408" using libs by (simp add: test_libs_def)
  ultimately show "times_out_an_incomplete_authenticated_body H ho L T timestamp t a = Some ()"
    using s(1) by (auto simp: times_out_an_incomplete_authenticated_body_def expect_status_def)
  obtain s0 where s0: "app H (sem_lib L) timestamp (t 0) = Some s0" "ready L (Suc 99) s0" "presented 10 cap a [] s0"
    using app_start(3) [OF cap libs, of timestamp "t 0" "\<lambda>i. at_deadline (a i)" test_name] by auto
  obtain q1 s1 where s1: "expect_status H ho L (a 0) Present (token_request T ''token-one'') 200 s0 = Some (q1, s1)"
      "ready L (Suc 98) s1" "presented 10 cap a [''token-one''] s1"
    using expect_token [OF libs s0(2,3) assms(3-5), of "''token-one''" 0] by auto
  obtain q2 s2 where s2: "expect_status H ho L (a 1) Present (token_request T ''token-two'') 200 s1 = Some (q2, s2)"
      "ready L (Suc 97) s2" "presented 10 cap a [''token-one'', ''token-two''] s2"
    using expect_token [OF libs s1(2,3) assms(3-5), of "''token-two''" 1] by auto
  let ?req = "test_request T (Some (test_auth T KEY)) (json_body ''_acme-challenge.xip.test.'' ''token-one'')"
  have json: "json_present L MAX_REQUEST_BODY_LEN ?req = Inr \<lparr>fqdn = ''_acme-challenge.xip.test.'', present_value = ''token-one''\<rparr>"
    by (rule json_request(1) [OF libs]) simp_all
  have auth: "check_basic_auth L (headers ?req) api_test_config = Inr ()"
    unfolding test_request_def by (rule test_credentials [OF libs])
  have time: "in_time (a 2)" "\<And>j. at_store (a 2) < plus_duration (at_deadline (a j)) (duration_from_secs 60)"
    using assms(3) by (simp_all add: prompt_def)
  have "validate_request \<lparr>fqdn = ''_acme-challenge.xip.test.'', present_value = ''token-one''\<rparr> api_test_config = Inr test_name"
    by (rule validate_test(1)) simp_all
  from serve_present_ready(3) [where H = H and ho = ho, OF libs s2(2) time(1) auth json this] obtain s3 where
    s3: "serve H ho L (a 2) Cleanup ?req s2 = Some (json_result (Inr ()), s3)"
      "api_acme s3 = remove (at_store (a 2)) test_name ''token-one'' (api_acme s2)" by auto
  have "presented 10 cap a [''token-two''] s3"
    using filled_remove [OF s2(3) time(2), of "''token-one''"] s3(2) by simp
  moreover have "expect_status H ho L (a 2) Cleanup ?req 200 s2 = Some (json_result (Inr ()), s3)"
    by (rule expect_serve [OF s3(1)]) (simp add: json_result_def)
  ultimately show "cleanup_removes_only_the_requested_token H ho L T timestamp t a now = Some ()"
    using filled_get [OF _ now] s0(1) s1(1) s2(1)
    by (simp add: cleanup_removes_only_the_requested_token_def case_prod_unfold Let_def)
  obtain s4 where s4: "app_with_tokens H (sem_lib L) timestamp (t 0) 1 = Some s4" "ready L (Suc 99) s4" "presented 1 cap a [] s4"
    using app_start(2) [OF cap libs, of timestamp "t 0" 1 "\<lambda>i. at_deadline (a i)" test_name] by auto
  obtain q5 s5 where s5: "expect_status H ho L (a 1) Present (token_request T (token_name 1)) 200 s4 = Some (q5, s5)"
      "ready L (Suc 98) s5" "presented 1 cap a [token_name 1] s5"
    using expect_token [OF libs s4(2,3) assms(3-5), of "token_name 1" 1] by (auto simp: length_token_name)
  obtain q6 s6 where "serve H ho L (a 2) Present (token_request T (token_name 2)) s5 = Some (q6, s6)" "status_code q6 = 503"
    using present_token(2) [where v = "token_name 2" and i = 2 and H = H, OF libs s5(2,3) assms(3,4)] length_token_name [of 2] token_name_inj [of 2 1] by auto
  with s4(1) s5(1) show "reports_capacity_exhaustion H ho L T timestamp t a = Some ()"
    by (simp add: reports_capacity_exhaustion_def expect_serve)
qed

text \<open>A bucket that is never refilled.\<close>

lemma present_gate:
  assumes "present H ho now later b s = Some (r, s')"
  shows "api_gate s' = api_gate s"
proof (cases "validate_request b (api_config s)")
  case (Inr n)
  with assms have "\<exists>ar. s' = s\<lparr>api_acme := ar\<rparr>"
    by (cases "add H ho now later n (present_value b) (api_acme s)") (auto simp: present_def)
  then show ?thesis by auto
qed (use assms in \<open>simp add: present_def\<close>)

lemma serve_rate:
  assumes "test_libs L T" and "check_basic_auth L (headers req) (api_config s) = Inr ()"
    and "serve H ho L a Present req s = Some (r, s')"
  shows "rate (api_gate s') = snd (check_bucket (at_gate a) (rate (api_gate s)))"
proof -
  have law: "semaphore_law (sem_lib L)" using assms(1) by (simp add: test_libs_def)
  show ?thesis
    using assms(2,3)
    by (auto simp: serve_def authorize_and_admit_def inner_layers_def case_prod_unfold Let_def
        bind_eq_Some_conv release_permit_def split: if_splits option.splits sum.splits
        dest!: present_gate try_acquire_Some [OF law])
qed

lemma refilled_rate_zero: "bucket_ok b \<Longrightarrow> rate_per_second b = 0 \<Longrightarrow> refilled now b = tokens b"
  by (simp add: refilled_def bucket_ok_def f64_round_id f64_rep_nonneg min_def)

lemma rate_test_passes:
  assumes cap: "from_config H api_test_config = Some cap" and libs: "test_libs L T" and "prompt a" and "fair_order ho" and "room H cap"
  shows "rate_limit_has_a_burst_and_retry_header H ho L T timestamp t a = Some ()"
proof -
  obtain s0 where s0: "app_with_limits H (sem_lib L) timestamp (t 0) 10 2 0 2 = Some s0" "ready L 2 s0" "presented 10 cap a [] s0"
    using app_start(1) [OF cap libs, of 0 2 2 timestamp "t 0" 10 "\<lambda>i. at_deadline (a i)" test_name] by auto
  have r0: "ready L (Suc 1) s0" using s0(2) by (simp add: numeral_2_eq_2)
  obtain q1 s1 where s1: "expect_status H ho L (a 0) Present (token_request T (token_name 0)) 200 s0 = Some (q1, s1)"
      "ready L (Suc 0) s1" "presented 10 cap a [token_name 0] s1"
    using expect_token [OF libs r0 s0(3) assms(3-5), of "token_name 0" 0] by (auto simp: length_token_name)
  obtain q2 s2 where s2: "expect_status H ho L (a 1) Present (token_request T (token_name 1)) 200 s1 = Some (q2, s2)"
      "ready L 0 s2" "presented 10 cap a [token_name 0, token_name 1] s2"
    using expect_token [OF libs s1(2,3) assms(3-5), of "token_name 1" 1] token_name_inj [of 1 0] by (auto simp: length_token_name)
  have auth: "check_basic_auth L (headers (token_request T v)) api_test_config = Inr ()" for v
    unfolding test_request_def by (rule test_credentials [OF libs])
  have step: "rate (api_gate s') = snd (check_bucket (at_gate (a i)) (rate (api_gate s)))"
    if "expect_status H ho L (a i) Present (token_request T v) 200 s = Some (q, s')" "ready L k s" for i v s k q s'
    using that serve_rate [OF libs, of "token_request T v" s H ho "a i"] auth
    by (auto simp: expect_status_def ready_def bind_eq_Some_conv split: if_splits)
  have b0: "rate (api_gate s0) = \<lparr>tokens = 2, last_refill = t 0, rate_per_second = 0, burst = 2\<rparr>"
    using s0(1) f64_of_nat_exact [of 2]
    by (auto simp: app_with_limits_def router_with_limits_def new_gate_def bind_eq_Some_conv)
  have ok: "bucket_ok (rate (api_gate s))" if "ready L k s" for k s using that by (simp add: ready_def gate_ok_def)
  have t1: "tokens (rate (api_gate s1)) = 1" "rate_per_second (rate (api_gate s1)) = 0"
    using step [OF s1(1) s0(2)] check_bucket_tokens(2) [OF ok [OF s0(2)], of "at_gate (a 0)"]
      refilled_rate_zero [OF ok [OF s0(2)]] b0 by simp_all
  have t2: "tokens (rate (api_gate s2)) = 0" "rate_per_second (rate (api_gate s2)) = 0"
    using step [OF s2(1) s1(2)] check_bucket_tokens(2) [OF ok [OF s1(2)], of "at_gate (a 1)"]
      refilled_rate_zero [OF ok [OF s1(2)]] t1 by simp_all
  have "\<not> fst (check_rate (at_gate (a 2)) (api_gate s2))"
    using check_bucket_tokens(1) [OF ok [OF s2(2)], of "at_gate (a 2)"] refilled_rate_zero [OF ok [OF s2(2)]] t2 by simp
  then obtain s3 where "serve H ho L (a 2) Present (token_request T (token_name 2)) s2 = Some (rate_limited, s3)"
    using auth s2(2) by (auto simp: serve_def authorize_and_admit_def ready_def case_prod_unfold Let_def)
  then have "expect_status H ho L (a 2) Present (token_request T (token_name 2)) 429 s2 = Some (rate_limited, s3)"
    by (rule expect_serve) (simp add: rate_limited_def into_response_def make_error_def)
  moreover have "map_of (response_headers rate_limited) ''retry-after'' = Some ''1''"
    by (simp add: rate_limited_def)
  ultimately show ?thesis using s0(1) s1(1) s2(1) by (simp add: rate_limit_has_a_burst_and_retry_header_def)
qed

lemma exhaustion_test_passes:
  assumes cap: "from_config H api_test_config = Some cap" and libs: "test_libs L T" and "prompt a" and "fair_order ho" and "room H cap"
  shows "rejects_and_recovers_from_concurrency_exhaustion H ho L T timestamp t a = Some ()"
proof -
  have law: "semaphore_law (sem_lib L)" using libs by (simp add: test_libs_def)
  obtain s0 where s0: "app_with_limits H (sem_lib L) timestamp (t 0) 10 1 100 10 = Some s0" "ready L (Suc 9) s0" "presented 10 cap a [] s0"
    using app_start(1) [OF cap libs, of 100 10 1 timestamp "t 0" 10 "\<lambda>i. at_deadline (a i)" test_name] by auto
  have one: "permits (sem_lib L) (api_gate s0) = 1"
    using s0(1) law by (auto simp: app_with_limits_def router_with_limits_def new_gate_def permits_def semaphore_law_def bind_eq_Some_conv)
  have r0: "api_config s0 = api_test_config" "gate_ok (api_gate s0)" "of_nat (Suc 9) \<le> tokens (rate (api_gate s0))"
    using s0(2) by (simp_all add: ready_def)
  let ?held = "post_with_body (Some (test_auth T KEY)) (body_pending T)"
  let ?req = "test_request T (Some (test_auth T KEY)) (json_body ''_acme-challenge.xip.test.'' ''token'')"
  define g1 where "g1 = snd (check_rate (at_gate (a 0)) (api_gate s0))"
  note c1 = check_ready [OF r0(2,3), of "at_gate (a 0)", folded g1_def]
  have ok1: "gate_ok g1" unfolding g1_def by (rule gate.check_wf [OF r0(2)])
  have auth0: "check_basic_auth L (headers ?held) api_test_config = Inr ()" by (rule test_credentials [OF libs])
  have step1: "task_step H ho L ToPresent ?held (CheckRate (at_gate (a 0))) Received s0 = Some (Continue Rated, s0\<lparr>api_gate := g1\<rparr>)"
    using c1 auth0 r0(1) by (simp add: case_prod_unfold Let_def g1_def)
  have "permits (sem_lib L) g1 = 1" using one by (simp add: g1_def)
  then obtain g2 where g2: "try_acquire (sem_lib L) g1 = Some g2"
    using try_acquire_None [OF law, of g1] by (metis not_None_eq zero_neq_one)
  with \<open>permits (sem_lib L) g1 = 1\<close> try_acquire_Some [OF law g2]
  have g2': "permits (sem_lib L) g2 = 0" "rate g2 = rate g1" by simp_all
  have step2: "task_step H ho L ToPresent ?held Acquire Rated (s0\<lparr>api_gate := g1\<rparr>) = Some (Continue Admitted, s0\<lparr>api_gate := g2\<rparr>)"
    using g2 by simp
  have ok2: "gate_ok g2" "of_nat (Suc 8) \<le> tokens (rate g2)" using ok1 c1 g2'(2) by (simp_all add: gate_ok_def)
  define g3 where "g3 = snd (check_rate (at_gate (a 1)) g2)"
  note c3 = check_ready [OF ok2, of "at_gate (a 1)", folded g3_def]
  have p3: "permits (sem_lib L) g3 = 0" "gate_ok g3" using g2'(1) gate.check_wf [OF ok2(1)] by (simp_all add: g3_def)
  have auth: "check_basic_auth L (headers ?req) api_test_config = Inr ()"
    unfolding test_request_def by (rule test_credentials [OF libs])
  have "serve H ho L (a 1) Present ?req (s0\<lparr>api_gate := g2\<rparr>) =
      Some (into_response (service_unavailable ''concurrent request limit reached''), s0\<lparr>api_gate := g3\<rparr>)"
    using auth c3 p3(1) try_acquire_None [OF law, of g3] r0(1)
    by (simp add: serve_def authorize_and_admit_def case_prod_unfold Let_def g3_def)
  then have step3: "expect_status H ho L (a 1) Present ?req 503 (s0\<lparr>api_gate := g2\<rparr>) =
      Some (into_response (service_unavailable ''concurrent request limit reached''), s0\<lparr>api_gate := g3\<rparr>)"
    by (rule expect_serve) (simp add: into_response_def service_unavailable_def make_error_def)
  let ?g4 = "release_permit (sem_lib L) g3"
  have step4: "task_step H ho L ToPresent ?held Disconnect Admitted (s0\<lparr>api_gate := g3\<rparr>) = Some (Gone, s0\<lparr>api_gate := ?g4\<rparr>)"
    by simp
  have r4: "ready L (Suc 7) (s0\<lparr>api_gate := ?g4\<rparr>)"
    using permits_release [OF law, of g3] p3(2) c3 r0(1) by (simp add: ready_def gate_ok_release) (simp add: release_permit_def)
  have "presented 10 cap a [] (s0\<lparr>api_gate := ?g4\<rparr>)" using s0(3) by simp
  from expect_present [OF libs r4 this assms(3-5) auth json_request(1) [OF libs] disjI1 [OF refl], of 2] obtain q s5 where
    "expect_status H ho L (a 2) Present ?req 200 (s0\<lparr>api_gate := ?g4\<rparr>) = Some (q, s5)" by auto
  with s0(1) step1 step2 step3 step4 show ?thesis
    by (simp only: rejects_and_recovers_from_concurrency_exhaustion_def Let_def bind.bind_lunit prod.case assert_bind if_True refl)
qed

lemma fill_api_overflow:
  assumes over: "first_overflow H cap N" "N \<le> 1000" and libs: "test_libs L T" and "prompt a" and order: "fair_order ho"
    and "ready L (N - k + j) s" and "presented USIZE_MAX cap a (fillers k) s" and "k < N"
  shows "\<exists>s'. fill_api H ho L T a (fillers k) s = Some (fillers (N - 1), s') \<and> presented USIZE_MAX cap a (fillers (N - 1)) s'"
  using assms(6-)
proof (induction "N - Suc k" arbitrary: k s)
  case 0
  then have k: "N = Suc k" by simp
  have r: "ready L (Suc j) s" using 0(2) k by simp
  have "fits H cap (fillers k @ [filler k]) = Some False" using over(1) k by (simp add: first_overflow_def)
  moreover have "length (fillers k) < USIZE_MAX" using k over(2) by (simp add: USIZE_MAX_def)
  moreover have "filler k \<noteq> []" "length (filler k) \<le> 255" "filler k \<notin> set (fillers k)"
    using length_filler [of k] k over(2) by (auto simp: filler_in_fillers)
  ultimately obtain q s' where "serve H ho L (a k) Present (token_request T (filler k)) s = Some (q, s')"
      "presented USIZE_MAX cap a (fillers k) s'" "status_code q = 503"
      "response_body q = JsonError \<lparr>error_text = ''active TXT records have reached DNS TCP capacity''\<rparr>"
    using present_token(1) [where b = False and i = k and H = H and v = "filler k", OF libs r 0(3) assms(4) order plain_filler] by auto
  with k show ?case by (subst fill_api.simps) simp
next
  case (Suc d)
  then have k: "Suc k < N" by simp
  have r: "ready L (Suc (N - Suc k + j)) s" using Suc.prems(1) k by (simp add: Suc_diff_Suc)
  have "fits H cap (fillers (Suc k)) = Some True" using over(1) k unfolding first_overflow_def by blast
  then have "fits H cap (fillers k @ [filler k]) = Some True" by simp
  moreover have "length (fillers k) < USIZE_MAX" using k over(2) by (simp add: USIZE_MAX_def)
  moreover have "filler k \<noteq> []" "length (filler k) \<le> 255" "filler k \<notin> set (fillers k)"
    using length_filler [of k] k over(2) by (auto simp: filler_in_fillers)
  ultimately obtain q s' where s': "serve H ho L (a k) Present (token_request T (filler k)) s = Some (q, s')"
      "ready L (N - Suc k + j) s'" "presented USIZE_MAX cap a (fillers (Suc k)) s'" "status_code q = 200"
    using present_token(1) [where b = True and i = k and H = H and v = "filler k", OF libs r Suc.prems(2) assms(4) order plain_filler] by auto
  have "\<exists>s''. fill_api H ho L T a (fillers (Suc k)) s' = Some (fillers (N - 1), s'') \<and> presented USIZE_MAX cap a (fillers (N - 1)) s''"
    using Suc.hyps(2) k s'(2,3) by (intro Suc.hyps(1)) simp_all
  with s'(1,4) show ?case by (subst fill_api.simps) simp
qed

lemma api_wire_test_passes:
  assumes cap: "from_config H api_test_config = Some cap" and libs: "test_libs L T" and "prompt a" and "fair_order ho"
    and over: "first_overflow H cap N" "0 < N" "N \<le> 1000"
    and now: "\<And>j. now < plus_duration (at_deadline (a j)) (duration_from_secs 60)"
  shows "reports_dns_wire_capacity_without_changing_existing_records H ho L T timestamp t a now = Some ()"
proof -
  obtain s0 where s0: "app_with_limits H (sem_lib L) timestamp (t 0) USIZE_MAX MAX_CONCURRENT_REQUESTS REQUEST_RATE_PER_SECOND 1000 = Some s0"
      "ready L 1000 s0" "presented USIZE_MAX cap a [] s0"
    using app_start(1) [OF cap libs, of REQUEST_RATE_PER_SECOND 1000 MAX_CONCURRENT_REQUESTS timestamp "t 0" USIZE_MAX "\<lambda>i. at_deadline (a i)" test_name]
    by (auto simp: REQUEST_RATE_PER_SECOND_def MAX_CONCURRENT_REQUESTS_def)
  have "ready L (N - 0 + (1000 - N)) s0" "presented USIZE_MAX cap a (fillers 0) s0" using s0(2,3) over(3) by simp_all
  from fill_api_overflow [OF over(1,3) libs assms(3,4) this over(2)] obtain s1 where
    s1: "fill_api H ho L T a [] s0 = Some (fillers (N - 1), s1)" "presented USIZE_MAX cap a (fillers (N - 1)) s1" by auto
  from filled_get [OF s1(2) now] s0(1) s1(1) show ?thesis
    by (simp add: reports_dns_wire_capacity_without_changing_existing_records_def case_prod_unfold Let_def)
qed

subsection \<open>An instance\<close>

text \<open>
  Libraries for which what the tests take for granted holds: an encoding without spaces that
  marks every byte, and an extractor that reads exactly the texts \<open>json_text\<close> writes.
\<close>

datatype sample_body = Ready string | Never

definition read_json :: "string \<Rightarrow> present_request option" where
  "read_json s =
     (let r = drop 9 s;
          n = takeWhile (\<lambda>c. c \<noteq> CHR 0x22) r;
          v = takeWhile (\<lambda>c. c \<noteq> CHR 0x22) (drop (length n + 11) r);
          p = \<lparr>fqdn = n, present_value = v\<rparr>
      in if json_text p = s then Some p else None)"

fun unmark :: "bytes \<Rightarrow> bytes option" where
  "unmark [] = Some []"
| "unmark [x] = None"
| "unmark (x # y # bs) =
     (if x = 65 then map_option (\<lambda>r. y # r) (unmark bs)
      else if x = 66 then map_option (\<lambda>r. 32 # r) (unmark bs) else None)"

definition mark :: "bytes \<Rightarrow> string" where
  "mark bs = concat (map (\<lambda>w. if w = 32 then ''BB'' else [CHR ''A'', char_of_byte w]) bs)"

definition plain_response :: "nat \<Rightarrow> http_response" where
  "plain_response n = \<lparr>status_code = n, response_headers = [], response_body = OtherBody []\<rparr>"

definition sample_lib :: "(nat, sample_body) http_lib" where
  "sample_lib =
     \<lparr>base64_decode = unmark, ct_eq = (\<lambda>a b. a = b),
      json_present = (\<lambda>limit req. case request_body req of
          Never \<Rightarrow> Inl (plain_response 408)
        | Ready s \<Rightarrow> if limit < length s then Inl (plain_response 413)
            else case read_json s of None \<Rightarrow> Inl (plain_response 400) | Some p \<Rightarrow> Inr p),
      timeout_response = plain_response, sem_lib = counting_semaphore\<rparr>"

definition sample_test_lib :: "sample_body test_lib" where
  "sample_test_lib =
     \<lparr>base64_encode = mark, body_of = Ready, body_stream = Ready, body_pending = Never, json_of = json_text\<rparr>"

lemma read_json_text:
  assumes "CHR 0x22 \<notin> set (fqdn p)" and "CHR 0x22 \<notin> set (present_value p)"
  shows "read_json (json_text p) = Some p"
proof -
  have "takeWhile (\<lambda>c. c \<noteq> CHR 0x22) (s @ CHR 0x22 # u) = s" if "CHR 0x22 \<notin> set s" for s u
    using that by (induction s) auto
  note cut = this [OF assms(1)] this [OF assms(2)]
  have "drop 9 (json_text p) = fqdn p @ CHR 0x22 # '','' @ quoted ''value'' @ '':'' @ [CHR 0x22] @ present_value p @ CHR 0x22 # ''}''"
    by (simp add: json_text_def quoted_def)
  moreover have "json_text \<lparr>fqdn = fqdn p, present_value = present_value p\<rparr> = json_text p"
    by (simp add: json_text_def)
  ultimately show ?thesis using cut by (simp add: read_json_def quoted_def Let_def)
qed

lemma as_bytes_mark: "as_bytes (mark bs) = concat (map (\<lambda>w. if w = 32 then [66, 66] else [65, w]) bs)"
proof (induction bs)
  case (Cons w bs)
  have "as_bytes (map char_of_byte [w]) = [w]" by (rule as_bytes_map_char_of_byte)
  then have "as_bytes [char_of_byte w] = [w]" by simp
  then have "as_bytes (CHR ''A'' # [char_of_byte w]) = [65, w]" by (simp add: as_bytes_def)
  with Cons show ?case by (auto simp: mark_def as_bytes_simps) (simp_all add: as_bytes_def)
qed (simp add: mark_def as_bytes_def)

lemma mark_facts: "unmark (as_bytes (mark bs)) = Some bs" "32 \<notin> set (as_bytes (mark bs))" "mark bs = [] \<longleftrightarrow> bs = []"
proof -
  show "unmark (as_bytes (mark bs)) = Some bs" unfolding as_bytes_mark by (induction bs) auto
  show "32 \<notin> set (as_bytes (mark bs))" unfolding as_bytes_mark by auto
  show "mark bs = [] \<longleftrightarrow> bs = []" by (cases bs) (auto simp: mark_def)
qed

lemma plain_no_quote: "plain s \<Longrightarrow> CHR 0x22 \<notin> set s"
  by (auto simp: plain_def)

lemma sample_libs: "test_libs sample_lib sample_test_lib"
proof -
  have "read_json ''not json'' = None" by (simp add: read_json_def json_text_def quoted_def)
  then have "extractor_law sample_lib sample_test_lib"
    by (auto simp: extractor_law_def sample_lib_def sample_test_lib_def post_with_body_def plain_response_def
        read_json_text plain_no_quote)
  moreover have "base64_law sample_lib sample_test_lib"
    using mark_facts by (simp add: base64_law_def sample_lib_def sample_test_lib_def as_bytes_def)
  ultimately show ?thesis by (simp add: test_libs_def ct_eq_law_def sample_lib_def plain_response_def)
qed

definition still :: "nat \<Rightarrow> arrival" where
  "still i = \<lparr>at_gate = Instant 0, at_store = Instant 0, at_deadline = Instant 0, in_time = True\<rparr>"

lemma api_tests_pass_at_sample:
  defines "H \<equiv> counting_hickory 150" and "ho \<equiv> (\<lambda>rs. rs)" and "L \<equiv> sample_lib" and "T \<equiv> sample_test_lib"
    and "t \<equiv> (\<lambda>i. Instant 0)" and "a \<equiv> still"
  shows "rejects_missing_and_incorrect_authentication H ho L T 7 t a = Some ()"
    "rejects_malformed_basic_authentication H ho L T 7 t a = Some ()"
    "accepts_basic_scheme_case_insensitively H ho L T 7 t a = Some ()"
    "rejects_authentication_before_parsing_the_body H ho L T 7 t a = Some ()"
    "rejects_oversized_bodies_with_and_without_a_known_length H ho L T 7 t a = Some ()"
    "allows_a_normal_concurrent_lego_burst H ho L T 7 t a (rev [0..<12]) (Instant 0) = Some ()"
    "rate_limit_has_a_burst_and_retry_header H ho L T 7 t a = Some ()"
    "times_out_an_incomplete_authenticated_body H ho L T 7 t a = Some ()"
    "rejects_and_recovers_from_concurrency_exhaustion H ho L T 7 t a = Some ()"
    "accepts_the_configured_challenge_name_case_insensitively H ho L T 7 t a = Some ()"
    "rejects_names_that_the_dns_server_cannot_answer H ho L T 7 t a = Some ()"
    "rejects_empty_and_oversized_tokens H ho L T 7 t a = Some ()"
    "cleanup_removes_only_the_requested_token H ho L T 7 t a (Instant 0) = Some ()"
    "reports_capacity_exhaustion H ho L T 7 t a = Some ()"
    "reports_dns_wire_capacity_without_changing_existing_records H ho L T 7 t a (Instant 0) = Some ()"
proof -
  have order: "fair_order ho" by (simp add: ho_def fair_order_def)
  have prompt: "prompt a" and now: "\<And>j. Instant 0 < plus_duration (at_deadline (a j)) (duration_from_secs 60)"
    by (simp_all add: prompt_def a_def still_def duration_from_secs_def)
  have libs: "test_libs L T" unfolding L_def T_def by (rule sample_libs)
  obtain cap where cap: "from_config H api_test_config = Some cap"
    using counting_capacity [of 150] unfolding H_def test_capacity_def
    by (simp add: from_config_def local_config_def api_test_config_def test_config_def acme_name_def)
  have fits: "fits H cap vs = Some (length vs \<le> 150)" for vs by (simp add: H_def counting_fits)
  then have room: "room H cap" by (simp add: room_def)
  have over: "first_overflow H cap (Suc 150)" unfolding H_def by (rule counting_overflow)
  note rules = api_auth_tests_pass [OF cap libs] api_body_tests_pass [OF cap libs prompt]
    api_present_tests_pass [OF cap libs prompt order room now] api_limit_tests_pass [OF cap libs prompt order room now]
    rate_test_passes [OF cap libs prompt order room] exhaustion_test_passes [OF cap libs prompt order room]
    api_wire_test_passes [OF cap libs prompt order over _ _ now]
  show "rejects_missing_and_incorrect_authentication H ho L T 7 t a = Some ()"
    "rejects_malformed_basic_authentication H ho L T 7 t a = Some ()"
    "accepts_basic_scheme_case_insensitively H ho L T 7 t a = Some ()"
    "rejects_authentication_before_parsing_the_body H ho L T 7 t a = Some ()"
    "rejects_oversized_bodies_with_and_without_a_known_length H ho L T 7 t a = Some ()"
    "allows_a_normal_concurrent_lego_burst H ho L T 7 t a (rev [0..<12]) (Instant 0) = Some ()"
    "rate_limit_has_a_burst_and_retry_header H ho L T 7 t a = Some ()"
    "times_out_an_incomplete_authenticated_body H ho L T 7 t a = Some ()"
    "rejects_and_recovers_from_concurrency_exhaustion H ho L T 7 t a = Some ()"
    "accepts_the_configured_challenge_name_case_insensitively H ho L T 7 t a = Some ()"
    "rejects_names_that_the_dns_server_cannot_answer H ho L T 7 t a = Some ()"
    "rejects_empty_and_oversized_tokens H ho L T 7 t a = Some ()"
    "cleanup_removes_only_the_requested_token H ho L T 7 t a (Instant 0) = Some ()"
    "reports_capacity_exhaustion H ho L T 7 t a = Some ()"
    "reports_dns_wire_capacity_without_changing_existing_records H ho L T 7 t a (Instant 0) = Some ()"
    by (rule rules; simp)+
qed

end
