(* ===== verification/Codec.thy ===== *)
theory Codec
  imports Store_Tests Delivery
begin

text \<open>
  The DNS message format (RFC 1035) as the unit tests of \<open>src/dns.rs\<close> rely on it when they read
  back what the handler sends. As before, the DNS library is the parameter \<open>hickory\<close>; what the
  tests take from it is stated here: messages that have room are read back, names rooted, and
  take no more bytes than their parts without compression; no message is larger than 65535 bytes,
  and a text longer than 255 bytes has no encoding.
\<close>

subsection \<open>Sizes\<close>

definition name_size :: "'nm hickory \<Rightarrow> 'nm \<Rightarrow> nat" where
  "name_size H n = length (to_ascii H n) + 2"

fun data_size :: "'nm hickory \<Rightarrow> 'nm rdata \<Rightarrow> nat" where
  "data_size H (RA ip) = 4"
| "data_size H (RNS n) = name_size H n"
| "data_size H (RTXT vs) = sum_list (map (\<lambda>v. length v + 1) vs)"
| "data_size H (RSOA m r s f t e i) = name_size H m + name_size H r + 20"
| "data_size H (ROther t bs) = length bs"

definition record_size :: "'nm hickory \<Rightarrow> 'nm rr \<Rightarrow> nat" where
  "record_size H r = name_size H (rr_name r) + 10 + data_size H (rr_data r)"

definition question_size :: "'nm hickory \<Rightarrow> 'nm question \<Rightarrow> nat" where
  "question_size H q = name_size H (q_name q) + 4"

definition all_records :: "'nm message \<Rightarrow> 'nm rr list" where
  "all_records m = answers m @ authorities m @ additionals m"

definition message_size :: "'nm hickory \<Rightarrow> 'nm message \<Rightarrow> nat" where
  "message_size H m = 12 + sum_list (map (question_size H) (queries m)) +
     sum_list (map (record_size H) (all_records m)) + (case msg_edns m of None \<Rightarrow> 0 | Some e \<Rightarrow> 11)"

text \<open>The bytes of text a message carries: they are never compressed.\<close>

fun data_text :: "'nm rdata \<Rightarrow> nat" where
  "data_text (RTXT vs) = sum_list (map length vs)"
| "data_text _ = 0"

definition text_size :: "'nm message \<Rightarrow> nat" where
  "text_size m = sum_list (map (\<lambda>r. data_text (rr_data r)) (answers m))"

subsection \<open>Messages that can be written and read back\<close>

fun writable_data :: "'nm rdata \<Rightarrow> bool" where
  "writable_data (RTXT vs) = list_all (\<lambda>v. length v \<le> 255) vs"
| "writable_data (RSOA m r s f t e i) = (f < 2 ^ 31 \<and> t < 2 ^ 31 \<and> e < 2 ^ 31)"
| "writable_data (ROther t bs) = False"
| "writable_data _ = True"

definition CAA :: record_type where "CAA = OtherType 257"
definition CH :: dns_class where "CH = OtherClass 3"
definition Update :: op_code where "Update = OtherOpCode 5"

definition writable :: "'nm message \<Rightarrow> bool" where
  "writable m \<longleftrightarrow> op_code m \<in> {Query, Update} \<and>
     (response_code m \<in> {NoError, FormErr, ServFail, NXDomain, NotImp, Refused} \<or>
      response_code m = BADVERS \<and> msg_edns m \<noteq> None) \<and>
     (\<forall>q\<in>set (queries m). q_type q \<in> {SOA, NS, A, TXT, CAA} \<and> q_class q \<in> {IN, ANY, CH}) \<and>
     (\<forall>r\<in>set (all_records m). writable_data (rr_data r)) \<and>
     (\<forall>e. msg_edns m = Some e \<longrightarrow> 512 \<le> max_payload e)"

text \<open>The number of a response code, \<open>u16::from\<close>; on the wire BADVERS is not told from BADSIG.\<close>

fun rcode_number :: "response_code \<Rightarrow> u16" where
  "rcode_number NoError = 0"
| "rcode_number FormErr = 1"
| "rcode_number ServFail = 2"
| "rcode_number NXDomain = 3"
| "rcode_number NotImp = 4"
| "rcode_number Refused = 5"
| "rcode_number BADVERS = 16"
| "rcode_number (OtherCode n) = n"

definition same_name :: "'nm hickory \<Rightarrow> 'nm \<Rightarrow> 'nm \<Rightarrow> bool" where
  "same_name H n d \<longleftrightarrow> to_ascii H d = name_text H n @ ''.''"

fun same_data :: "'nm hickory \<Rightarrow> 'nm rdata \<Rightarrow> 'nm rdata \<Rightarrow> bool" where
  "same_data H (RA ip) d \<longleftrightarrow> d = RA ip"
| "same_data H (RNS n) d \<longleftrightarrow> (\<exists>n'. d = RNS n' \<and> same_name H n n')"
| "same_data H (RTXT vs) d \<longleftrightarrow> d = RTXT vs"
| "same_data H (RSOA m r s f t e i) d \<longleftrightarrow>
     (\<exists>m' r'. d = RSOA m' r' s f t e i \<and> same_name H m m' \<and> same_name H r r')"
| "same_data H (ROther t bs) d \<longleftrightarrow> d = ROther t bs"

definition same_record :: "'nm hickory \<Rightarrow> 'nm rr \<Rightarrow> 'nm rr \<Rightarrow> bool" where
  "same_record H r d \<longleftrightarrow> same_name H (rr_name r) (rr_name d) \<and> rr_ttl d = rr_ttl r \<and>
     same_data H (rr_data r) (rr_data d)"

definition same_question :: "'nm hickory \<Rightarrow> 'nm question \<Rightarrow> 'nm question \<Rightarrow> bool" where
  "same_question H q d \<longleftrightarrow> same_name H (q_name q) (q_name d) \<and> q_type d = q_type q \<and> q_class d = q_class q"

definition reads_back :: "'nm hickory \<Rightarrow> 'nm message \<Rightarrow> 'nm message \<Rightarrow> bool" where
  "reads_back H m d \<longleftrightarrow> msg_id d = msg_id m \<and> message_type d = message_type m \<and> op_code d = op_code m \<and>
     authoritative d = authoritative m \<and> truncation d = truncation m \<and>
     recursion_desired d = recursion_desired m \<and> recursion_available d = recursion_available m \<and>
     (response_code d = response_code m \<or> response_code m = BADVERS \<and> rcode_number (response_code d) = 16) \<and>
     list_all2 (same_question H) (queries m) (queries d) \<and>
     list_all2 (same_record H) (answers m) (answers d) \<and>
     list_all2 (same_record H) (authorities m) (authorities d) \<and>
     list_all2 (same_record H) (additionals m) (additionals d) \<and>
     msg_edns d = msg_edns m"

subsection \<open>The laws\<close>

definition write_law :: "'nm hickory \<Rightarrow> bool" where
  "write_law H \<longleftrightarrow> (\<forall>m. writable m \<and> message_size H m \<le> 65535 \<longrightarrow>
     (\<exists>raw d. to_vec H m = Some raw \<and> length raw \<le> message_size H m \<and> from_vec H raw = Some d \<and> reads_back H m d))"

definition limit_law :: "'nm hickory \<Rightarrow> bool" where
  "limit_law H \<longleftrightarrow>
     (\<forall>m raw d. to_vec H m = Some raw \<and> from_vec H raw = Some d \<and> \<not> truncation d \<longrightarrow>
        text_size m \<le> length raw \<and> length raw \<le> 65535) \<and>
     (\<forall>m r vs v. r \<in> set (answers m) \<and> rr_data r = RTXT vs \<and> v \<in> set vs \<and> 255 < length v \<longrightarrow> to_vec H m = None) \<and>
     (\<forall>raw. length raw < 12 \<longrightarrow> from_vec H raw = None)"

text \<open>The response code is in the header, which is always sent.\<close>

definition header_law :: "'nm hickory \<Rightarrow> bool" where
  "header_law H \<longleftrightarrow> (\<forall>m raw d. writable m \<and> response_code m \<noteq> BADVERS \<and> to_vec H m = Some raw \<and> from_vec H raw = Some d \<longrightarrow>
     response_code d = response_code m)"

text \<open>\<open>Message::new\<close>, \<open>Message::truncate\<close>, \<open>Message::max_payload\<close>, \<open>Query::query\<close> and the EDNS record.\<close>

definition build_law :: "'nm hickory \<Rightarrow> (u16 \<Rightarrow> message_type \<Rightarrow> op_code \<Rightarrow> 'nm message) \<Rightarrow> bool" where
  "build_law H new \<longleftrightarrow> response_law H \<and>
     (\<forall>i mt opc. new i mt opc = (message_response H i opc)\<lparr>message_type := mt\<rparr>) \<and>
     (\<forall>n t. query_new H n t = \<lparr>q_name = n, q_type = t, q_class = IN\<rparr>) \<and>
     (\<forall>m. truncate_message H m = m\<lparr>truncation := True, answers := [], authorities := [], additionals := []\<rparr>) \<and>
     (\<forall>m. message_max_payload H m = (case msg_edns m of None \<Rightarrow> 512 | Some e \<Rightarrow> max 512 (max_payload e))) \<and>
     version (edns_new H) = 0 \<and> 512 \<le> max_payload (edns_new H) \<and>
     (\<forall>n e. set_max_payload H n e = e\<lparr>max_payload := max 512 n\<rparr>) \<and>
     (\<forall>b e. set_dnssec_ok H b e = e\<lparr>dnssec_ok := b\<rparr>)"

text \<open>The names of the tests are names, and are kept as they are written.\<close>

definition test_names :: "string list" where
  "test_names = [''xip.test'', ''ns1.xip.test'', ''ns2.xip.test'', ''admin.xip.test'',
     ''_acme-challenge.xip.test'', ''_aCMe-cHAlLeNGe.xIp.tEsT'', ''XiP.TeSt'', ''127-0-0-1.xip.test'',
     ''127-0-0-1.xIp.TeSt'', ''missing.xip.test'', ''totally-bogus.xip.test'', ''example.com'']"

definition names_law :: "'nm hickory \<Rightarrow> bool" where
  "names_law H \<longleftrightarrow> (\<forall>s\<in>set test_names. \<exists>n. from_ascii H s = Inr n \<and> to_ascii H n = s)"

definition message_format :: "'nm hickory \<Rightarrow> (u16 \<Rightarrow> message_type \<Rightarrow> op_code \<Rightarrow> 'nm message) \<Rightarrow> bool" where
  "message_format H new \<longleftrightarrow> write_law H \<and> limit_law H \<and> header_law H \<and> shape_law H \<and> build_law H new \<and> names_law H"

end
