(* ===== verification/Dns_Tests.thy ===== *)
theory Dns_Tests
  imports Codec
begin

text \<open>
  The unit tests of \<open>src/dns.rs\<close> on the model, from the bytes of a query to what a client reads
  back. \<open>new\<close> is \<open>Message::new\<close>, \<open>c i\<close> the clock at operation \<open>i\<close> of a test. All records of the
  model are of class IN, so the assertions that say so have no counterpart.
\<close>

subsection \<open>What the tests use\<close>

type_synonym 'nm new_message = "u16 \<Rightarrow> message_type \<Rightarrow> op_code \<Rightarrow> 'nm message"

definition make_config :: config where
  "make_config =
     \<lparr>domain = ''xip.test'', ns_hostname = ''ns1.xip.test'', ns_hostname2 = ''ns2.xip.test'',
      dns_bind = V4 (Ipv4 0 0 0 0), dns_port = 53, api_bind = V4 (Ipv4 127 0 0 1), api_port = 8080,
      ns_ip = Ipv4 127 0 0 1, api_key = ''0123456789abcdef0123456789abcdef'', txt_ttl = 60,
      default_ttl = 60, token_lifetime_secs = 600, max_tokens = 100\<rparr>"

definition dns_acme :: "'nm hickory \<Rightarrow> int \<Rightarrow> 'nm acme_records option" where
  "dns_acme H timestamp = do {
     capacity \<leftarrow> from_config H make_config;
     Some (new_records timestamp (duration_from_secs 60) 100 capacity)
   }"

definition dns_acme_with_serial :: "'nm hickory \<Rightarrow> nat \<Rightarrow> u32 \<Rightarrow> 'nm acme_records option" where
  "dns_acme_with_serial H mx ser = do {
     capacity \<leftarrow> from_config H make_config;
     Some (with_serial (duration_from_secs 60) mx capacity ser)
   }"

definition test_handler :: "'nm acme_records \<Rightarrow> 'nm dns_handler" where
  "test_handler ar = \<lparr>config = make_config, acme = ar\<rparr>"

definition query_msg :: "'nm hickory \<Rightarrow> 'nm new_message \<Rightarrow> string \<Rightarrow> record_type \<Rightarrow> bytes option" where
  "query_msg H new name qtype = do {
     n \<leftarrow> unwrap (from_ascii H name);
     let m = (new 1 QueryMessage Query)\<lparr>recursion_desired := True\<rparr>;
     to_vec H (add_query (query_new H n qtype) m)
   }"

definition run_query :: "'nm hickory \<Rightarrow> 'nm new_message \<Rightarrow> instant \<Rightarrow> 'nm dns_handler \<Rightarrow> string \<Rightarrow> record_type \<Rightarrow>
    ('nm message \<times> 'nm dns_handler) option" where
  "run_query H new now h name qtype = do {
     raw \<leftarrow> query_msg H new name qtype;
     (resp_bytes, h) \<leftarrow> handle H now raw h;
     d \<leftarrow> from_vec H resp_bytes;
     Some (d, h)
   }"

fun serial_in :: "'nm rr list \<Rightarrow> u32 option" where
  "serial_in [] = None"
| "serial_in (r # rs) = (case rr_data r of RSOA m rn s f t e i \<Rightarrow> Some s | _ \<Rightarrow> serial_in rs)"

fun record_type_of :: "'nm rdata \<Rightarrow> record_type" where   \<comment> \<open>\<open>Record::record_type\<close>\<close>
  "record_type_of (RA ip) = A"
| "record_type_of (RNS n) = NS"
| "record_type_of (RTXT vs) = TXT"
| "record_type_of (RSOA m r s f t e i) = SOA"
| "record_type_of (ROther t bs) = OtherType t"

subsection \<open>Challenge records\<close>

definition acme_challenge_a_is_nodata_not_nxdomain ::
    "'nm hickory \<Rightarrow> 'nm new_message \<Rightarrow> int \<Rightarrow> (nat \<Rightarrow> instant) \<Rightarrow> unit option" where
  "acme_challenge_a_is_nodata_not_nxdomain H new timestamp c = do {
     ar \<leftarrow> dns_acme H timestamp;
     let h = test_handler ar;
     (resp, h) \<leftarrow> run_query H new (c 0) h ''_acme-challenge.xip.test'' A;
     assert_that (response_code resp \<noteq> NXDomain);
     assert_that (response_code resp = NoError);
     assert_that (answers resp = [])
   }"

definition acme_challenge_txt_no_token_is_nodata_not_nxdomain ::
    "'nm hickory \<Rightarrow> 'nm new_message \<Rightarrow> int \<Rightarrow> (nat \<Rightarrow> instant) \<Rightarrow> unit option" where
  "acme_challenge_txt_no_token_is_nodata_not_nxdomain H new timestamp c = do {
     ar \<leftarrow> dns_acme H timestamp;
     let h = test_handler ar;
     (resp, h) \<leftarrow> run_query H new (c 0) h ''_acme-challenge.xip.test'' TXT;
     assert_that (response_code resp \<noteq> NXDomain);
     assert_that (response_code resp = NoError);
     assert_that (answers resp = [])
   }"

definition acme_challenge_txt_with_token_returns_answer ::
    "'nm hickory \<Rightarrow> 'nm new_message \<Rightarrow> (zone_records \<Rightarrow> zone_records) \<Rightarrow> int \<Rightarrow> (nat \<Rightarrow> instant) \<Rightarrow> unit option" where
  "acme_challenge_txt_with_token_returns_answer H new ho timestamp c = do {
     ar \<leftarrow> dns_acme H timestamp;
     ar \<leftarrow> must_add H ho (c 0) ''_acme-challenge.xip.test'' ''token123'' ar;
     let h = test_handler ar;
     (resp, h) \<leftarrow> run_query H new (c 1) h ''_acme-challenge.xip.test'' TXT;
     assert_that (response_code resp = NoError);
     assert_that (length (answers resp) = 1)
   }"

definition concurrent_tokens_are_separate_txt_records ::
    "'nm hickory \<Rightarrow> 'nm new_message \<Rightarrow> (zone_records \<Rightarrow> zone_records) \<Rightarrow> int \<Rightarrow> (nat \<Rightarrow> instant) \<Rightarrow> unit option" where
  "concurrent_tokens_are_separate_txt_records H new ho timestamp c = do {
     ar \<leftarrow> dns_acme H timestamp;
     ar \<leftarrow> must_add H ho (c 0) ''_acme-challenge.xip.test'' ''token-one'' ar;
     ar \<leftarrow> must_add H ho (c 1) ''_acme-challenge.xip.test'' ''token-two'' ar;
     let h = test_handler ar;
     (resp, h) \<leftarrow> run_query H new (c 2) h ''_acme-challenge.xip.test'' TXT;
     assert_that (length (answers resp) = 2);
     assert_that (list_all (\<lambda>answer. case rr_data answer of RTXT vs \<Rightarrow> length vs = 1 | _ \<Rightarrow> False) (answers resp))
   }"

text \<open>\<open>format!("{index:02}{}", "x".repeat(198))\<close>, added twenty times.\<close>

definition long_value :: "nat \<Rightarrow> string" where
  "long_value index = replicate (2 - length (show_nat index)) CHR ''0'' @ show_nat index @ replicate 198 CHR ''x''"

fun add_long :: "'nm hickory \<Rightarrow> (zone_records \<Rightarrow> zone_records) \<Rightarrow> (nat \<Rightarrow> instant) \<Rightarrow> nat list \<Rightarrow>
    'nm acme_records \<Rightarrow> 'nm acme_records option" where
  "add_long H ho c [] ar = Some ar"
| "add_long H ho c (index # is) ar = do {
     ar \<leftarrow> must_add H ho (c index) ''_acme-challenge.xip.test'' (long_value index) ar;
     add_long H ho c is ar
   }"

definition oversized_udp_response_is_truncated ::
    "'nm hickory \<Rightarrow> 'nm new_message \<Rightarrow> (zone_records \<Rightarrow> zone_records) \<Rightarrow> int \<Rightarrow> (nat \<Rightarrow> instant) \<Rightarrow> unit option" where
  "oversized_udp_response_is_truncated H new ho timestamp c = do {
     ar \<leftarrow> dns_acme H timestamp;
     ar \<leftarrow> add_long H ho c [0..<20] ar;
     let h = test_handler ar;
     raw \<leftarrow> query_msg H new ''_acme-challenge.xip.test'' TXT;
     (reply, h) \<leftarrow> handle_udp H (c 20) raw h;
     response \<leftarrow> from_vec H reply;
     assert_that (truncation response);
     assert_that (answers response = []);
     assert_that (length (queries response) = 1);
     again \<leftarrow> to_vec H response;
     assert_that (length again \<le> 512)
   }"

definition large_rrset_is_complete_without_udp_limit ::
    "'nm hickory \<Rightarrow> 'nm new_message \<Rightarrow> (zone_records \<Rightarrow> zone_records) \<Rightarrow> int \<Rightarrow> (nat \<Rightarrow> instant) \<Rightarrow> unit option" where
  "large_rrset_is_complete_without_udp_limit H new ho timestamp c = do {
     ar \<leftarrow> dns_acme H timestamp;
     ar \<leftarrow> add_long H ho c [0..<20] ar;
     let h = test_handler ar;
     raw \<leftarrow> query_msg H new ''_acme-challenge.xip.test'' TXT;
     (reply, h) \<leftarrow> handle H (c 20) raw h;
     response \<leftarrow> from_vec H reply;
     assert_that (\<not> truncation response);
     assert_that (length (answers response) = 20);
     assert_that (list_all (\<lambda>record. to_ascii H (rr_name record) = ''_acme-challenge.xip.test.'' \<and>
       record_type_of (rr_data record) = TXT) (answers response))
   }"

subsection \<open>Apex records and the serial\<close>

text \<open>The body of the loop over the two query types.\<close>

definition owner_semantics ::
    "'nm hickory \<Rightarrow> 'nm new_message \<Rightarrow> (nat \<Rightarrow> instant) \<Rightarrow> record_type \<Rightarrow> 'nm dns_handler \<Rightarrow> 'nm dns_handler option" where
  "owner_semantics H new c qtype h = do {
     (apex, h) \<leftarrow> run_query H new (c 0) h ''XiP.TeSt'' qtype;
     assert_that (response_code apex = NoError);
     assert_that (authoritative apex);
     assert_that (answers apex \<noteq> []);
     assert_that (list_all (\<lambda>record. to_ascii H (rr_name record) = ''xip.test.'' \<and>
       record_type_of (rr_data record) = qtype) (answers apex));
     assert_that (map (to_ascii H \<circ> rr_name) (authorities apex) = [''xip.test.'']);
     assert_that (serial_in (authorities apex) = Some 123);
     (if qtype = SOA then do {
        assert_that (length (answers apex) = 1);
        assert_that (serial_in (answers apex) = Some 123);
        assert_that (additionals apex = [])
      } else do {
        assert_that (length (answers apex) = 2);
        assert_that (length (additionals apex) = 2);
        assert_that (list_all (\<lambda>record. record_type_of (rr_data record) = A \<and>
          to_ascii H (rr_name record) \<in> {''ns1.xip.test.'', ''ns2.xip.test.''}) (additionals apex))
      });
     (existing, h) \<leftarrow> run_query H new (c 1) h ''127-0-0-1.xIp.TeSt'' qtype;
     assert_that (response_code existing = NoError);
     assert_that (authoritative existing);
     assert_that (answers existing = []);
     assert_that (map (to_ascii H \<circ> rr_name) (authorities existing) = [''xip.test.'']);
     assert_that (serial_in (authorities existing) = Some 123);
     assert_that (additionals existing = []);
     (nonexistent, h) \<leftarrow> run_query H new (c 2) h ''missing.xip.test'' qtype;
     assert_that (response_code nonexistent = NXDomain);
     assert_that (authoritative nonexistent);
     assert_that (answers nonexistent = []);
     assert_that (map (to_ascii H \<circ> rr_name) (authorities nonexistent) = [''xip.test.'']);
     assert_that (serial_in (authorities nonexistent) = Some 123);
     assert_that (additionals nonexistent = []);
     (outside, h) \<leftarrow> run_query H new (c 3) h ''example.com'' qtype;
     assert_that (response_code outside = Refused);
     assert_that (\<not> authoritative outside);
     assert_that (answers outside = []);
     assert_that (authorities outside = []);
     assert_that (additionals outside = []);
     Some h
   }"

definition soa_and_ns_follow_authoritative_owner_semantics ::
    "'nm hickory \<Rightarrow> 'nm new_message \<Rightarrow> (nat \<Rightarrow> instant) \<Rightarrow> unit option" where
  "soa_and_ns_follow_authoritative_owner_semantics H new c = do {
     ar \<leftarrow> dns_acme_with_serial H 100 123;
     h \<leftarrow> owner_semantics H new c SOA (test_handler ar);
     h \<leftarrow> owner_semantics H new (\<lambda>i. c (4 + i)) NS h;
     Some ()
   }"

text \<open>The handler and the test share the store: \<open>acme\<close> of the handler is the test's clone.\<close>

definition soa_serial_is_stable_and_tracks_dynamic_zone_changes ::
    "'nm hickory \<Rightarrow> 'nm new_message \<Rightarrow> (zone_records \<Rightarrow> zone_records) \<Rightarrow> (nat \<Rightarrow> instant) \<Rightarrow> unit option" where
  "soa_serial_is_stable_and_tracks_dynamic_zone_changes H new ho c = do {
     ar \<leftarrow> dns_acme_with_serial H 100 500;
     let h = test_handler ar;
     (r1, h) \<leftarrow> run_query H new (c 0) h ''xip.test'' SOA;
     assert_that (serial_in (answers r1) = Some 500);
     assert_that (serial_in (authorities r1) = Some 500);
     (r2, h) \<leftarrow> run_query H new (c 1) h ''xip.test'' SOA;
     assert_that (serial_in (answers r2) = Some 500);
     assert_that (serial_in (authorities r2) = Some 500);
     ar \<leftarrow> must_add H ho (c 2) ''_acme-challenge.xip.test'' ''token'' (acme h);
     (answer, h) \<leftarrow> run_query H new (c 3) (h\<lparr>acme := ar\<rparr>) ''_acme-challenge.xip.test'' TXT;
     assert_that (length (answers answer) = 1);
     assert_that (serial_in (authorities answer) = Some 501);
     let ar = remove (c 4) ''_acme-challenge.xip.test'' ''token'' (acme h);
     (r3, h) \<leftarrow> run_query H new (c 5) (h\<lparr>acme := ar\<rparr>) ''xip.test'' SOA;
     assert_that (serial_in (answers r3) = Some 502);
     assert_that (serial_in (authorities r3) = Some 502)
   }"

subsection \<open>Malformed and unsupported queries\<close>

definition unsupported_query_class_never_receives_in_records ::
    "'nm hickory \<Rightarrow> 'nm new_message \<Rightarrow> int \<Rightarrow> (nat \<Rightarrow> instant) \<Rightarrow> unit option" where
  "unsupported_query_class_never_receives_in_records H new timestamp c = do {
     ar \<leftarrow> dns_acme H timestamp;
     let h = test_handler ar;
     let m = new 7 QueryMessage Query;
     n \<leftarrow> unwrap (from_ascii H ''xip.test'');
     let q = (query_new H n SOA)\<lparr>q_class := CH\<rparr>;
     let m = add_query q m;
     raw \<leftarrow> to_vec H m;
     (reply, h) \<leftarrow> handle H (c 0) raw h;
     response \<leftarrow> from_vec H reply;
     assert_that (response_code response = NotImp);
     assert_that (\<not> authoritative response);
     assert_that (answers response = []);
     assert_that (queries response \<noteq> [] \<and> q_class (queries response ! 0) = CH)
   }"

definition semantically_malformed_messages_return_formerr ::
    "'nm hickory \<Rightarrow> 'nm new_message \<Rightarrow> int \<Rightarrow> (nat \<Rightarrow> instant) \<Rightarrow> unit option" where
  "semantically_malformed_messages_return_formerr H new timestamp c = do {
     ar \<leftarrow> dns_acme H timestamp;
     let h = test_handler ar;
     raw \<leftarrow> to_vec H (new 8 QueryMessage Query);
     (reply, h) \<leftarrow> handle H (c 0) raw h;
     response \<leftarrow> from_vec H reply;
     assert_that (response_code response = FormErr);
     assert_that (\<not> authoritative response);
     raw \<leftarrow> to_vec H (new 9 ResponseMessage Query);
     (reply, h) \<leftarrow> handle H (c 1) raw h;
     assert_that (reply = []);
     (reply, h) \<leftarrow> handle_udp H (c 2) [0, 1, 2] h;
     assert_that (reply = [])
   }"

definition edns_payload_is_echoed_and_capped ::
    "'nm hickory \<Rightarrow> 'nm new_message \<Rightarrow> int \<Rightarrow> (nat \<Rightarrow> instant) \<Rightarrow> unit option" where
  "edns_payload_is_echoed_and_capped H new timestamp c = do {
     ar \<leftarrow> dns_acme H timestamp;
     let h = test_handler ar;
     n \<leftarrow> unwrap (from_ascii H ''xip.test'');
     let request = add_query (query_new H n SOA) (new 10 QueryMessage Query);
     let request = set_edns (set_dnssec_ok H True (set_max_payload H 4096 (edns_new H))) request;
     raw \<leftarrow> to_vec H request;
     (reply, h) \<leftarrow> handle_udp H (c 0) raw h;
     response \<leftarrow> from_vec H reply;
     e \<leftarrow> msg_edns response;
     assert_that (max_payload e = MAX_UDP_PAYLOAD);
     assert_that (dnssec_ok e)
   }"

subsection \<open>Answers too large to send\<close>

text \<open>The loop that adds values until the answer is full.\<close>

partial_function (option) fill_dns :: "'nm hickory \<Rightarrow> (zone_records \<Rightarrow> zone_records) \<Rightarrow> (nat \<Rightarrow> instant) \<Rightarrow>
    nat \<Rightarrow> 'nm acme_records \<Rightarrow> (nat \<times> 'nm acme_records) option" where
  "fill_dns H ho c accept ar = do {
     (r, ar) \<leftarrow> add H ho (c accept) (c accept) ''_acme-challenge.xip.test'' (filler accept) ar;
     if r = Inr () then fill_dns H ho c (accept + 1) ar
     else if r = Inl DnsWireCapacityReached then Some (accept, ar) else None
   }"

definition udp_truncation_falls_back_to_a_complete_tcp_answer_at_capacity ::
    "'nm hickory \<Rightarrow> 'nm new_message \<Rightarrow> (zone_records \<Rightarrow> zone_records) \<Rightarrow> int \<Rightarrow> (nat \<Rightarrow> instant) \<Rightarrow> instant \<Rightarrow> unit option" where
  "udp_truncation_falls_back_to_a_complete_tcp_answer_at_capacity H new ho timestamp c now = do {
     capacity \<leftarrow> from_config H make_config;
     let ar = new_records timestamp (duration_from_secs 60) USIZE_MAX capacity;
     (accept, ar) \<leftarrow> fill_dns H ho c 0 ar;
     let h = test_handler ar;
     raw \<leftarrow> query_msg H new ''_acme-challenge.xip.test'' TXT;
     (reply, h) \<leftarrow> handle_udp H now raw h;
     udp \<leftarrow> from_vec H reply;
     assert_that (truncation udp);
     (tcp_bytes, h) \<leftarrow> handle H now raw h;
     assert_that (length tcp_bytes \<le> 65535);
     tcp \<leftarrow> from_vec H tcp_bytes;
     assert_that (\<not> truncation tcp);
     assert_that (response_code tcp = NoError);
     assert_that (length (answers tcp) = accept)
   }"

definition unexpected_serialization_truncation_returns_servfail ::
    "'nm hickory \<Rightarrow> 'nm new_message \<Rightarrow> unit option" where
  "unexpected_serialization_truncation_returns_servfail H new = do {
     raw \<leftarrow> query_msg H new ''_acme-challenge.xip.test'' TXT;
     request \<leftarrow> from_vec H raw;
     let response = message_response H (msg_id request) Query;
     q \<leftarrow> (if queries request = [] then None else Some (queries request ! 0));
     let response = add_query q response;
     n \<leftarrow> unwrap (from_ascii H ''_acme-challenge.xip.test'');
     let response = fold add_answer (replicate 400 (txt_record n 60 (replicate 255 CHR ''x''))) response;
     let encoded = encode_complete_or_servfail H request response;
     response \<leftarrow> from_vec H encoded;
     assert_that (response_code response = ServFail);
     assert_that (\<not> truncation response);
     assert_that (answers response = [])
   }"

definition serialization_error_returns_servfail ::
    "'nm hickory \<Rightarrow> 'nm new_message \<Rightarrow> unit option" where
  "serialization_error_returns_servfail H new = do {
     raw \<leftarrow> query_msg H new ''_acme-challenge.xip.test'' TXT;
     request \<leftarrow> from_vec H raw;
     let response = message_response H (msg_id request) Query;
     q \<leftarrow> (if queries request = [] then None else Some (queries request ! 0));
     let response = add_query q response;
     n \<leftarrow> unwrap (from_ascii H ''_acme-challenge.xip.test'');
     let response = add_answer (txt_record n 60 (replicate 256 CHR ''x'')) response;
     let encoded = encode_complete_or_servfail H request response;
     response \<leftarrow> from_vec H encoded;
     assert_that (response_code response = ServFail);
     assert_that (\<not> truncation response);
     assert_that (answers response = [])
   }"

subsection \<open>Names outside and inside the zone\<close>

definition nonexistent_in_zone_name_is_nxdomain ::
    "'nm hickory \<Rightarrow> 'nm new_message \<Rightarrow> int \<Rightarrow> (nat \<Rightarrow> instant) \<Rightarrow> unit option" where
  "nonexistent_in_zone_name_is_nxdomain H new timestamp c = do {
     ar \<leftarrow> dns_acme H timestamp;
     let h = test_handler ar;
     (resp, h) \<leftarrow> run_query H new (c 0) h ''totally-bogus.xip.test'' A;
     assert_that (response_code resp = NXDomain)
   }"

definition nonexistent_name_is_nxdomain_for_unsupported_type ::
    "'nm hickory \<Rightarrow> 'nm new_message \<Rightarrow> int \<Rightarrow> (nat \<Rightarrow> instant) \<Rightarrow> unit option" where
  "nonexistent_name_is_nxdomain_for_unsupported_type H new timestamp c = do {
     ar \<leftarrow> dns_acme H timestamp;
     let h = test_handler ar;
     (resp, h) \<leftarrow> run_query H new (c 0) h ''totally-bogus.xip.test'' CAA;
     assert_that (response_code resp = NXDomain)
   }"

definition out_of_zone_name_is_refused_without_authority_claim ::
    "'nm hickory \<Rightarrow> 'nm new_message \<Rightarrow> int \<Rightarrow> (nat \<Rightarrow> instant) \<Rightarrow> unit option" where
  "out_of_zone_name_is_refused_without_authority_claim H new timestamp c = do {
     ar \<leftarrow> dns_acme H timestamp;
     let h = test_handler ar;
     (resp, h) \<leftarrow> run_query H new (c 0) h ''example.com'' A;
     assert_that (response_code resp = Refused);
     assert_that (\<not> authoritative resp);
     assert_that (authorities resp = [])
   }"

definition unsupported_opcode_is_not_implemented ::
    "'nm hickory \<Rightarrow> 'nm new_message \<Rightarrow> int \<Rightarrow> (nat \<Rightarrow> instant) \<Rightarrow> unit option" where
  "unsupported_opcode_is_not_implemented H new timestamp c = do {
     ar \<leftarrow> dns_acme H timestamp;
     let h = test_handler ar;
     n \<leftarrow> unwrap (from_ascii H ''xip.test'');
     let request = add_query (query_new H n SOA) (new 1 QueryMessage Update);
     raw \<leftarrow> to_vec H request;
     (reply, h) \<leftarrow> handle H (c 0) raw h;
     response \<leftarrow> from_vec H reply;
     assert_that (response_code response = NotImp);
     assert_that (\<not> authoritative response)
   }"

definition unsupported_edns_version_returns_badvers ::
    "'nm hickory \<Rightarrow> 'nm new_message \<Rightarrow> int \<Rightarrow> (nat \<Rightarrow> instant) \<Rightarrow> unit option" where
  "unsupported_edns_version_returns_badvers H new timestamp c = do {
     ar \<leftarrow> dns_acme H timestamp;
     let h = test_handler ar;
     n \<leftarrow> unwrap (from_ascii H ''xip.test'');
     let request = add_query (query_new H n SOA) (new 1 QueryMessage Query);
     let request = set_edns ((edns_new H)\<lparr>version := 1\<rparr>) request;
     raw \<leftarrow> to_vec H request;
     (reply, h) \<leftarrow> handle H (c 0) raw h;
     response \<leftarrow> from_vec H reply;
     assert_that (rcode_number (response_code response) = 16);
     e \<leftarrow> msg_edns response;
     assert_that (version e = 0);
     assert_that (\<not> authoritative response)
   }"

definition xip_ip_name_has_a_record ::
    "'nm hickory \<Rightarrow> 'nm new_message \<Rightarrow> int \<Rightarrow> (nat \<Rightarrow> instant) \<Rightarrow> unit option" where
  "xip_ip_name_has_a_record H new timestamp c = do {
     ar \<leftarrow> dns_acme H timestamp;
     let h = test_handler ar;
     (resp, h) \<leftarrow> run_query H new (c 0) h ''127-0-0-1.xip.test'' A;
     assert_that (response_code resp = NoError);
     assert_that (length (answers resp) = 1)
   }"

definition acme_challenge_a_with_0x20_case_is_nodata_not_nxdomain ::
    "'nm hickory \<Rightarrow> 'nm new_message \<Rightarrow> int \<Rightarrow> (nat \<Rightarrow> instant) \<Rightarrow> unit option" where
  "acme_challenge_a_with_0x20_case_is_nodata_not_nxdomain H new timestamp c = do {
     ar \<leftarrow> dns_acme H timestamp;
     let h = test_handler ar;
     (resp, h) \<leftarrow> run_query H new (c 0) h ''_aCMe-cHAlLeNGe.xIp.tEsT'' A;
     assert_that (response_code resp \<noteq> NXDomain);
     assert_that (response_code resp = NoError)
   }"

definition acme_challenge_txt_with_0x20_case_and_token_returns_answer ::
    "'nm hickory \<Rightarrow> 'nm new_message \<Rightarrow> (zone_records \<Rightarrow> zone_records) \<Rightarrow> int \<Rightarrow> (nat \<Rightarrow> instant) \<Rightarrow> unit option" where
  "acme_challenge_txt_with_0x20_case_and_token_returns_answer H new ho timestamp c = do {
     ar \<leftarrow> dns_acme H timestamp;
     ar \<leftarrow> must_add H ho (c 0) ''_acme-challenge.xip.test'' ''tok'' ar;
     let h = test_handler ar;
     (resp, h) \<leftarrow> run_query H new (c 1) h ''_aCMe-cHAlLeNGe.xIp.tEsT'' TXT;
     assert_that (response_code resp = NoError);
     assert_that (length (answers resp) = 1)
   }"

definition xip_ip_name_with_0x20_case_has_a_record ::
    "'nm hickory \<Rightarrow> 'nm new_message \<Rightarrow> int \<Rightarrow> (nat \<Rightarrow> instant) \<Rightarrow> unit option" where
  "xip_ip_name_with_0x20_case_has_a_record H new timestamp c = do {
     ar \<leftarrow> dns_acme H timestamp;
     let h = test_handler ar;
     (resp, h) \<leftarrow> run_query H new (c 0) h ''127-0-0-1.xIp.TeSt'' A;
     assert_that (response_code resp = NoError);
     assert_that (length (answers resp) = 1)
   }"

end
