(* ===== verification/Dns_Client.thy ===== *)
theory Dns_Client
  imports Dns_Tests
begin

text \<open>
  What a client reads back from the handler in the unit tests of \<open>src/dns.rs\<close>, for every DNS
  library that keeps the message format: the names of the tests, the queries as the handler reads
  them, the answers as the client reads them, and the store of the tests.
\<close>

subsection \<open>Names\<close>

definition the_name :: "'nm hickory \<Rightarrow> string \<Rightarrow> 'nm" where
  "the_name H s = projr (from_ascii H s)"

lemma name_of:
  assumes "message_format H new" and "s \<in> set test_names"
  shows "from_ascii H s = Inr (the_name H s)" "to_ascii H (the_name H s) = s"
  using assms by (auto simp: message_format_def names_law_def the_name_def)

lemma name_facts:
  assumes "message_format H new"
  shows "from_ascii H ''xip.test'' = Inr (the_name H ''xip.test'')" "to_ascii H (the_name H ''xip.test'') = ''xip.test''"
    "from_ascii H ''ns1.xip.test'' = Inr (the_name H ''ns1.xip.test'')" "to_ascii H (the_name H ''ns1.xip.test'') = ''ns1.xip.test''"
    "from_ascii H ''ns2.xip.test'' = Inr (the_name H ''ns2.xip.test'')" "to_ascii H (the_name H ''ns2.xip.test'') = ''ns2.xip.test''"
    "from_ascii H ''admin.xip.test'' = Inr (the_name H ''admin.xip.test'')" "to_ascii H (the_name H ''admin.xip.test'') = ''admin.xip.test''"
    "from_ascii H ''_acme-challenge.xip.test'' = Inr (the_name H ''_acme-challenge.xip.test'')"
    "to_ascii H (the_name H ''_acme-challenge.xip.test'') = ''_acme-challenge.xip.test''"
  by (rule name_of [OF assms]; simp add: test_names_def)+

lemma test_name_trim:
  assumes "s \<in> set test_names"
  shows "trim_end_matches CHR ''.'' s = s" "length s \<le> 24"
proof -
  have "list_all (\<lambda>s. trim_end_matches CHR ''.'' s = s \<and> length s \<le> 24) test_names" by code_simp
  then show "trim_end_matches CHR ''.'' s = s" "length s \<le> 24" using assms by (simp_all add: list_all_iff)
qed

lemma config_facts [simp]:
  "domain make_config = ''xip.test''" "ns_hostname make_config = ''ns1.xip.test''"
  "ns_hostname2 make_config = ''ns2.xip.test''" "txt_ttl make_config = 60" "default_ttl make_config = 60"
  "ns_ip make_config = Ipv4 127 0 0 1" "acme_name make_config = ''_acme-challenge.xip.test''"
  by (simp_all add: make_config_def acme_name_def)

text \<open>What the names of the tests stand for in the zone.\<close>

lemmas xip_name_eval = parse_xip_ip_def Let_def scan_windows.simps window_def parse_octets_def parse_uint_def
  to_digit_def ipv4_from_def

lemma xip_local:
  "strip_suffix (to_lowercase ''127-0-0-1.xip.test'') (''.'' @ to_lowercase ''xip.test'') = Some ''127-0-0-1''"
  "split_char CHR ''-'' ''127-0-0-1'' = [''127'', ''0'', ''0'', ''1'']"
  by code_simp+

lemma xip_challenge:
  "strip_suffix (to_lowercase ''_acme-challenge.xip.test'') (''.'' @ to_lowercase ''xip.test'') = Some ''_acme-challenge''"
  "split_char CHR ''-'' ''_acme-challenge'' = [''_acme'', ''challenge'']"
  by code_simp+

lemma xip_missing:
  "strip_suffix (to_lowercase ''missing.xip.test'') (''.'' @ to_lowercase ''xip.test'') = Some ''missing''"
  "split_char CHR ''-'' ''missing'' = [''missing'']"
  by code_simp+

lemma xip_bogus:
  "strip_suffix (to_lowercase ''totally-bogus.xip.test'') (''.'' @ to_lowercase ''xip.test'') = Some ''totally-bogus''"
  "split_char CHR ''-'' ''totally-bogus'' = [''totally'', ''bogus'']"
  by code_simp+

lemma addresses:
  "parse_xip_ip ''127-0-0-1.xip.test'' ''xip.test'' = Some (Ipv4 127 0 0 1)"
  "parse_xip_ip ''_acme-challenge.xip.test'' ''xip.test'' = None"
  "parse_xip_ip ''missing.xip.test'' ''xip.test'' = None"
  "parse_xip_ip ''totally-bogus.xip.test'' ''xip.test'' = None"
  by (simp_all add: parse_xip_ip_scan [OF xip_local] parse_xip_ip_scan [OF xip_challenge]
      parse_xip_ip_scan [OF xip_missing] parse_xip_ip_scan [OF xip_bogus] octet_eval)

lemma lower_names:
  "to_lowercase ''127-0-0-1.xip.test'' = ''127-0-0-1.xip.test''" "to_lowercase ''127-0-0-1.xIp.TeSt'' = ''127-0-0-1.xip.test''"
  "to_lowercase ''XiP.TeSt'' = ''xip.test''" "to_lowercase ''xip.test'' = ''xip.test''"
  "to_lowercase ''_acme-challenge.xip.test'' = ''_acme-challenge.xip.test''"
  "to_lowercase ''_aCMe-cHAlLeNGe.xIp.tEsT'' = ''_acme-challenge.xip.test''"
  "to_lowercase ''missing.xip.test'' = ''missing.xip.test''" "to_lowercase ''totally-bogus.xip.test'' = ''totally-bogus.xip.test''"
  "to_lowercase ''example.com'' = ''example.com''"
  by code_simp+

lemma in_zone:
  "is_our_domain ''127-0-0-1.xip.test'' ''xip.test''" "is_our_domain ''xip.test'' ''xip.test''"
  "is_our_domain ''_acme-challenge.xip.test'' ''xip.test''" "is_our_domain ''missing.xip.test'' ''xip.test''"
  "is_our_domain ''totally-bogus.xip.test'' ''xip.test''" "\<not> is_our_domain ''example.com'' ''xip.test''"
  by code_simp+

lemma existing_names:
  "name_exists make_config ''127-0-0-1.xip.test''" "name_exists make_config ''xip.test''"
  "name_exists make_config ''_acme-challenge.xip.test''" "\<not> name_exists make_config ''missing.xip.test''"
  "\<not> name_exists make_config ''totally-bogus.xip.test''"
  by (simp_all add: name_exists_def addresses)

lemma resolved_names:
  "resolve_a make_config ''127-0-0-1.xip.test'' = Some (Ipv4 127 0 0 1)"
  "resolve_a make_config ''_acme-challenge.xip.test'' = None"
  "resolve_a make_config ''totally-bogus.xip.test'' = None"
  by (simp_all add: resolve_a_def addresses)

subsection \<open>Messages\<close>

lemma format_laws:
  assumes "message_format H new"
  shows "response_law H" "new i mt opc = (message_response H i opc)\<lparr>message_type := mt\<rparr>"
    "query_new H n t = \<lparr>q_name = n, q_type = t, q_class = IN\<rparr>"
    "truncate_message H m = m\<lparr>truncation := True, answers := [], authorities := [], additionals := []\<rparr>"
    "message_max_payload H m = (case msg_edns m of None \<Rightarrow> 512 | Some e \<Rightarrow> max 512 (max_payload e))"
    "version (edns_new H) = 0" "set_max_payload H k e = e\<lparr>max_payload := max 512 k\<rparr>"
    "set_dnssec_ok H b e = e\<lparr>dnssec_ok := b\<rparr>" "512 \<le> max_payload (edns_new H)"
  using assms by (simp_all add: message_format_def build_law_def)

lemma written:
  assumes "message_format H new" and "writable m" and "message_size H m \<le> 65535"
  obtains raw d where "to_vec H m = Some raw" "length raw \<le> message_size H m" "from_vec H raw = Some d" "reads_back H m d"
  using assms unfolding message_format_def write_law_def by blast

text \<open>A query as the handler reads it.\<close>

definition asks :: "'nm hickory \<Rightarrow> string \<Rightarrow> record_type \<Rightarrow> dns_class \<Rightarrow> 'nm message \<Rightarrow> 'nm question \<Rightarrow> bool" where
  "asks H s qt qc request q \<longleftrightarrow> message_type request = QueryMessage \<and> op_code request = Query \<and> queries request = [q] \<and>
     q_type q = qt \<and> q_class q = qc \<and> to_ascii H (q_name q) = s @ ''.''"

lemma asks_text:
  assumes "asks H s qt qc request q" and "s \<in> set test_names"
  shows "qname_text H (q_name q) = to_lowercase s" "name_text H (q_name q) = s" "length (to_ascii H (q_name q)) \<le> 25"
  using assms test_name_trim [OF assms(2)] by (simp_all add: asks_def qname_text_def name_text_def)

definition query_of :: "'nm hickory \<Rightarrow> 'nm new_message \<Rightarrow> u16 \<Rightarrow> op_code \<Rightarrow> string \<Rightarrow> record_type \<Rightarrow> dns_class \<Rightarrow> edns option \<Rightarrow> bool \<Rightarrow> 'nm message" where
  "query_of H new i opc s qt qc e rd = (new i QueryMessage opc)\<lparr>recursion_desired := rd, msg_edns := e,
     queries := [\<lparr>q_name = the_name H s, q_type = qt, q_class = qc\<rparr>]\<rparr>"

lemma query_read:
  assumes "message_format H new" and "s \<in> set test_names" and "qt \<in> {SOA, NS, A, TXT, CAA}" and "qc \<in> {IN, ANY, CH}"
    and "opc \<in> {Query, Update}" and "\<And>x. e = Some x \<Longrightarrow> 512 \<le> max_payload x"
  obtains raw request q where "to_vec H (query_of H new i opc s qt qc e rd) = Some raw" "from_vec H raw = Some request"
    "message_type request = QueryMessage" "op_code request = opc" "queries request = [q]" "q_type q = qt" "q_class q = qc"
    "to_ascii H (q_name q) = s @ ''.''" "msg_edns request = e" "msg_id request = i" "recursion_desired request = rd"
proof -
  let ?m = "query_of H new i opc s qt qc e rd"
  note n = name_of [OF assms(1,2)]
  have r: "response_law H" by (rule format_laws(1) [OF assms(1)])
  have sel: "response_code ?m = NoError" "op_code ?m = opc" "answers ?m = []" "authorities ?m = []" "additionals ?m = []"
    "msg_edns ?m = e" "queries ?m = [\<lparr>q_name = the_name H s, q_type = qt, q_class = qc\<rparr>]" "message_type ?m = QueryMessage"
    "msg_id ?m = i" "recursion_desired ?m = rd"
    using r by (simp_all add: query_of_def format_laws(2) [OF assms(1)] response_law_def)
  have w: "writable ?m" using assms(3-6) by (auto simp: writable_def sel all_records_def)
  have sz: "message_size H ?m \<le> 65535"
    using test_name_trim(2) [OF assms(2)] by (simp add: message_size_def sel all_records_def question_size_def name_size_def n split: option.split)
  obtain raw d where d: "to_vec H ?m = Some raw" "from_vec H raw = Some d" "reads_back H ?m d"
    by (rule written [OF assms(1) w sz])
  then obtain q where q: "queries d = [q]" "same_question H \<lparr>q_name = the_name H s, q_type = qt, q_class = qc\<rparr> q"
    by (auto simp: reads_back_def sel list_all2_Cons1)
  show thesis
    by (rule that [OF d(1,2) _ _ q(1)])
      (use d(3) q(2) test_name_trim(1) [OF assms(2)] in \<open>auto simp: reads_back_def sel same_question_def same_name_def name_text_def n\<close>)
qed

text \<open>An answer as the client reads it.\<close>

lemma handle_read:
  assumes "message_format H new" and "from_vec H raw = Some request" and "message_type request = QueryMessage"
    and "build_response H now request h = Some (m, h')" and "writable m" and "message_size H m \<le> 65535" and "\<not> truncation m"
  obtains reply d where "handle H now raw h = Some (reply, h')" "from_vec H reply = Some d" "reads_back H m d"
    "to_vec H m = Some reply" "length reply \<le> message_size H m"
proof -
  obtain reply d where d: "to_vec H m = Some reply" "length reply \<le> message_size H m" "from_vec H reply = Some d" "reads_back H m d"
    by (rule written [OF assms(1,5,6)])
  then have "\<not> truncation d" using assms(7) by (simp add: reads_back_def)
  with d assms(2-4) show thesis by (intro that) (simp_all add: handle_def encode_complete_or_servfail_def)
qed

subsection \<open>Responses about names of the zone\<close>

definition the_soa :: "'nm hickory \<Rightarrow> u32 \<Rightarrow> 'nm rr" where
  "the_soa H ser = \<lparr>rr_name = the_name H ''xip.test'', rr_ttl = 10,
     rr_data = RSOA (the_name H ''ns1.xip.test'') (the_name H ''admin.xip.test'') ser 3600 900 86400 10\<rparr>"

definition base_response :: "'nm hickory \<Rightarrow> 'nm message \<Rightarrow> 'nm question \<Rightarrow> u32 \<Rightarrow> 'nm message" where
  "base_response H request q ser = add_authority (the_soa H ser) (add_query q (response_header H request))"

lemma soa_test:
  assumes "message_format H new"
  shows "soa H make_config ser = Some (the_soa H ser)"
  using name_facts [OF assms] by (simp add: soa_def soa_record_def the_soa_def)

lemma response_in_zone:
  assumes "message_format H new" and "asks H s qt IN request q" and "s \<in> set test_names" and "msg_edns request = e"
    and "\<And>x. e = Some x \<Longrightarrow> version x = 0" and "is_our_domain (to_lowercase s) ''xip.test''" and "config h = make_config"
  shows "build_response H now request h = map_option (\<lambda>m. (m, h\<lparr>acme := refresh_zone now (acme h)\<rparr>))
    (answer_query H make_config (q_name q) (to_lowercase s) qt
      (txt_values make_config (refresh_zone now (acme h)) (to_lowercase s) qt) (the_soa H (store_serial (refresh_zone now (acme h))))
      (base_response H request q (store_serial (refresh_zone now (acme h)))))"
proof -
  have "accepted H (config h) request q"
    using assms asks_text(1) [OF assms(2,3)] by (auto simp: accepted_def asks_def edns_supported_def split: option.split)
  from build_response_accepted [OF this, of now] show ?thesis
    using asks_text(1) [OF assms(2,3)] assms(2,7)
    by (simp add: soa_test [OF assms(1)] asks_def base_response_def Let_def map_option_case bind_eq_Some_conv split: option.split)
qed

lemma base_response_sel [simp]:
  assumes "response_law H"
  shows "answers (base_response H request q ser) = []" "authorities (base_response H request q ser) = [the_soa H ser]"
    "additionals (base_response H request q ser) = []" "queries (base_response H request q ser) = [q]"
    "response_code (base_response H request q ser) = NoError" "authoritative (base_response H request q ser)"
    "op_code (base_response H request q ser) = op_code request" "truncation (base_response H request q ser) = False"
    "message_type (base_response H request q ser) = ResponseMessage"
    "msg_edns (base_response H request q ser) = map_option (response_edns H) (msg_edns request)"
  using assms by (simp_all add: base_response_def)

text \<open>Records of the tests: they are written, and take so many bytes at most.\<close>

lemma soa_size:
  assumes "message_format H new"
  shows "record_size H (the_soa H ser) = 70" "writable_data (rr_data (the_soa H ser))"
    "record_size H (ns_record make_config (the_name H ''xip.test'') (the_name H ''ns1.xip.test'')) = 34"
    "record_size H (ns_record make_config (the_name H ''xip.test'') (the_name H ''ns2.xip.test'')) = 34"
    "record_size H (a_record make_config (the_name H ''ns1.xip.test'') ip) = 28"
    "record_size H (a_record make_config (the_name H ''ns2.xip.test'') ip) = 28"
  using name_facts [OF assms]
  by (simp_all add: the_soa_def record_size_def name_size_def ns_record_def a_record_def split: ipv4.split)

lemma txt_size:
  assumes "message_format H new"
  shows "record_size H (txt_record (the_name H ''_acme-challenge.xip.test'') ttl v) = 37 + length v"
  using name_facts [OF assms] by (simp add: record_size_def name_size_def txt_record_def)

text \<open>
  What a client reads of an answer in the zone whose sections have these records; the bound on
  the answer section keeps the message small.
\<close>

lemma zone_reply:
  assumes fmt: "message_format H new" and req: "asks H s qt IN request q" "from_vec H raw = Some request" and s: "s \<in> set test_names"
    and qt: "qt \<in> {SOA, NS, A, TXT, CAA}" and e: "msg_edns request = None"
    and our: "is_our_domain (to_lowercase s) ''xip.test''" and c: "config h = make_config"
    and ans: "answer_query H make_config (q_name q) (to_lowercase s) qt
      (txt_values make_config (refresh_zone now (acme h)) (to_lowercase s) qt) (the_soa H ser) (base_response H request q ser) = Some m"
    and ser: "ser = store_serial (refresh_zone now (acme h))"
    and small: "sum_list (map (record_size H) (answers m)) + sum_list (map (record_size H) (additionals m)) \<le> 60000"
    and data: "\<forall>r\<in>set (answers m) \<union> set (additionals m). writable_data (rr_data r)"
  obtains reply d where "handle H now raw h = Some (reply, h\<lparr>acme := refresh_zone now (acme h)\<rparr>)" "from_vec H reply = Some d"
    "authoritative d" "\<not> truncation d" "response_code d = (if name_exists make_config (to_lowercase s) then NoError else NXDomain)"
    "list_all2 (same_record H) (answers m) (answers d)" "list_all2 (same_record H) [the_soa H ser] (authorities d)"
    "list_all2 (same_record H) (additionals m) (additionals d)" "list_all2 (same_question H) [q] (queries d)"
    "to_vec H m = Some reply"
proof -
  have r: "response_law H" by (rule format_laws(1) [OF fmt])
  have code: "response_code m = (if name_exists make_config (to_lowercase s) then NoError else NXDomain)"
    by (rule answer_query_rcode [OF ans]) (simp add: r)
  have frame: "authorities m = [the_soa H ser]" "queries m = [q]" "authoritative m" "msg_edns m = None" "truncation m = False"
      "op_code m = Query" "message_type m = ResponseMessage"
    using answer_query_frame [OF ans] header_frame [OF ans] e r req(1) by (simp_all add: asks_def)
  have "writable m"
    using frame code data soa_size(2) [OF fmt] qt req(1) by (auto simp: writable_def all_records_def asks_def)
  moreover have "message_size H m \<le> 65535"
    using frame small soa_size(1) [OF fmt] asks_text(3) [OF req(1) s]
    by (simp add: message_size_def all_records_def question_size_def name_size_def)
  moreover have "build_response H now request h = Some (m, h\<lparr>acme := refresh_zone now (acme h)\<rparr>)"
    using response_in_zone [OF fmt req(1) s e _ our c, of now] ans ser by simp
  moreover have "message_type request = QueryMessage" using req(1) by (simp add: asks_def)
  ultimately obtain reply d where d: "handle H now raw h = Some (reply, h\<lparr>acme := refresh_zone now (acme h)\<rparr>)"
      "from_vec H reply = Some d" "reads_back H m d" "to_vec H m = Some reply"
    using handle_read [OF fmt req(2), of now h m] frame(5) by metis
  show thesis
    by (rule that [OF d(1,2)]) (use d(3,4) frame code in \<open>auto simp: reads_back_def\<close>)
qed

subsection \<open>The store of the tests\<close>

definition test_cap :: "'nm hickory \<Rightarrow> 'nm acme_wire_capacity" where
  "test_cap H = \<lparr>cap_acme_name = the_name H ''_acme-challenge.xip.test'', cap_zone = the_name H ''xip.test'',
     cap_ns_hostname = the_name H ''ns1.xip.test'', cap_txt_ttl = 60\<rparr>"

lemma capacity_test:
  assumes "message_format H new"
  shows "from_config H make_config = Some (test_cap H)"
  using name_facts [OF assms] by (simp add: from_config_eq_Some test_cap_def)

text \<open>The measured answer: its size, and the texts it holds.\<close>

lemma measured:
  assumes fmt: "message_format H new"
  obtains m where "response H (test_cap H) vs = Some m" "answers m = map (txt_record (the_name H ''_acme-challenge.xip.test'') 60) vs"
    "truncation m = False" "message_size H m = 12 + 30 + (\<Sum>v\<leftarrow>vs. 37 + length v) + 70 + 11"
    "(\<forall>v\<in>set vs. length v \<le> 255) \<Longrightarrow> writable m" "text_size m = sum_list (map length vs)"
    "queries m = [\<lparr>q_name = the_name H ''_acme-challenge.xip.test'', q_type = TXT, q_class = IN\<rparr>]"
    "authorities m = [the_soa H 0]" "additionals m = []" "msg_edns m \<noteq> None"
proof -
  let ?n = "the_name H ''_acme-challenge.xip.test''"
  note laws = format_laws [OF fmt] and names = name_facts [OF fmt]
  have soa: "soa_record H (the_name H ''xip.test'') (the_name H ''ns1.xip.test'') 0 = Some (the_soa H 0)"
    using names by (simp add: soa_record_def the_soa_def)
  let ?m = "set_edns (set_max_payload H 1232 (edns_new H)) (add_authority (the_soa H 0)
    ((add_query (query_new H ?n TXT) ((message_response H 0 Query)\<lparr>authoritative := True\<rparr>))
      \<lparr>answers := map (txt_record ?n 60) vs\<rparr>))"
  have m: "response H (test_cap H) vs = Some ?m"
    using soa laws(1) by (simp add: response_def test_cap_def Let_def fold_txt_records response_law_def add_query_def)
  have sel: "answers ?m = map (txt_record ?n 60) vs" "truncation ?m = False" "queries ?m = [\<lparr>q_name = ?n, q_type = TXT, q_class = IN\<rparr>]"
    "authorities ?m = [the_soa H 0]" "additionals ?m = []" "op_code ?m = Query" "response_code ?m = NoError"
    "msg_edns ?m = Some ((edns_new H)\<lparr>max_payload := 1232\<rparr>)"
    using laws(1) by (simp_all add: message_build_defs response_law_def laws(3,7))
  have "message_size H ?m = 12 + 30 + (\<Sum>v\<leftarrow>vs. 37 + length v) + 70 + 11"
    using names by (simp add: message_size_def sel all_records_def question_size_def name_size_def soa_size(1) [OF fmt]
        comp_def txt_size [OF fmt])
  moreover have "writable ?m" if "\<forall>v\<in>set vs. length v \<le> 255"
    using that soa_size(2) [OF fmt] by (auto simp: writable_def sel all_records_def txt_record_def)
  moreover have "text_size ?m = sum_list (map length vs)"
    by (simp add: text_size_def sel comp_def txt_record_def)
  ultimately show thesis using that [OF m sel(1,2)] sel(3-5,8) by blast
qed

lemma fits_small:
  assumes "message_format H new" and "\<forall>v\<in>set vs. length v \<le> 255" and "length vs \<le> 200"
  shows "fits H (test_cap H) vs = Some True"
proof (rule measured [OF assms(1), of vs])
  fix m
  assume m: "response H (test_cap H) vs = Some m" "answers m = map (txt_record (the_name H ''_acme-challenge.xip.test'') 60) vs"
    "truncation m = False" "message_size H m = 12 + 30 + (\<Sum>v\<leftarrow>vs. 37 + length v) + 70 + 11"
    "(\<forall>v\<in>set vs. length v \<le> 255) \<Longrightarrow> writable m"
  have "(\<Sum>v\<leftarrow>vs. 37 + length v) \<le> length vs * 292"
    using assms(2) by (induction vs) auto
  then have "message_size H m \<le> 65535" using m(4) assms(3) by simp
  then obtain raw d where "to_vec H m = Some raw" "from_vec H raw = Some d" "reads_back H m d"
    using written [OF assms(1) m(5) [OF assms(2)]] by metis
  then show ?thesis using m(1-3)
    by (auto simp: fits_def is_complete_iff reads_back_def dest: list_all2_lengthD)
qed

lemma fits_large:
  assumes "message_format H new" and "65535 < sum_list (map length vs)"
  shows "fits H (test_cap H) vs = Some False"
proof (rule measured [OF assms(1), of vs])
  fix m
  assume m: "response H (test_cap H) vs = Some m" "text_size m = sum_list (map length vs)"
  have "limit_law H" using assms(1) by (simp add: message_format_def)
  then have "text_size m \<le> 65535" if "to_vec H m = Some raw" "from_vec H raw = Some d" "\<not> truncation d" for raw d
    using that le_trans unfolding limit_law_def by blast
  then have "\<not> is_complete H m (length vs)" using assms(2) m(2) by (auto simp: is_complete_iff)
  with m(1) show ?thesis by (simp add: fits_def)
qed

lemma fits_test_total:
  assumes "message_format H new"
  shows "\<exists>b. fits H (test_cap H) vs = Some b"
  by (rule measured [OF assms, of vs]) (simp add: fits_def)

lemma overflow_exists:
  assumes "message_format H new"
  obtains N where "first_overflow H (test_cap H) N" "200 < N" "N \<le> 258"
proof -
  let ?P = "\<lambda>n. fits H (test_cap H) (fillers n) = Some False"
  define N where "N = (LEAST n. ?P n)"
  have lens: "length v = 255" if "v \<in> set (fillers 258)" for v
    using that by (auto simp: fillers_def length_filler)
  have "sum_list (map length (fillers 258)) = sum_list (map (\<lambda>v. 255) (fillers 258))"
    using lens by (metis (no_types, lifting) map_cong)
  also have "\<dots> = 65790" by (simp add: sum_list_triv del: fillers_simps(2))
  finally have "?P 258" by (intro fits_large [OF assms]) simp
  then have N: "?P N" "N \<le> 258" unfolding N_def by (rule LeastI, rule Least_le)
  have small: "fits H (test_cap H) (fillers k) = Some True" if "k \<le> 200" for k
    using that by (intro fits_small [OF assms]) (auto simp: fillers_def length_filler)
  have "200 < N" using N(1) small [of N] by (cases "N \<le> 200") auto
  moreover have "fits H (test_cap H) (fillers k) = Some True" if "k < N" for k
    using fits_test_total [OF assms, of "fillers k"] not_less_Least [of k ?P] that unfolding N_def by metis
  ultimately show thesis using N by (intro that [of N]) (simp_all add: first_overflow_def)
qed

subsection \<open>Queries of the tests\<close>

lemma query_msg_eq:
  assumes "message_format H new" and "s \<in> set test_names"
  shows "query_msg H new s qt = to_vec H (query_of H new 1 Query s qt IN None True)"
  using format_laws [OF assms(1)] name_of(1) [OF assms]
  by (simp add: query_msg_def query_of_def response_law_def add_query_def)

lemma query_asked:
  assumes "message_format H new" and "s \<in> set test_names" and "qt \<in> {SOA, NS, A, TXT, CAA}"
  obtains raw request q where "query_msg H new s qt = Some raw" "from_vec H raw = Some request" "asks H s qt IN request q"
    "msg_edns request = None"
proof -
  obtain raw request q where "to_vec H (query_of H new 1 Query s qt IN None True) = Some raw" "from_vec H raw = Some request"
    "message_type request = QueryMessage" "op_code request = Query" "queries request = [q]" "q_type q = qt" "q_class q = IN"
    "to_ascii H (q_name q) = s @ ''.''" "msg_edns request = None"
    by (rule query_read [OF assms, where qc = IN and opc = Query and e = None and i = 1 and rd = True]) simp_all
  with that show thesis by (simp add: query_msg_eq [OF assms(1,2)] asks_def)
qed

text \<open>What the answer and additional sections hold, given the dispatch; the rest is fixed.\<close>

lemma run_zone:
  fixes H :: "'nm hickory"
  assumes fmt: "message_format H new" and s: "s \<in> set test_names" and qt: "qt \<in> {SOA, NS, A, TXT, CAA}"
    and our: "is_our_domain (to_lowercase s) ''xip.test''" and c: "config h = make_config"
    and ser: "ser = store_serial (refresh_zone now (acme h))"
    and ans: "\<And>(q :: 'nm question) m0. answers m0 = [] \<Longrightarrow> additionals m0 = [] \<Longrightarrow> name_text H (q_name q) = s \<Longrightarrow>
      length (to_ascii H (q_name q)) \<le> 25 \<Longrightarrow>
      \<exists>m. answer_query H make_config (q_name q) (to_lowercase s) qt
        (txt_values make_config (refresh_zone now (acme h)) (to_lowercase s) qt) (the_soa H ser) m0 = Some m \<and>
        answers m = an (q_name q) \<and> additionals m = ad"
    and small: "\<And>n. length (to_ascii H n) \<le> 25 \<Longrightarrow> sum_list (map (record_size H) (an n)) + sum_list (map (record_size H) ad) \<le> 60000"
    and data: "\<And>n. \<forall>r\<in>set (an n) \<union> set ad. writable_data (rr_data r)"
  obtains d n where "run_query H new now h s qt = Some (d, h\<lparr>acme := refresh_zone now (acme h)\<rparr>)"
    "authoritative d" "\<not> truncation d" "response_code d = (if name_exists make_config (to_lowercase s) then NoError else NXDomain)"
    "name_text H n = s" "list_all2 (same_record H) (an n) (answers d)" "list_all2 (same_record H) [the_soa H ser] (authorities d)"
    "list_all2 (same_record H) ad (additionals d)"
proof (rule query_asked [OF fmt s qt])
  fix raw request q
  assume raw: "query_msg H new s qt = Some raw" "from_vec H raw = Some request" "asks H s qt IN request q" "msg_edns request = None"
  note t = asks_text [OF raw(3) s]
  have r: "response_law H" by (rule format_laws(1) [OF fmt])
  obtain m where m: "answer_query H make_config (q_name q) (to_lowercase s) qt
        (txt_values make_config (refresh_zone now (acme h)) (to_lowercase s) qt) (the_soa H ser) (base_response H request q ser) = Some m"
      "answers m = an (q_name q)" "additionals m = ad"
    using ans [of "base_response H request q ser" q] t(2,3) r by auto
  show thesis
    by (rule zone_reply [OF fmt raw(3,2) s qt raw(4) our c m(1) ser])
      (use m(2,3) small [OF t(3)] data [of "q_name q"] raw(1) that [of _ "q_name q"] t(2) in \<open>simp_all add: run_query_def\<close>)
qed

text \<open>Queries that are answered without records.\<close>

lemma run_empty:
  fixes H :: "'nm hickory"
  assumes fmt: "message_format H new" and s: "s \<in> set test_names" and qt: "qt \<in> {SOA, NS, A, TXT, CAA}"
    and our: "is_our_domain (to_lowercase s) ''xip.test''" and c: "config h = make_config"
    and none: "qt = A \<and> resolve_a make_config (to_lowercase s) = None \<or> qt \<in> {SOA, NS} \<and> to_lowercase s \<noteq> ''xip.test'' \<or>
      qt = TXT \<and> txt_values make_config (refresh_zone now (acme h)) (to_lowercase s) TXT = [] \<or> qt = CAA"
  obtains d where "run_query H new now h s qt = Some (d, h\<lparr>acme := refresh_zone now (acme h)\<rparr>)"
    "authoritative d" "\<not> truncation d" "response_code d = (if name_exists make_config (to_lowercase s) then NoError else NXDomain)"
    "answers d = []" "list_all2 (same_record H) [the_soa H (store_serial (refresh_zone now (acme h)))] (authorities d)" "additionals d = []"
proof (rule run_zone [OF fmt s qt our c refl, where an = "\<lambda>n. []" and ad = "[]"])
  fix q :: "'nm question" and m0 :: "'nm message"
  assume m0: "answers m0 = []" "additionals m0 = []"
  show "\<exists>m. answer_query H make_config (q_name q) (to_lowercase s) qt
      (txt_values make_config (refresh_zone now (acme h)) (to_lowercase s) qt) (the_soa H (store_serial (refresh_zone now (acme h)))) m0 = Some m \<and>
      answers m = [] \<and> additionals m = []"
    using none
    by (auto simp: answer_query_def txt_records_def CAA_def m0 nxdomain_unless_def Let_def split: sum.split)
qed (use that in simp_all)

text \<open>A query for a name outside the zone.\<close>

lemma run_outside:
  assumes fmt: "message_format H new" and c: "config h = make_config" and qt: "qt \<in> {SOA, NS, A, TXT, CAA}"
  obtains d where "run_query H new now h ''example.com'' qt = Some (d, h)" "response_code d = Refused" "\<not> authoritative d"
    "answers d = []" "authorities d = []" "additionals d = []"
proof -
  have s: "''example.com'' \<in> set test_names" by (simp add: test_names_def)
  show thesis
  proof (rule query_asked [OF fmt s qt])
    fix raw request q
    assume raw: "query_msg H new ''example.com'' qt = Some raw" "from_vec H raw = Some request" "asks H ''example.com'' qt IN request q"
      "msg_edns request = None"
    note t = asks_text [OF raw(3) s]
    define m where "m = refuse Refused (add_query q (response_header H request))"
    have r: "response_law H" by (rule format_laws(1) [OF fmt])
    have b: "build_response H now request h = Some (m, h)"
      using raw(3,4) t(1) lower_names(9) in_zone(6) c by (simp add: build_response_def asks_def Let_def add_query_def m_def)
    have sel: "answers m = []" "authorities m = []" "additionals m = []" "queries m = [q]" "op_code m = Query"
      "response_code m = Refused" "msg_edns m = None" "\<not> truncation m" "\<not> authoritative m"
      using r raw(3,4) by (simp_all add: asks_def refuse_def add_query_def m_def)
    have w: "writable m" using qt raw(3) by (simp add: writable_def sel all_records_def asks_def)
    have z: "message_size H m \<le> 65535"
      using t(3) by (simp add: message_size_def sel all_records_def question_size_def name_size_def)
    have "message_type request = QueryMessage" using raw(3) by (simp add: asks_def)
    from handle_read [OF fmt raw(2) this b w z sel(8)] obtain reply d where
      d: "handle H now raw h = Some (reply, h)" "from_vec H reply = Some d" "reads_back H m d" by metis
    show thesis
      by (rule that [of d]) (use d sel in \<open>simp_all add: run_query_def raw(1) reads_back_def\<close>)
  qed
qed

subsection \<open>The tests about names\<close>

lemma dns_start:
  assumes "message_format H new"
  shows "dns_acme H timestamp = Some (new_records timestamp (duration_from_secs 60) 100 (test_cap H))"
    "dns_acme_with_serial H mx ser = Some (with_serial (duration_from_secs 60) mx (test_cap H) ser)"
  by (simp_all add: dns_acme_def dns_acme_with_serial_def capacity_test [OF assms])

lemma test_handler_sel [simp]: "config (test_handler ar) = make_config" "acme (test_handler ar) = ar"
  "(test_handler ar)\<lparr>acme := ar'\<rparr> = test_handler ar'"
  by (simp_all add: test_handler_def)

lemma refresh_empty: "records (state ar) = [] \<Longrightarrow> refresh_zone now ar = ar"
  by (simp add: refresh_zone_def prune_def retain_live_def token_count_def set_zone_def)

lemma new_records_empty [simp]: "records (state (new_records timestamp life mx cap)) = []"
  "records (state (with_serial life mx cap ser)) = []" "store_serial (with_serial life mx cap ser) = ser"
  by (simp_all add: new_records_def with_serial_def store_serial_def)

lemma values_of_empty: "records (state ar) = [] \<Longrightarrow> txt_values c (refresh_zone now ar) n qt = []"
  by (simp add: refresh_empty txt_values_def store_values_def tokens_of_def)

lemma names_in [simp]:
  "''_acme-challenge.xip.test'' \<in> set test_names" "''_aCMe-cHAlLeNGe.xIp.tEsT'' \<in> set test_names"
  "''XiP.TeSt'' \<in> set test_names" "''xip.test'' \<in> set test_names" "''127-0-0-1.xip.test'' \<in> set test_names"
  "''127-0-0-1.xIp.TeSt'' \<in> set test_names" "''missing.xip.test'' \<in> set test_names" "''totally-bogus.xip.test'' \<in> set test_names"
  by (simp_all add: test_names_def)

lemmas zone_eval = lower_names in_zone existing_names resolved_names

end
