(* ===== verification/Dns_Tests_Pass.thy ===== *)
theory Dns_Tests_Pass
  imports Dns_Client
begin

text \<open>The unit tests of \<open>src/dns.rs\<close> pass for every DNS library that keeps the message format.\<close>

subsection \<open>Answers without records\<close>

lemma dns_empty:
  fixes H :: "'nm hickory"
  assumes fmt: "message_format H new" and s: "s \<in> set test_names" "to_lowercase s = t" and qt: "qt \<in> {A, TXT, CAA}"
    and our: "is_our_domain t ''xip.test''" and none: "qt = A \<Longrightarrow> resolve_a make_config t = None"
    and ar: "records (state ar) = []"
  shows "\<exists>d h. run_query H new now (test_handler ar) s qt = Some (d, h) \<and> answers d = [] \<and>
      response_code d = (if name_exists make_config t then NoError else NXDomain)"
proof (rule run_empty [OF fmt s(1), of qt "test_handler ar" now])
  show "is_our_domain (to_lowercase s) ''xip.test''" using our s(2) by simp
  show "qt = A \<and> resolve_a make_config (to_lowercase s) = None \<or> qt \<in> {SOA, NS} \<and> to_lowercase s \<noteq> ''xip.test'' \<or>
      qt = TXT \<and> txt_values make_config (refresh_zone now (acme (test_handler ar))) (to_lowercase s) TXT = [] \<or> qt = CAA"
    using qt none s(2) values_of_empty [OF ar] by auto
qed (use qt s(2) in auto)

lemma nodata_tests_pass:
  assumes fmt: "message_format H new"
  shows "acme_challenge_a_is_nodata_not_nxdomain H new timestamp c = Some ()"
    and "acme_challenge_txt_no_token_is_nodata_not_nxdomain H new timestamp c = Some ()"
    and "acme_challenge_a_with_0x20_case_is_nodata_not_nxdomain H new timestamp c = Some ()"
    and "nonexistent_in_zone_name_is_nxdomain H new timestamp c = Some ()"
    and "nonexistent_name_is_nxdomain_for_unsupported_type H new timestamp c = Some ()"
    and "out_of_zone_name_is_refused_without_authority_claim H new timestamp c = Some ()"
proof -
  let ?ar = "new_records timestamp (duration_from_secs 60) 100 (test_cap H)"
  note empty = dns_empty [OF fmt names_in(1) lower_names(5) _ in_zone(3), where ar = ?ar and now = "c 0"]
    dns_empty [OF fmt names_in(2) lower_names(6) _ in_zone(3), where ar = ?ar and now = "c 0"]
    dns_empty [OF fmt names_in(8) lower_names(8) _ in_zone(5), where ar = ?ar and now = "c 0"]
  note facts = dns_start [OF fmt] existing_names resolved_names
  show "acme_challenge_a_is_nodata_not_nxdomain H new timestamp c = Some ()"
    using empty(1) [of A] by (auto simp: acme_challenge_a_is_nodata_not_nxdomain_def facts)
  show "acme_challenge_txt_no_token_is_nodata_not_nxdomain H new timestamp c = Some ()"
    using empty(1) [of TXT] by (auto simp: acme_challenge_txt_no_token_is_nodata_not_nxdomain_def facts)
  show "acme_challenge_a_with_0x20_case_is_nodata_not_nxdomain H new timestamp c = Some ()"
    using empty(2) [of A] by (auto simp: acme_challenge_a_with_0x20_case_is_nodata_not_nxdomain_def facts)
  show "nonexistent_in_zone_name_is_nxdomain H new timestamp c = Some ()"
    using empty(3) [of A] by (auto simp: nonexistent_in_zone_name_is_nxdomain_def facts)
  show "nonexistent_name_is_nxdomain_for_unsupported_type H new timestamp c = Some ()"
    using empty(3) [of CAA] by (auto simp: nonexistent_name_is_nxdomain_for_unsupported_type_def facts CAA_def)
  show "out_of_zone_name_is_refused_without_authority_claim H new timestamp c = Some ()"
    by (rule run_outside [OF fmt, of "test_handler ?ar" A "c 0"])
      (simp_all add: out_of_zone_name_is_refused_without_authority_claim_def dns_start [OF fmt])
qed

subsection \<open>Addresses\<close>

lemma dns_address:
  fixes H :: "'nm hickory"
  assumes fmt: "message_format H new" and s: "s \<in> set test_names" "to_lowercase s = ''127-0-0-1.xip.test''"
  shows "\<exists>d h. run_query H new now (test_handler ar) s A = Some (d, h) \<and> length (answers d) = 1 \<and> response_code d = NoError"
proof (rule run_zone [OF fmt s(1), where an = "\<lambda>n. [a_record make_config n (Ipv4 127 0 0 1)]" and ad = "[]" and
      h = "test_handler ar" and qt = A and now = now])
  show "is_our_domain (to_lowercase s) ''xip.test''" using in_zone(1) s(2) by simp
  fix q :: "'nm question" and m0 :: "'nm message"
  assume "answers m0 = []" "additionals m0 = []"
  then show "\<exists>m. answer_query H make_config (q_name q) (to_lowercase s) A
      (txt_values make_config (refresh_zone now (acme (test_handler ar))) (to_lowercase s) A)
      (the_soa H (store_serial (refresh_zone now (acme (test_handler ar))))) m0 = Some m \<and>
      answers m = [a_record make_config (q_name q) (Ipv4 127 0 0 1)] \<and> additionals m = []"
    by (simp add: answer_query_def s(2) resolved_names add_answer_def)
qed (use s(2) existing_names in \<open>auto simp: record_size_def name_size_def a_record_def list_all2_Cons1\<close>)

lemma address_tests_pass:
  assumes fmt: "message_format H new"
  shows "xip_ip_name_has_a_record H new timestamp c = Some ()"
    and "xip_ip_name_with_0x20_case_has_a_record H new timestamp c = Some ()"
proof -
  let ?ar = "new_records timestamp (duration_from_secs 60) 100 (test_cap H)"
  show "xip_ip_name_has_a_record H new timestamp c = Some ()"
    using dns_address [OF fmt names_in(5) lower_names(1), of "c 0" ?ar]
    by (auto simp: xip_ip_name_has_a_record_def dns_start [OF fmt])
  show "xip_ip_name_with_0x20_case_has_a_record H new timestamp c = Some ()"
    using dns_address [OF fmt names_in(6) lower_names(2), of "c 0" ?ar]
    by (auto simp: xip_ip_name_with_0x20_case_has_a_record_def dns_start [OF fmt])
qed

subsection \<open>Challenge tokens\<close>

text \<open>A store the tests have filled, all of whose values fit.\<close>

definition dns_filled :: "'nm hickory \<Rightarrow> (nat \<Rightarrow> instant) \<Rightarrow> nat \<Rightarrow> string list \<Rightarrow> 'nm acme_records \<Rightarrow> bool" where
  "dns_filled H c mx vs ar \<longleftrightarrow>
     filled (duration_from_secs 60) mx (test_cap H) c ''_acme-challenge.xip.test'' vs ar \<and> (\<forall>v\<in>set vs. length v \<le> 255)"

text \<open>No token expires while a test runs.\<close>

definition unexpired :: "instant \<Rightarrow> (nat \<Rightarrow> instant) \<Rightarrow> bool" where
  "unexpired now c \<longleftrightarrow> (\<forall>j. now < plus_duration (c j) (duration_from_secs 60))"

definition brief :: "(nat \<Rightarrow> instant) \<Rightarrow> bool" where
  "brief c \<longleftrightarrow> (\<forall>i. unexpired (c i) c)"

lemma unexpiredD: "unexpired now c \<Longrightarrow> now < plus_duration (c j) (duration_from_secs 60)"
  by (simp add: unexpired_def)

lemma briefD: "brief c \<Longrightarrow> unexpired (c i) c"
  by (simp add: brief_def)

lemma dns_filled_start: "dns_filled H c mx [] (with_serial (duration_from_secs 60) mx (test_cap H) ser)"
  "dns_filled H c mx [] (new_records timestamp (duration_from_secs 60) mx (test_cap H))"
  by (simp_all add: dns_filled_def filled_start new_records_def)

lemma dns_must_add:
  assumes fmt: "message_format H new" and live: "brief c" and order: "fair_order ho"
    and ar: "dns_filled H c mx vs ar" and v: "v \<notin> set vs" "length v \<le> 255" "length vs < mx" "length vs < 200"
  shows "\<exists>ar'. must_add H ho (c i) ''_acme-challenge.xip.test'' v ar = Some ar' \<and> dns_filled H c mx (vs @ [v]) ar'"
proof -
  have "fits H (test_cap H) (vs @ [v]) = Some True"
    using ar v by (intro fits_small [OF fmt]) (auto simp: dns_filled_def)
  moreover have "filled (duration_from_secs 60) mx (test_cap H) c ''_acme-challenge.xip.test'' vs ar"
    using ar by (simp add: dns_filled_def)
  ultimately obtain ar' where "add H ho (c i) (c i) ''_acme-challenge.xip.test'' v ar = Some (Inr (), ar')"
      "filled (duration_from_secs 60) mx (test_cap H) c ''_acme-challenge.xip.test'' (vs @ [v]) ar'"
    using filled_add [OF _ unexpiredD [OF briefD [OF live]] order v(1,3), where i = i and b = True] by fastforce
  then show ?thesis using ar v(2) by (auto simp: must_add_def dns_filled_def)
qed

lemma dns_values:
  assumes "dns_filled H c mx vs ar" and "unexpired now c"
  shows "txt_values make_config (refresh_zone now ar) ''_acme-challenge.xip.test'' TXT = vs"
proof -
  have "filled (duration_from_secs 60) mx (test_cap H) c ''_acme-challenge.xip.test'' vs ar"
    using assms(1) by (simp add: dns_filled_def)
  from filled_get [OF this unexpiredD [OF assms(2)]] show ?thesis
    by (simp add: txt_values_def store_values_def get_values_def get_with_serial_def Let_def)
qed

text \<open>The answer to a TXT query for the challenge name.\<close>

abbreviation challenge_rrs :: "'nm hickory \<Rightarrow> string list \<Rightarrow> 'nm rr list" where
  "challenge_rrs H vs \<equiv> map (txt_record (the_name H ''_acme-challenge.xip.test'') 60) vs"

lemma challenge_dispatch:
  assumes "message_format H new" and "answers m0 = []"
  shows "answer_query H make_config n ''_acme-challenge.xip.test'' TXT vs soa_rr m0 = Some (m0\<lparr>answers := challenge_rrs H vs\<rparr>)"
  using name_facts [OF assms(1)] existing_names(3) assms(2)
  by (cases vs) (simp_all add: answer_query_def txt_records_def nxdomain_unless_def Let_def fold_add_answer add_answer_def)

lemma challenge_bytes:
  assumes "message_format H new" and "\<forall>v\<in>set vs. length v \<le> 255"
  shows "sum_list (map (record_size H) (challenge_rrs H vs)) \<le> length vs * 292"
    and "\<forall>r\<in>set (challenge_rrs H vs). writable_data (rr_data r)"
proof -
  show "sum_list (map (record_size H) (challenge_rrs H vs)) \<le> length vs * 292"
    using assms(2) by (induction vs) (simp_all add: txt_size [OF assms(1)])
  show "\<forall>r\<in>set (challenge_rrs H vs). writable_data (rr_data r)"
    using assms(2) by (simp add: txt_record_def)
qed

lemma dns_txt:
  fixes H :: "'nm hickory"
  assumes fmt: "message_format H new" and s: "s \<in> set test_names" "to_lowercase s = ''_acme-challenge.xip.test''"
    and ar: "dns_filled H c mx vs ar" "unexpired now c" and few: "length vs \<le> 200"
  obtains d where "run_query H new now (test_handler ar) s TXT = Some (d, test_handler (refresh_zone now ar))"
    "response_code d = NoError" "list_all2 (same_record H) (challenge_rrs H vs) (answers d)" "\<not> truncation d"
    "list_all2 (same_record H) [the_soa H (store_serial (refresh_zone now ar))] (authorities d)"
proof (rule run_zone [OF fmt s(1), where an = "\<lambda>n. challenge_rrs H vs" and ad = "[]" and
      h = "test_handler ar" and qt = TXT and now = now])
  have vs: "\<forall>v\<in>set vs. length v \<le> 255" using ar(1) by (simp add: dns_filled_def)
  note b = challenge_bytes [OF fmt vs]
  show "is_our_domain (to_lowercase s) ''xip.test''" using in_zone(3) s(2) by simp
  show "sum_list (map (record_size H) (challenge_rrs H vs)) + sum_list (map (record_size H) []) \<le> 60000"
    using b(1) few by simp
  show "\<forall>r\<in>set (challenge_rrs H vs) \<union> set []. writable_data (rr_data r)" using b(2) by simp
  fix q :: "'nm question" and m0 :: "'nm message"
  assume "answers m0 = []" "additionals m0 = []"
  then show "\<exists>m. answer_query H make_config (q_name q) (to_lowercase s) TXT
      (txt_values make_config (refresh_zone now (acme (test_handler ar))) (to_lowercase s) TXT)
      (the_soa H (store_serial (refresh_zone now (acme (test_handler ar))))) m0 = Some m \<and>
      answers m = challenge_rrs H vs \<and> additionals m = []"
    using dns_values [OF ar] by (simp add: s(2) challenge_dispatch [OF fmt])
qed (use s(2) existing_names that in simp_all)

lemma token_tests_pass:
  assumes fmt: "message_format H new" and live: "brief c" and order: "fair_order ho"
  shows "acme_challenge_txt_with_token_returns_answer H new ho timestamp c = Some ()"
    and "concurrent_tokens_are_separate_txt_records H new ho timestamp c = Some ()"
    and "acme_challenge_txt_with_0x20_case_and_token_returns_answer H new ho timestamp c = Some ()"
proof -
  let ?ar = "new_records timestamp (duration_from_secs 60) 100 (test_cap H)" and ?n = "''_acme-challenge.xip.test''"
  have add: "\<exists>ar'. must_add H ho (c 0) ?n v ?ar = Some ar' \<and> dns_filled H c 100 [v] ar'" if "length v \<le> 255" for v
    using dns_must_add [OF fmt live order dns_filled_start(2), of v 100 0] that by simp
  have one: "\<exists>d h. run_query H new (c 1) (test_handler ar) s TXT = Some (d, h) \<and> response_code d = NoError \<and> length (answers d) = 1"
    if "s \<in> set test_names" "to_lowercase s = ?n" "dns_filled H c 100 [v] ar" for s v ar
    by (rule dns_txt [OF fmt that briefD [OF live, of 1]]) (auto dest: list_all2_lengthD)
  show "acme_challenge_txt_with_token_returns_answer H new ho timestamp c = Some ()"
    using add [of "''token123''"] one [OF names_in(1) lower_names(5)]
    by (fastforce simp: acme_challenge_txt_with_token_returns_answer_def dns_start [OF fmt])
  show "acme_challenge_txt_with_0x20_case_and_token_returns_answer H new ho timestamp c = Some ()"
    using add [of "''tok''"] one [OF names_in(2) lower_names(6)]
    by (fastforce simp: acme_challenge_txt_with_0x20_case_and_token_returns_answer_def dns_start [OF fmt])
  obtain ar1 where ar1: "must_add H ho (c 0) ?n ''token-one'' ?ar = Some ar1" "dns_filled H c 100 [''token-one''] ar1"
    using add [of "''token-one''"] by auto
  obtain ar2 where ar2: "must_add H ho (c 1) ?n ''token-two'' ar1 = Some ar2" "dns_filled H c 100 [''token-one'', ''token-two''] ar2"
    using dns_must_add [OF fmt live order ar1(2), of "''token-two''" 1] by auto
  show "concurrent_tokens_are_separate_txt_records H new ho timestamp c = Some ()"
  proof (rule dns_txt [OF fmt names_in(1) lower_names(5) ar2(2) briefD [OF live, of 2]])
    fix d
    assume d: "run_query H new (c 2) (test_handler ar2) ?n TXT = Some (d, test_handler (refresh_zone (c 2) ar2))"
      "list_all2 (same_record H) (challenge_rrs H [''token-one'', ''token-two'']) (answers d)"
    then obtain r1 r2 where "answers d = [r1, r2]" "rr_data r1 = RTXT [''token-one'']" "rr_data r2 = RTXT [''token-two'']"
      by (auto simp: list_all2_Cons1 same_record_def txt_record_def)
    then show ?thesis
      using ar1(1) ar2(1) d(1) by (simp add: concurrent_tokens_are_separate_txt_records_def dns_start [OF fmt])
  qed simp
qed

subsection \<open>Twenty long values\<close>

definition long_values :: "nat \<Rightarrow> string list" where
  "long_values k = map long_value [0..<k]"

lemma length_long_value: "i < 100 \<Longrightarrow> length (long_value i) = 200"
  using length_show_nat [of i 1] by (simp add: long_value_def)

lemma long_value_prefixes: "distinct (map (\<lambda>i. take 2 (long_value i)) [0..<20])"
  by code_simp

lemma long_value_new:
  assumes "k < 20"
  shows "long_value k \<notin> set (long_values k)"
proof
  assume "long_value k \<in> set (long_values k)"
  then obtain i where "i < k" "long_value i = long_value k" by (auto simp: long_values_def)
  then have "i = k" using long_value_prefixes assms by (fastforce simp: distinct_map inj_on_def)
  with \<open>i < k\<close> show False by simp
qed

lemma add_long_fills:
  assumes fmt: "message_format H new" and live: "brief c" and order: "fair_order ho"
    and "dns_filled H c 100 (long_values k) ar" and "k \<le> 20"
  shows "\<exists>ar'. add_long H ho c [k..<20] ar = Some ar' \<and> dns_filled H c 100 (long_values 20) ar'"
  using assms(4,5)
proof (induction "20 - k" arbitrary: k ar)
  case 0
  then have "k = 20" by simp
  with 0 show ?case by simp
next
  case (Suc j)
  then have k: "k < 20" "[k..<20] = k # [Suc k..<20]" by (auto simp: upt_rec)
  have len: "length (long_values k) = k" by (simp add: long_values_def)
  obtain ar1 where ar1: "must_add H ho (c k) ''_acme-challenge.xip.test'' (long_value k) ar = Some ar1"
      "dns_filled H c 100 (long_values k @ [long_value k]) ar1"
    using dns_must_add [OF fmt live order Suc.prems(1) long_value_new [OF k(1)], of k] k(1) len
    by (auto simp: length_long_value)
  moreover have "long_values k @ [long_value k] = long_values (Suc k)" by (simp add: long_values_def)
  ultimately show ?case
    using Suc.hyps(1) [of "Suc k" ar1] Suc.hyps(2) k by auto
qed

text \<open>The answer before it is encoded.\<close>

lemma challenge_message:
  assumes fmt: "message_format H new" and req: "asks H ''_acme-challenge.xip.test'' TXT IN request q" "msg_edns request = None"
    and ar: "dns_filled H c mx vs ar" "unexpired now c"
  obtains m where "build_response H now request (test_handler ar) = Some (m, test_handler (refresh_zone now ar))"
    "answers m = challenge_rrs H vs" "authorities m = [the_soa H (store_serial (refresh_zone now ar))]" "additionals m = []"
    "queries m = [q]" "op_code m = Query" "response_code m = NoError" "\<not> truncation m" "msg_edns m = None" "writable m"
    "text_size m = sum_list (map length vs)"
    "message_size H m \<le> 12 + 31 + sum_list (map (record_size H) (challenge_rrs H vs)) + 70"
proof -
  let ?ser = "store_serial (refresh_zone now ar)"
  define m where "m = (base_response H request q ?ser)\<lparr>answers := challenge_rrs H vs\<rparr>"
  have r: "response_law H" by (rule format_laws(1) [OF fmt])
  have vs: "\<forall>v\<in>set vs. length v \<le> 255" using ar(1) by (simp add: dns_filled_def)
  have b: "build_response H now request (test_handler ar) = Some (m, test_handler (refresh_zone now ar))"
    using response_in_zone [OF fmt req(1) names_in(1) req(2), where h = "test_handler ar" and now = now, unfolded lower_names]
      in_zone(3) dns_values [OF ar] r
    by (simp add: challenge_dispatch [OF fmt] m_def)
  have sel: "answers m = challenge_rrs H vs" "authorities m = [the_soa H ?ser]" "additionals m = []"
    "queries m = [q]" "op_code m = Query" "response_code m = NoError" "\<not> truncation m" "msg_edns m = None"
    using r req by (simp_all add: m_def asks_def)
  have "writable m"
    using challenge_bytes(2) [OF fmt vs] soa_size(2) [OF fmt] req(1) by (auto simp: writable_def sel all_records_def asks_def)
  moreover have "text_size m = sum_list (map length vs)"
    by (simp add: text_size_def sel comp_def txt_record_def)
  moreover have "message_size H m \<le> 12 + 31 + sum_list (map (record_size H) (challenge_rrs H vs)) + 70"
    using asks_text(3) [OF req(1) names_in(1)] soa_size(1) [OF fmt]
    by (simp add: message_size_def sel all_records_def question_size_def name_size_def)
  ultimately show thesis using that [OF b sel] by blast
qed

text \<open>The truncated form, as the client reads it: the question, no records, in less than 512 bytes.\<close>

lemma truncated_form:
  assumes fmt: "message_format H new" and m: "queries m = [q]" "op_code m = Query" "response_code m = NoError" "msg_edns m = None"
    and q: "q_type q = TXT" "q_class q = IN" "length (to_ascii H (q_name q)) \<le> 25"
  obtains encoded d again where "to_vec H (truncate_message H m) = Some encoded" "from_vec H encoded = Some d" "truncation d"
    "answers d = []" "length (queries d) = 1" "to_vec H d = Some again" "length again \<le> 512" "length encoded \<le> 512"
proof -
  define t where "t = truncate_message H m"
  have sel: "queries t = [q]" "op_code t = Query" "response_code t = NoError" "msg_edns t = None" "truncation t" "answers t = []"
    "authorities t = []" "additionals t = []"
    using m by (simp_all add: t_def format_laws(4) [OF fmt])
  have w: "writable t" using q(1,2) by (simp add: writable_def sel all_records_def)
  have z: "message_size H t \<le> 43" using q(3) by (simp add: message_size_def sel all_records_def question_size_def name_size_def)
  obtain encoded d where d: "to_vec H t = Some encoded" "length encoded \<le> message_size H t" "from_vec H encoded = Some d" "reads_back H t d"
    by (rule written [OF fmt w]) (use z in auto)
  obtain q' where q': "queries d = [q']" "q_type q' = TXT" "q_class q' = IN" "to_ascii H (q_name q') = name_text H (q_name q) @ ''.''"
    using d(4) q by (auto simp: reads_back_def sel list_all2_Cons1 same_question_def same_name_def)
  have dsel: "op_code d = Query" "response_code d = NoError" "msg_edns d = None" "truncation d" "answers d = []"
    "authorities d = []" "additionals d = []"
    using d(4) by (simp_all add: reads_back_def sel)
  have "length (name_text H (q_name q)) \<le> 25"
    using q(3) length_dropWhile_le [of _ "rev (to_ascii H (q_name q))"]
    by (simp add: name_text_def trim_end_matches_def) (metis le_trans length_rev)
  then have z': "message_size H d \<le> 512" by (simp add: message_size_def dsel q' all_records_def question_size_def name_size_def)
  have w': "writable d" by (simp add: writable_def dsel q' all_records_def)
  obtain again where "to_vec H d = Some again" "length again \<le> message_size H d"
    by (rule written [OF fmt w']) (use z' in auto)
  then show thesis using that d z z' dsel q'(1) unfolding t_def by auto
qed

lemma text_limit:
  assumes "message_format H new" and "to_vec H m = Some raw" and "from_vec H raw = Some d" and "\<not> truncation d"
  shows "text_size m \<le> length raw" "length raw \<le> 65535"
proof -
  have "limit_law H" using assms(1) by (simp add: message_format_def)
  then have "text_size m \<le> length raw \<and> length raw \<le> 65535" using assms(2-4) unfolding limit_law_def by blast
  then show "text_size m \<le> length raw" "length raw \<le> 65535" by simp_all
qed

text \<open>A complete answer that carries more than 512 bytes of text is cut short for a client without EDNS.\<close>

lemma udp_cut_short:
  assumes fmt: "message_format H new" and req: "asks H ''_acme-challenge.xip.test'' TXT IN request q" "msg_edns request = None"
    "from_vec H raw = Some request" and ar: "dns_filled H c mx vs ar" "unexpired now c" and big: "512 < sum_list (map length vs)"
    and m: "build_response H now request (test_handler ar) = Some (m, h')" "text_size m = sum_list (map length vs)"
      "to_vec H m = Some reply" "from_vec H reply = Some d" "\<not> truncation d"
  obtains encoded t again where "handle_udp H now raw (test_handler ar) = Some (encoded, h')" "from_vec H encoded = Some t"
    "truncation t" "answers t = []" "length (queries t) = 1" "to_vec H t = Some again" "length again \<le> 512"
proof -
  have q: "q_type q = TXT" "q_class q = IN" "length (to_ascii H (q_name q)) \<le> 25"
    using req(1) asks_text(3) [OF req(1) names_in(1)] by (simp_all add: asks_def)
  obtain m' where m': "build_response H now request (test_handler ar) = Some (m', test_handler (refresh_zone now ar))"
      "queries m' = [q]" "op_code m' = Query" "response_code m' = NoError" "msg_edns m' = None"
    by (rule challenge_message [OF fmt req(1,2) ar]) blast
  then have eq: "m' = m" using m(1) by simp
  obtain encoded t again where t: "to_vec H (truncate_message H m) = Some encoded" "from_vec H encoded = Some t" "truncation t"
      "answers t = []" "length (queries t) = 1" "to_vec H t = Some again" "length again \<le> 512"
    by (rule truncated_form [OF fmt m'(2-5) [unfolded eq] q]) blast
  have "512 < length reply" using text_limit(1) [OF fmt m(3-5)] m(2) big by simp
  moreover have "unat (min (message_max_payload H request) MAX_UDP_PAYLOAD) = 512"
    using req(2) by (simp add: format_laws(5) [OF fmt] MAX_UDP_PAYLOAD_def)
  moreover have "message_type request = QueryMessage" using req(1) by (simp add: asks_def)
  ultimately have "handle_udp H now raw (test_handler ar) = Some (encoded, h')"
    using req(3) m t(1) by (simp add: handle_udp_def encode_complete_or_servfail_def Let_def)
  with that t show thesis by blast
qed

lemma oversized_tests_pass:
  assumes fmt: "message_format H new" and live: "brief c" and order: "fair_order ho"
  shows "oversized_udp_response_is_truncated H new ho timestamp c = Some ()"
    and "large_rrset_is_complete_without_udp_limit H new ho timestamp c = Some ()"
proof -
  let ?ar = "new_records timestamp (duration_from_secs 60) 100 (test_cap H)" and ?n = "''_acme-challenge.xip.test''"
  let ?vs = "long_values 20"
  obtain ar where ar: "add_long H ho c [0..<20] ?ar = Some ar" "dns_filled H c 100 ?vs ar"
    using add_long_fills [OF fmt live order _ zero_le, of ?ar] dns_filled_start(2) [of H c 100 timestamp]
    by (auto simp: long_values_def)
  obtain raw request q where req: "query_msg H new ?n TXT = Some raw" "from_vec H raw = Some request" "asks H ?n TXT IN request q"
      "msg_edns request = None"
    by (rule query_asked [OF fmt names_in(1), of TXT]) auto
  obtain m where m: "build_response H (c 20) request (test_handler ar) = Some (m, test_handler (refresh_zone (c 20) ar))"
      "answers m = challenge_rrs H ?vs" "\<not> truncation m" "writable m" "text_size m = sum_list (map length ?vs)"
      "message_size H m \<le> 12 + 31 + sum_list (map (record_size H) (challenge_rrs H ?vs)) + 70"
    by (rule challenge_message [OF fmt req(3,4) ar(2) briefD [OF live, of 20]]) blast
  have len: "length ?vs = 20" "map length ?vs = map (\<lambda>i. 200) [0..<20]"
    by (simp_all add: long_values_def length_long_value)
  have "\<forall>v\<in>set ?vs. length v \<le> 255" using ar(2) by (simp add: dns_filled_def)
  from challenge_bytes(1) [OF fmt this] have small: "message_size H m \<le> 65535" using m(6) len(1) by simp
  have "message_type request = QueryMessage" using req(3) by (simp add: asks_def)
  from handle_read [OF fmt req(2) this m(1,4) small m(3)] obtain reply d where
    d: "handle H (c 20) raw (test_handler ar) = Some (reply, test_handler (refresh_zone (c 20) ar))" "from_vec H reply = Some d"
      "reads_back H m d" "to_vec H m = Some reply" by metis
  have nt: "\<not> truncation d" using d(3) m(3) by (simp add: reads_back_def)
  have big: "512 < sum_list (map length ?vs)" by (simp only: len(2)) (simp add: sum_list_triv)
  show "oversized_udp_response_is_truncated H new ho timestamp c = Some ()"
    by (rule udp_cut_short [OF fmt req(3,4,2) ar(2) briefD [OF live, of 20] big m(1,5) d(4,2) nt])
      (simp add: oversized_udp_response_is_truncated_def dns_start [OF fmt] ar(1) req(1))
  have l2: "list_all2 (same_record H) (challenge_rrs H ?vs) (answers d)" using d(3) m(2) by (simp add: reads_back_def)
  then have "list_all (\<lambda>r. to_ascii H (rr_name r) = ''_acme-challenge.xip.test.'' \<and> record_type_of (rr_data r) = TXT) (answers d)"
    using name_facts(10) [OF fmt] test_name_trim(1) [OF names_in(1)]
    by (auto simp: list_all_length list_all2_conv_all_nth same_record_def same_name_def txt_record_def name_text_def)
  moreover have "length (answers d) = 20" using list_all2_lengthD [OF l2] len(1) by simp
  ultimately show "large_rrset_is_complete_without_udp_limit H new ho timestamp c = Some ()"
    using nt by (simp add: large_rrset_is_complete_without_udp_limit_def dns_start [OF fmt] ar(1) req(1) d(1,2))
qed

subsection \<open>The answer at capacity\<close>

lemma fill_dns_overflow:
  assumes over: "first_overflow H (test_cap H) N" "N \<le> mx" and live: "brief c" and order: "fair_order ho"
    and "filled (duration_from_secs 60) mx (test_cap H) c ''_acme-challenge.xip.test'' (fillers k) ar" and "k < N"
  shows "\<exists>ar'. fill_dns H ho c k ar = Some (N - 1, ar') \<and>
    filled (duration_from_secs 60) mx (test_cap H) c ''_acme-challenge.xip.test'' (fillers (N - 1)) ar'"
  using assms(5,6)
proof (induction "N - Suc k" arbitrary: k ar)
  case 0
  then have k: "N = Suc k" by simp
  then have "fits H (test_cap H) (fillers k @ [filler k]) = Some False" using over(1) by (simp add: first_overflow_def)
  then obtain ar' where "add H ho (c k) (c k) ''_acme-challenge.xip.test'' (filler k) ar = Some (Inl DnsWireCapacityReached, ar')"
      "filled (duration_from_secs 60) mx (test_cap H) c ''_acme-challenge.xip.test'' (fillers k) ar'"
    using filled_add [OF 0(2) unexpiredD [OF briefD [OF live]] order, of "filler k" H False k] k over(2)
    by (auto simp: filler_in_fillers)
  with k show ?case by (subst fill_dns.simps) simp
next
  case (Suc d)
  then have "Suc k < N" by simp
  then have "fits H (test_cap H) (fillers (Suc k)) = Some True" using over(1) unfolding first_overflow_def by blast
  then have "fits H (test_cap H) (fillers k @ [filler k]) = Some True" by simp
  then obtain ar' where ar': "add H ho (c k) (c k) ''_acme-challenge.xip.test'' (filler k) ar = Some (Inr (), ar')"
      "filled (duration_from_secs 60) mx (test_cap H) c ''_acme-challenge.xip.test'' (fillers (Suc k)) ar'"
    using filled_add [OF Suc.prems(1) unexpiredD [OF briefD [OF live]] order, of "filler k" H True k] Suc.prems(2) over(2)
    by (auto simp: filler_in_fillers)
  have "\<exists>ar''. fill_dns H ho c (Suc k) ar' = Some (N - 1, ar'') \<and>
      filled (duration_from_secs 60) mx (test_cap H) c ''_acme-challenge.xip.test'' (fillers (N - 1)) ar''"
    using Suc.hyps(2) by (intro Suc.hyps(1) ar'(2)) simp_all
  with ar'(1) show ?case by (subst fill_dns.simps) simp
qed

text \<open>The measurement speaks for the answer that is sent.\<close>

lemma measured_answer_complete:
  assumes fmt: "message_format H new" and fits: "fits H (test_cap H) vs = Some True"
    and req: "asks H ''_acme-challenge.xip.test'' TXT IN request q"
    and m: "answers m = challenge_rrs H vs" "authorities m = [the_soa H ser]" "additionals m = []" "queries m = [q]"
      "\<not> truncation m" "msg_edns m = None"
  shows "is_complete H m (length vs)"
proof (rule measured [OF fmt, of vs])
  fix m0
  assume m0: "response H (test_cap H) vs = Some m0" "answers m0 = challenge_rrs H vs"
    "queries m0 = [\<lparr>q_name = the_name H ''_acme-challenge.xip.test'', q_type = TXT, q_class = IN\<rparr>]"
    "authorities m0 = [the_soa H 0]" "additionals m0 = []"
  have "name_text H (q_name q) = name_text H (the_name H ''_acme-challenge.xip.test'')"
    using asks_text(2) [OF req names_in(1)] name_facts(10) [OF fmt] test_name_trim(1) [OF names_in(1)] by (simp add: name_text_def)
  then have "same_shape H m0 m"
    using m m0 req by (simp add: same_shape_def asks_def the_soa_def)
  moreover have "is_complete H m0 (length vs)" using fits m0(1) by (simp add: fits_def)
  moreover have "shape_law H" using fmt by (simp add: message_format_def)
  ultimately show ?thesis using m(5) unfolding shape_law_def by blast
qed

lemma refresh_filled:
  assumes "dns_filled H c mx vs ar" and "unexpired now c"
  shows "refresh_zone now ar = ar"
proof -
  have "filled (duration_from_secs 60) mx (test_cap H) c ''_acme-challenge.xip.test'' vs ar"
    using assms(1) by (simp add: dns_filled_def)
  then obtain ts where "holds ''_acme-challenge.xip.test'' ts ar" "\<forall>t\<in>set ts. now < expires_at t"
    by (rule filledE [OF _ unexpiredD [OF assms(2)]])
  then show ?thesis by (simp add: refresh_zone_def holds_live(1) set_zone_same)
qed

lemma fillers_bytes: "k \<le> 10000 \<Longrightarrow> sum_list (map length (fillers k)) = k * 255"
  by (induction k) (simp_all add: length_filler)

lemma fallback_test_passes:
  assumes fmt: "message_format H new" and live: "brief c" "unexpired now c" and order: "fair_order ho"
  shows "udp_truncation_falls_back_to_a_complete_tcp_answer_at_capacity H new ho timestamp c now = Some ()"
proof -
  let ?ar = "new_records timestamp (duration_from_secs 60) USIZE_MAX (test_cap H)" and ?n = "''_acme-challenge.xip.test''"
  obtain N where N: "first_overflow H (test_cap H) N" "200 < N" "N \<le> 258" by (rule overflow_exists [OF fmt])
  have "N \<le> USIZE_MAX" "0 < N" using N by (simp_all add: USIZE_MAX_def)
  moreover have "filled (duration_from_secs 60) USIZE_MAX (test_cap H) c ?n (fillers 0) ?ar"
    using dns_filled_start(2) [of H c USIZE_MAX timestamp] by (simp add: dns_filled_def)
  ultimately obtain ar where ar: "fill_dns H ho c 0 ?ar = Some (N - 1, ar)"
      "filled (duration_from_secs 60) USIZE_MAX (test_cap H) c ?n (fillers (N - 1)) ar"
    using fill_dns_overflow [OF N(1) _ live(1) order] by blast
  have len: "\<forall>v\<in>set (fillers (N - 1)). length v = 255" using N(3) by (auto simp: fillers_def length_filler)
  then have f: "dns_filled H c USIZE_MAX (fillers (N - 1)) ar" using ar(2) by (simp add: dns_filled_def)
  obtain raw request q where req: "query_msg H new ?n TXT = Some raw" "from_vec H raw = Some request" "asks H ?n TXT IN request q"
      "msg_edns request = None"
    by (rule query_asked [OF fmt names_in(1), of TXT]) auto
  obtain m where m: "build_response H now request (test_handler ar) = Some (m, test_handler (refresh_zone now ar))"
      "answers m = challenge_rrs H (fillers (N - 1))" "authorities m = [the_soa H (store_serial (refresh_zone now ar))]"
      "additionals m = []" "queries m = [q]" "\<not> truncation m" "msg_edns m = None" "text_size m = sum_list (map length (fillers (N - 1)))"
      "writable m" "response_code m = NoError"
    by (rule challenge_message [OF fmt req(3,4) f live(2)]) blast
  have b: "build_response H now request (test_handler ar) = Some (m, test_handler ar)"
    using m(1) refresh_filled [OF f live(2)] by simp
  have "fits H (test_cap H) (fillers (N - 1)) = Some True" using N(1,2) by (simp add: first_overflow_def)
  then have "is_complete H m (length (fillers (N - 1)))"
    by (rule measured_answer_complete [OF fmt _ req(3) m(2-7)])
  then obtain reply d where d: "to_vec H m = Some reply" "from_vec H reply = Some d" "\<not> truncation d" "length (answers d) = N - 1"
    by (auto simp: is_complete_iff)
  have "header_law H" using fmt by (simp add: message_format_def)
  then have rc: "response_code d = NoError" using m(9,10) d(1,2) unfolding header_law_def by force
  have big: "512 < sum_list (map length (fillers (N - 1)))" using N(2,3) fillers_bytes [of "N - 1"] by simp
  have "message_type request = QueryMessage" using req(3) by (simp add: asks_def)
  then have tcp: "handle H now raw (test_handler ar) = Some (reply, test_handler ar)"
    using req(2) b d(1-3) by (simp add: handle_def encode_complete_or_servfail_def)
  show ?thesis
    by (rule udp_cut_short [OF fmt req(3,4,2) f live(2) big b m(8) d(1-3)])
      (use rc d text_limit(2) [OF fmt d(1-3)] in
        \<open>simp add: udp_truncation_falls_back_to_a_complete_tcp_answer_at_capacity_def capacity_test [OF fmt] ar(1) req(1) tcp\<close>)
qed

end
