(* ===== verification/Dns_Apex_Tests.thy ===== *)
theory Dns_Apex_Tests
  imports Dns_Tests_Pass
begin

text \<open>
  The unit tests of \<open>src/dns.rs\<close> about the apex records and the serial, and those about queries
  that are malformed or not supported, pass for every DNS library that keeps the message format.
\<close>

subsection \<open>Apex records\<close>

definition apex_answers :: "'nm hickory \<Rightarrow> u32 \<Rightarrow> record_type \<Rightarrow> 'nm rr list" where
  "apex_answers H ser qt = (if qt = SOA then [the_soa H ser]
     else [ns_record make_config (the_name H ''xip.test'') (the_name H ''ns1.xip.test''),
           ns_record make_config (the_name H ''xip.test'') (the_name H ''ns2.xip.test'')])"

definition apex_additionals :: "'nm hickory \<Rightarrow> record_type \<Rightarrow> 'nm rr list" where
  "apex_additionals H qt = (if qt = SOA then []
     else [a_record make_config (the_name H ''ns1.xip.test'') (Ipv4 127 0 0 1),
           a_record make_config (the_name H ''ns2.xip.test'') (Ipv4 127 0 0 1)])"

lemma apex_dispatch:
  assumes fmt: "message_format H new" and "qt = SOA \<or> qt = NS" and "answers m0 = []" "additionals m0 = []"
  shows "\<exists>m. answer_query H make_config n ''xip.test'' qt vs (the_soa H ser) m0 = Some m \<and>
    answers m = apex_answers H ser qt \<and> additionals m = apex_additionals H qt"
  using assms(2-4) name_facts [OF fmt]
  by (auto simp: answer_query_def apex_answers_def apex_additionals_def ns_glue_def add_answer_def add_additional_def
      Let_def fold_add_additional)

lemma dns_apex:
  fixes H :: "'nm hickory"
  assumes fmt: "message_format H new" and s: "s \<in> set test_names" "to_lowercase s = ''xip.test''"
    and qt: "qt = SOA \<or> qt = NS" and ar: "refresh_zone now ar = ar"
  obtains d where "run_query H new now (test_handler ar) s qt = Some (d, test_handler ar)" "authoritative d" "response_code d = NoError"
    "list_all2 (same_record H) (apex_answers H (store_serial ar) qt) (answers d)"
    "list_all2 (same_record H) [the_soa H (store_serial ar)] (authorities d)"
    "list_all2 (same_record H) (apex_additionals H qt) (additionals d)"
proof (rule run_zone [OF fmt s(1), where an = "\<lambda>n. apex_answers H (store_serial ar) qt" and ad = "apex_additionals H qt" and
      h = "test_handler ar" and qt = qt and now = now and ser = "store_serial ar"])
  show "is_our_domain (to_lowercase s) ''xip.test''" using in_zone(2) s(2) by simp
  show "qt \<in> {SOA, NS, A, TXT, CAA}" using qt by auto
  show "sum_list (map (record_size H) (apex_answers H (store_serial ar) qt)) + sum_list (map (record_size H) (apex_additionals H qt)) \<le> 60000"
    using soa_size(1,3,4) [OF fmt] soa_size(5,6) [OF fmt, of "Ipv4 127 0 0 1"]
    by (simp add: apex_answers_def apex_additionals_def)
  show "\<forall>r\<in>set (apex_answers H (store_serial ar) qt) \<union> set (apex_additionals H qt). writable_data (rr_data r)"
    using soa_size(2) [OF fmt] by (simp add: apex_answers_def apex_additionals_def a_record_def ns_record_def)
  fix q :: "'nm question" and m0 :: "'nm message"
  assume "answers m0 = []" "additionals m0 = []"
  from apex_dispatch [OF fmt qt this]
  show "\<exists>m. answer_query H make_config (q_name q) (to_lowercase s) qt
      (txt_values make_config (refresh_zone now (acme (test_handler ar))) (to_lowercase s) qt) (the_soa H (store_serial ar)) m0 = Some m \<and>
      answers m = apex_answers H (store_serial ar) qt \<and> additionals m = apex_additionals H qt"
    by (simp add: s(2))
qed (use s(2) existing_names ar that in simp_all)

lemma same_soa:
  assumes "message_format H new" and "list_all2 (same_record H) [the_soa H ser] rs"
  shows "map (to_ascii H \<circ> rr_name) rs = [''xip.test.'']" "serial_in rs = Some ser"
  using assms(2) name_facts [OF assms(1)] test_name_trim(1) [OF names_in(4)]
  by (auto simp: list_all2_Cons1 same_record_def same_name_def the_soa_def name_text_def)

text \<open>A query below the apex: no records, the SOA in the authority section.\<close>

lemma dns_below_apex:
  fixes H :: "'nm hickory"
  assumes fmt: "message_format H new" and s: "s \<in> set test_names" "to_lowercase s = t" "t \<noteq> ''xip.test''"
    and our: "is_our_domain t ''xip.test''" and qt: "qt = SOA \<or> qt = NS" and ar: "refresh_zone now ar = ar"
  obtains d where "run_query H new now (test_handler ar) s qt = Some (d, test_handler ar)" "authoritative d"
    "response_code d = (if name_exists make_config t then NoError else NXDomain)" "answers d = []" "additionals d = []"
    "map (to_ascii H \<circ> rr_name) (authorities d) = [''xip.test.'']" "serial_in (authorities d) = Some (store_serial ar)"
proof (rule run_empty [OF fmt s(1), of qt "test_handler ar" now])
  show "qt \<in> {SOA, NS, A, TXT, CAA}" using qt by auto
  show "is_our_domain (to_lowercase s) ''xip.test''" using our s(2) by simp
  show "qt = A \<and> resolve_a make_config (to_lowercase s) = None \<or> qt \<in> {SOA, NS} \<and> to_lowercase s \<noteq> ''xip.test'' \<or>
      qt = TXT \<and> txt_values make_config (refresh_zone now (acme (test_handler ar))) (to_lowercase s) TXT = [] \<or> qt = CAA"
    using qt s by auto
  fix d
  assume d: "run_query H new now (test_handler ar) s qt =
      Some (d, (test_handler ar)\<lparr>acme := refresh_zone now (acme (test_handler ar))\<rparr>)" "authoritative d"
    "response_code d = (if name_exists make_config (to_lowercase s) then NoError else NXDomain)" "answers d = []"
    "list_all2 (same_record H) [the_soa H (store_serial (refresh_zone now (acme (test_handler ar))))] (authorities d)"
    "additionals d = []"
  have auth: "list_all2 (same_record H) [the_soa H (store_serial ar)] (authorities d)" using d(5) ar by simp
  show thesis
    by (rule that [OF _ d(2) _ d(4,6) same_soa [OF fmt auth]]) (use d(1,3) s(2) ar in simp_all)
qed simp

lemma owner_test:
  assumes fmt: "message_format H new" and qt: "qt = SOA \<or> qt = NS" and ar: "records (state ar) = []" "store_serial ar = 123"
  shows "owner_semantics H new c qt (test_handler ar) = Some (test_handler ar)"
proof -
  have fresh: "refresh_zone now ar = ar" for now by (rule refresh_empty [OF ar(1)])
  obtain d where d: "run_query H new (c 0) (test_handler ar) ''XiP.TeSt'' qt = Some (d, test_handler ar)" "authoritative d"
      "response_code d = NoError" "list_all2 (same_record H) (apex_answers H (store_serial ar) qt) (answers d)"
      "list_all2 (same_record H) [the_soa H (store_serial ar)] (authorities d)"
      "list_all2 (same_record H) (apex_additionals H qt) (additionals d)"
    by (rule dns_apex [OF fmt names_in(3) lower_names(3) qt fresh])
  note auth = same_soa [OF fmt d(5)]
  obtain d1 where d1: "run_query H new (c 1) (test_handler ar) ''127-0-0-1.xIp.TeSt'' qt = Some (d1, test_handler ar)"
      "authoritative d1" "response_code d1 = NoError" "answers d1 = []" "additionals d1 = []"
      "map (to_ascii H \<circ> rr_name) (authorities d1) = [''xip.test.'']" "serial_in (authorities d1) = Some 123"
    by (rule dns_below_apex [OF fmt names_in(6) lower_names(2) _ in_zone(1) qt fresh, of "c 1"])
      (use existing_names ar(2) in simp_all)
  obtain d2 where d2: "run_query H new (c 2) (test_handler ar) ''missing.xip.test'' qt = Some (d2, test_handler ar)"
      "authoritative d2" "response_code d2 = NXDomain" "answers d2 = []" "additionals d2 = []"
      "map (to_ascii H \<circ> rr_name) (authorities d2) = [''xip.test.'']" "serial_in (authorities d2) = Some 123"
    by (rule dns_below_apex [OF fmt names_in(7) lower_names(7) _ in_zone(4) qt fresh, of "c 2"])
      (use existing_names ar(2) in simp_all)
  obtain d3 where d3: "run_query H new (c 3) (test_handler ar) ''example.com'' qt = Some (d3, test_handler ar)"
      "response_code d3 = Refused" "\<not> authoritative d3" "answers d3 = []" "authorities d3 = []" "additionals d3 = []"
    by (rule run_outside [OF fmt, of "test_handler ar" qt "c 3"]) (use qt in auto)
  note eval = d(1-3) auth d1 d2 d3 ar(2) owner_semantics_def
  have names: "to_ascii H (the_name H s) = s" "trim_end_matches CHR ''.'' s = s"
    if "s \<in> {''xip.test'', ''ns1.xip.test'', ''ns2.xip.test''}" for s
  proof -
    have "s \<in> set test_names" using that by (auto simp: test_names_def)
    then show "to_ascii H (the_name H s) = s" "trim_end_matches CHR ''.'' s = s"
      by (rule name_of(2) [OF fmt], rule test_name_trim(1))
  qed
  show ?thesis
  proof (cases "qt = SOA")
    case True
    then obtain r where r: "answers d = [r]" "same_record H (the_soa H 123) r" "additionals d = []"
      using d(4,6) ar(2) by (auto simp: apex_answers_def apex_additionals_def list_all2_Cons1)
    have "to_ascii H (rr_name r) = ''xip.test.''" "record_type_of (rr_data r) = SOA" "serial_in [r] = Some 123"
      using r(2) names [of "''xip.test''"] by (auto simp: same_record_def the_soa_def same_name_def name_text_def)
    then show ?thesis using r(1,3) by (simp add: eval [unfolded True One_nat_def] True)
  next
    case False
    then obtain r1 r2 a1 a2 where r: "answers d = [r1, r2]" "additionals d = [a1, a2]"
        "same_record H (ns_record make_config (the_name H ''xip.test'') (the_name H ''ns1.xip.test'')) r1"
        "same_record H (ns_record make_config (the_name H ''xip.test'') (the_name H ''ns2.xip.test'')) r2"
        "same_record H (a_record make_config (the_name H ''ns1.xip.test'') (Ipv4 127 0 0 1)) a1"
        "same_record H (a_record make_config (the_name H ''ns2.xip.test'') (Ipv4 127 0 0 1)) a2"
      using d(4,6) by (auto simp: apex_answers_def apex_additionals_def list_all2_Cons1)
    have "to_ascii H (rr_name r1) = ''xip.test.''" "record_type_of (rr_data r1) = NS"
      "to_ascii H (rr_name r2) = ''xip.test.''" "record_type_of (rr_data r2) = NS"
      using r(3,4) names [of "''xip.test''"] by (auto simp: same_record_def ns_record_def same_name_def name_text_def)
    moreover have "to_ascii H (rr_name a1) = ''ns1.xip.test.''" "record_type_of (rr_data a1) = A"
      using r(5) names [of "''ns1.xip.test''"] by (auto simp: same_record_def same_name_def name_text_def)
    moreover have "to_ascii H (rr_name a2) = ''ns2.xip.test.''" "record_type_of (rr_data a2) = A"
      using r(6) names [of "''ns2.xip.test''"] by (auto simp: same_record_def same_name_def name_text_def)
    moreover have ns: "qt = NS" using False qt by simp
    ultimately show ?thesis using r(1,2) by (simp add: eval [unfolded ns One_nat_def] ns)
  qed
qed

lemma owner_semantics_test_passes:
  assumes "message_format H new"
  shows "soa_and_ns_follow_authoritative_owner_semantics H new c = Some ()"
  using owner_test [OF assms, of _ "with_serial (duration_from_secs 60) 100 (test_cap H) 123"]
  by (simp add: soa_and_ns_follow_authoritative_owner_semantics_def dns_start [OF assms])

subsection \<open>The serial\<close>

abbreviation serial_store :: "'nm hickory \<Rightarrow> token list \<Rightarrow> u32 \<Rightarrow> 'nm acme_records" where
  "serial_store H ts ser \<equiv>
     one_name_store (duration_from_secs 60) 100 (test_cap H) ''_acme-challenge.xip.test'' ts ser"

lemma serial_store_facts:
  "with_serial (duration_from_secs 60) 100 (test_cap H) ser = serial_store H [] ser"
  "records (state (serial_store H [] ser)) = []" "store_serial (serial_store H ts ser) = ser"
  by (simp_all add: one_name_store_def with_serial_def store_serial_def)

lemma serial_store_filled:
  assumes "length v \<le> 255"
  shows "dns_filled H c 100 [v] (serial_store H [\<lparr>token_value = v, expires_at = plus_duration (c i) (duration_from_secs 60)\<rparr>] ser)"
proof -
  define t where "t = \<lparr>token_value = v, expires_at = plus_duration (c i) (duration_from_secs 60)\<rparr>"
  have "holds ''_acme-challenge.xip.test'' [t] (serial_store H [t] ser)" "map token_value [t] = [v]"
    "\<forall>u\<in>set [t]. \<exists>j. expires_at u = plus_duration (c j) (duration_from_secs 60)"
    by (simp_all add: holds_def one_name_store_def t_def exI [of _ i])
  moreover have "lifetime (serial_store H [t] ser) = duration_from_secs 60" "wire_capacity (serial_store H [t] ser) = test_cap H"
    "ar_max_tokens (serial_store H [t] ser) = 100"
    by (simp_all add: one_name_store_def)
  ultimately have "filled (duration_from_secs 60) 100 (test_cap H) c ''_acme-challenge.xip.test'' [v] (serial_store H [t] ser)"
    unfolding filled_def by (intro conjI exI [of _ "[t]"])
  then show ?thesis using assms by (simp add: dns_filled_def t_def)
qed

lemma serial_read:
  fixes H :: "'nm hickory"
  assumes fmt: "message_format H new"
  obtains d where "run_query H new now (test_handler (serial_store H [] ser)) ''xip.test'' SOA = Some (d, test_handler (serial_store H [] ser))"
    "serial_in (answers d) = Some ser" "serial_in (authorities d) = Some ser"
proof (rule dns_apex [OF fmt names_in(4) lower_names(4), where qt = SOA and now = now and ar = "serial_store H [] ser"])
  show "refresh_zone now (serial_store H [] ser) = serial_store H [] ser"
    by (rule refresh_empty) (rule serial_store_facts)
  fix d
  assume d: "run_query H new now (test_handler (serial_store H [] ser)) ''xip.test'' SOA = Some (d, test_handler (serial_store H [] ser))"
    "list_all2 (same_record H) (apex_answers H (store_serial (serial_store H [] ser)) SOA) (answers d)"
    "list_all2 (same_record H) [the_soa H (store_serial (serial_store H [] ser))] (authorities d)"
  have "list_all2 (same_record H) [the_soa H ser] (answers d)" "list_all2 (same_record H) [the_soa H ser] (authorities d)"
    using d(2,3) by (simp_all add: apex_answers_def serial_store_facts(3))
  then show thesis by (intro that [OF d(1)] same_soa(2) [OF fmt])
qed simp

lemma serial_test_passes:
  assumes fmt: "message_format H new" and live: "brief c" and order: "fair_order ho"
  shows "soa_serial_is_stable_and_tracks_dynamic_zone_changes H new ho c = Some ()"
proof -
  let ?n = "''_acme-challenge.xip.test''"
  define t where "t = \<lparr>token_value = ''token'', expires_at = plus_duration (c 2) (duration_from_secs 60)\<rparr>"
  obtain r1 where r1: "run_query H new (c 0) (test_handler (serial_store H [] 500)) ''xip.test'' SOA = Some (r1, test_handler (serial_store H [] 500))"
      "serial_in (answers r1) = Some 500" "serial_in (authorities r1) = Some 500"
    by (rule serial_read [OF fmt])
  obtain r2 where r2: "run_query H new (c 1) (test_handler (serial_store H [] 500)) ''xip.test'' SOA = Some (r2, test_handler (serial_store H [] 500))"
      "serial_in (answers r2) = Some 500" "serial_in (authorities r2) = Some 500"
    by (rule serial_read [OF fmt])
  obtain r3 where r3: "run_query H new (c 5) (test_handler (serial_store H [] 502)) ''xip.test'' SOA = Some (r3, test_handler (serial_store H [] 502))"
      "serial_in (answers r3) = Some 502" "serial_in (authorities r3) = Some 502"
    by (rule serial_read [OF fmt])
  have "fits H (test_cap H) [''token''] = Some True" by (rule fits_small [OF fmt]) auto
  then have add: "must_add H ho (c 2) ?n ''token'' (serial_store H [] 500) = Some (serial_store H [t] 501)"
    using add_first [OF order, of H "test_cap H" "''token''" 100 "c 2" ?n "duration_from_secs 60" 500] by (simp add: t_def)
  have f: "dns_filled H c 100 [''token''] (serial_store H [t] 501)" unfolding t_def by (rule serial_store_filled) simp
  have fresh: "refresh_zone (c 3) (serial_store H [t] 501) = serial_store H [t] 501"
    by (rule refresh_filled [OF f briefD [OF live]])
  obtain d where d: "run_query H new (c 3) (test_handler (serial_store H [t] 501)) ?n TXT = Some (d, test_handler (serial_store H [t] 501))"
      "length (answers d) = 1" "serial_in (authorities d) = Some 501"
  proof (rule dns_txt [OF fmt names_in(1) lower_names(5) f briefD [OF live, of 3]])
    fix d
    assume d: "run_query H new (c 3) (test_handler (serial_store H [t] 501)) ?n TXT =
        Some (d, test_handler (refresh_zone (c 3) (serial_store H [t] 501)))"
      "list_all2 (same_record H) (challenge_rrs H [''token'']) (answers d)"
      "list_all2 (same_record H) [the_soa H (store_serial (refresh_zone (c 3) (serial_store H [t] 501)))] (authorities d)"
    have "serial_in (authorities d) = Some 501"
      using d(3) unfolding fresh serial_store_facts(3) by (rule same_soa(2) [OF fmt])
    then show thesis using that d(1) list_all2_lengthD [OF d(2)] by (simp add: fresh)
  qed simp
  have "c 4 < expires_at t" using unexpiredD [OF briefD [OF live, of 4], of 2] by (simp add: t_def)
  then have rem: "remove (c 4) ?n ''token'' (serial_store H [t] 501) = serial_store H [] 502"
    using remove_one [where v = "''token''" and w = "''token''" and now = "c 4" and e = "expires_at t" and n = ?n and
      life = "duration_from_secs 60" and mx = 100 and cap = "test_cap H" and ser = 501] by (simp add: t_def)
  show ?thesis
    by (simp add: soa_serial_is_stable_and_tracks_dynamic_zone_changes_def dns_start [OF fmt] serial_store_facts(1)
        r1 [unfolded One_nat_def] r2 [unfolded One_nat_def] r3 add d [unfolded One_nat_def] rem)
qed

end
