(* ===== verification/Dns_Refusal_Tests.thy ===== *)
theory Dns_Refusal_Tests
  imports Dns_Apex_Tests
begin

text \<open>
  The unit tests of \<open>src/dns.rs\<close> about queries that are malformed or not supported, about EDNS and
  about answers that cannot be encoded pass for every DNS library that keeps the message format.
\<close>

subsection \<open>Replies without records\<close>

lemma question_bound: "asks H s qt qc request q \<Longrightarrow> s \<in> set test_names \<Longrightarrow> question_size H q \<le> 31"
  using asks_text(3) [of H s qt qc request q] by (simp add: question_size_def name_size_def)

lemma bare_written:
  assumes fmt: "message_format H new" and m: "answers m = []" "authorities m = []" "additionals m = []"
    and "op_code m \<in> {Query, Update}" and qs: "length (queries m) \<le> 1"
      "\<forall>q\<in>set (queries m). question_size H q \<le> 31 \<and> q_type q \<in> {SOA, NS, A, TXT, CAA} \<and> q_class q \<in> {IN, ANY, CH}"
    and "response_code m \<in> {NoError, FormErr, ServFail, NXDomain, NotImp, Refused} \<or> response_code m = BADVERS \<and> msg_edns m \<noteq> None"
    and "\<And>e. msg_edns m = Some e \<Longrightarrow> 512 \<le> max_payload e"
  shows "writable m" "message_size H m \<le> 54"
proof -
  show "writable m" using assms by (auto simp: writable_def all_records_def)
  have "sum_list (map (question_size H) (queries m)) \<le> 31"
    using qs by (cases "queries m") auto
  then show "message_size H m \<le> 54"
    by (simp add: message_size_def m all_records_def split: option.split)
qed

lemma bare_reply:
  assumes fmt: "message_format H new" and req: "from_vec H raw = Some request" "message_type request = QueryMessage"
    and b: "build_response H now request h = Some (m, h')" and m: "answers m = []" "authorities m = []" "additionals m = []"
    and "op_code m \<in> {Query, Update}" and qs: "length (queries m) \<le> 1"
      "\<forall>q\<in>set (queries m). question_size H q \<le> 31 \<and> q_type q \<in> {SOA, NS, A, TXT, CAA} \<and> q_class q \<in> {IN, ANY, CH}"
    and "response_code m \<in> {NoError, FormErr, ServFail, NXDomain, NotImp, Refused} \<or> response_code m = BADVERS \<and> msg_edns m \<noteq> None"
    and "\<And>e. msg_edns m = Some e \<Longrightarrow> 512 \<le> max_payload e" and nt: "\<not> truncation m"
  obtains reply d where "handle H now raw h = Some (reply, h')" "from_vec H reply = Some d" "reads_back H m d"
proof -
  note w = bare_written [OF fmt m assms(8) qs assms(11,12)]
  have "message_size H m \<le> 65535" using w(2) by simp
  from handle_read [OF fmt req b w(1) this nt] that show thesis by metis
qed

text \<open>Requests of the tests: they are written and read.\<close>

lemma request_text:
  assumes fmt: "message_format H new" and "response_law H"
  shows "add_query (query_new H n t) (new i QueryMessage opc) = (new i QueryMessage opc)\<lparr>queries := [\<lparr>q_name = n, q_type = t, q_class = IN\<rparr>]\<rparr>"
  using format_laws [OF fmt] by (simp add: add_query_def response_law_def)

lemma query_of_plain:
  assumes fmt: "message_format H new"
  shows "query_of H new i opc s qt qc e False =
    (new i QueryMessage opc)\<lparr>msg_edns := e, queries := [\<lparr>q_name = the_name H s, q_type = qt, q_class = qc\<rparr>]\<rparr>"
  using format_laws(1,2) [OF fmt] by (simp add: query_of_def response_law_def)

lemma rooted_text:
  assumes "to_ascii H n = s @ ''.''" and "s \<in> set test_names"
  shows "qname_text H n = to_lowercase s"
  using test_name_trim(1) [OF assms(2)] by (simp add: qname_text_def assms(1))

lemma plain_request:
  assumes fmt: "message_format H new" and "qc \<in> {IN, ANY, CH}" and "opc \<in> {Query, Update}"
    and "\<And>x. e = Some x \<Longrightarrow> 512 \<le> max_payload x"
  obtains raw request q where "to_vec H (query_of H new i opc ''xip.test'' SOA qc e False) = Some raw" "from_vec H raw = Some request"
    "message_type request = QueryMessage" "op_code request = opc" "queries request = [q]" "q_type q = SOA" "q_class q = qc"
    "question_size H q \<le> 31" "msg_edns request = e" "qname_text H (q_name q) = ''xip.test''"
proof (rule query_read [OF fmt names_in(4) _ assms(2-4), where qt = SOA and i = i and rd = False])
  fix raw request q
  assume r: "to_vec H (query_of H new i opc ''xip.test'' SOA qc e False) = Some raw" "from_vec H raw = Some request"
    "message_type request = QueryMessage" "op_code request = opc" "queries request = [q]" "q_type q = SOA" "q_class q = qc"
    "msg_edns request = e"
  assume n: "to_ascii H (q_name q) = ''xip.test'' @ ''.''"
  have "question_size H q \<le> 31" by (simp add: question_size_def name_size_def n)
  moreover have "qname_text H (q_name q) = to_lowercase ''xip.test''"
    by (rule rooted_text [OF n names_in(4)])
  ultimately show thesis using that r lower_names(4) by metis
qed simp

subsection \<open>Refusals\<close>

lemma response_edns_test:
  assumes "message_format H new"
  shows "response_edns H e = (edns_new H)\<lparr>max_payload := max 512 (min (max_payload e) 1232), dnssec_ok := dnssec_ok e\<rparr>"
  by (simp add: response_edns_def format_laws [OF assms] MAX_UDP_PAYLOAD_def)

text \<open>A refusal as the client reads it.\<close>

lemma refusal_read:
  assumes fmt: "message_format H new" and req: "from_vec H raw = Some request" "message_type request = QueryMessage"
    and op: "op_code request \<in> {Query, Update}"
    and b: "build_response H now request h = Some (refuse rc (add_queries qs (response_header H request)), h)"
    and qs: "length qs \<le> 1" "\<forall>q\<in>set qs. question_size H q \<le> 31 \<and> q_type q = SOA \<and> q_class q \<in> {IN, ANY, CH}"
    and rc: "rc = FormErr \<or> rc = NotImp \<or> rc = BADVERS \<and> msg_edns request \<noteq> None"
  obtains reply d where "handle H now raw h = Some (reply, h)" "from_vec H reply = Some d" "rcode_number (response_code d) = rcode_number rc"
    "rc \<noteq> BADVERS \<Longrightarrow> response_code d = rc" "\<not> authoritative d" "answers d = []" "list_all2 (same_question H) qs (queries d)"
    "msg_edns d = map_option (response_edns H) (msg_edns request)"
proof -
  have law: "response_law H" by (rule format_laws(1) [OF fmt])
  define m where "m = refuse rc (add_queries qs (response_header H request))"
  have sel: "answers m = []" "authorities m = []" "additionals m = []" "op_code m = op_code request" "queries m = qs" "response_code m = rc"
    "msg_edns m = map_option (response_edns H) (msg_edns request)" "\<not> truncation m" "\<not> authoritative m"
    using law by (simp_all add: m_def refuse_def add_queries_def)
  have e: "512 \<le> max_payload x" if "msg_edns m = Some x" for x
    using that by (auto simp: sel response_edns_test [OF fmt])
  have b': "build_response H now request h = Some (m, h)" using b by (simp add: m_def)
  obtain reply d where d: "handle H now raw h = Some (reply, h)" "from_vec H reply = Some d" "reads_back H m d"
    by (rule bare_reply [OF fmt req b' sel(1-3) _ _ _ _ e sel(8)]) (use op qs rc sel in auto)
  show thesis
    by (rule that [OF d(1,2)]) (use d(3) sel in \<open>auto simp: reads_back_def\<close>)
qed

subsection \<open>Refusals\<close>

lemma class_test_passes:
  assumes fmt: "message_format H new"
  shows "unsupported_query_class_never_receives_in_records H new timestamp c = Some ()"
proof (rule plain_request [OF fmt, of CH Query None 7])
  let ?h = "test_handler (new_records timestamp (duration_from_secs 60) 100 (test_cap H))"
  fix raw request q
  assume raw: "to_vec H (query_of H new 7 Query ''xip.test'' SOA CH None False) = Some raw" "from_vec H raw = Some request"
    "message_type request = QueryMessage" and r: "op_code request = Query" "queries request = [q]" "q_type q = SOA" "q_class q = CH"
    "question_size H q \<le> 31" "msg_edns request = None"
  have b: "build_response H (c 0) request ?h = Some (refuse NotImp (add_queries [q] (response_header H request)), ?h)"
    using r by (simp add: build_response_def Let_def CH_def add_query_def add_queries_def)
  obtain reply d where d: "handle H (c 0) raw ?h = Some (reply, ?h)" "from_vec H reply = Some d" "NotImp \<noteq> BADVERS \<Longrightarrow> response_code d = NotImp"
      "\<not> authoritative d" "answers d = []" "list_all2 (same_question H) [q] (queries d)"
    by (rule refusal_read [OF fmt raw(2,3) _ b]) (use r in simp_all)
  obtain q' where "queries d = [q']" "q_class q' = CH"
    using d(6) r by (auto simp: list_all2_Cons1 same_question_def)
  moreover have "to_vec H (add_query ((query_new H (the_name H ''xip.test'') SOA)\<lparr>q_class := CH\<rparr>) (new 7 QueryMessage Query)) = Some raw"
    using raw(1) format_laws [OF fmt] by (simp add: query_of_plain [OF fmt] add_query_def response_law_def)
  ultimately show ?thesis
    using d by (simp add: unsupported_query_class_never_receives_in_records_def dns_start [OF fmt] name_facts [OF fmt])
qed simp_all

lemma opcode_test_passes:
  assumes fmt: "message_format H new"
  shows "unsupported_opcode_is_not_implemented H new timestamp c = Some ()"
proof (rule plain_request [OF fmt, of IN Update None 1])
  let ?h = "test_handler (new_records timestamp (duration_from_secs 60) 100 (test_cap H))"
  fix raw request q
  assume raw: "to_vec H (query_of H new 1 Update ''xip.test'' SOA IN None False) = Some raw" "from_vec H raw = Some request"
    "message_type request = QueryMessage" and r: "op_code request = Update" "msg_edns request = None"
  have b: "build_response H (c 0) request ?h = Some (refuse NotImp (add_queries [] (response_header H request)), ?h)"
    using r by (simp add: build_response_def Let_def Update_def add_queries_def)
  obtain reply d where d: "handle H (c 0) raw ?h = Some (reply, ?h)" "from_vec H reply = Some d" "NotImp \<noteq> BADVERS \<Longrightarrow> response_code d = NotImp"
      "\<not> authoritative d"
    by (rule refusal_read [OF fmt raw(2,3) _ b]) (use r in simp_all)
  moreover have "to_vec H (add_query (query_new H (the_name H ''xip.test'') SOA) (new 1 QueryMessage Update)) = Some raw"
    using raw(1) format_laws [OF fmt] by (simp add: query_of_plain [OF fmt] add_query_def response_law_def)
  ultimately show ?thesis
    by (simp add: unsupported_opcode_is_not_implemented_def dns_start [OF fmt] name_facts [OF fmt])
qed simp_all

lemma edns_version_test_passes:
  assumes fmt: "message_format H new"
  shows "unsupported_edns_version_returns_badvers H new timestamp c = Some ()"
proof (rule plain_request [OF fmt, of IN Query "Some ((edns_new H)\<lparr>version := 1\<rparr>)" 1])
  let ?h = "test_handler (new_records timestamp (duration_from_secs 60) 100 (test_cap H))" and ?e = "(edns_new H)\<lparr>version := 1\<rparr>"
  fix raw request q
  assume raw: "to_vec H (query_of H new 1 Query ''xip.test'' SOA IN (Some ?e) False) = Some raw" "from_vec H raw = Some request"
    "message_type request = QueryMessage" and r: "op_code request = Query" "msg_edns request = Some ?e"
  have b: "build_response H (c 0) request ?h = Some (refuse BADVERS (add_queries [] (response_header H request)), ?h)"
    using r by (simp add: build_response_def Let_def add_queries_def)
  obtain reply d where d: "handle H (c 0) raw ?h = Some (reply, ?h)" "from_vec H reply = Some d"
      "rcode_number (response_code d) = rcode_number BADVERS" "\<not> authoritative d"
      "msg_edns d = map_option (response_edns H) (msg_edns request)"
    by (rule refusal_read [OF fmt raw(2,3) _ b]) (use r in simp_all)
  moreover have "to_vec H (set_edns ?e (add_query (query_new H (the_name H ''xip.test'') SOA) (new 1 QueryMessage Query))) = Some raw"
    using raw(1) format_laws [OF fmt] by (simp add: query_of_plain [OF fmt] add_query_def set_edns_def response_law_def)
  moreover have "version (response_edns H ?e) = 0" by (simp add: response_edns_test [OF fmt] format_laws [OF fmt])
  ultimately show ?thesis
    using r(2) by (simp add: unsupported_edns_version_returns_badvers_def dns_start [OF fmt] name_facts [OF fmt])
qed (use format_laws [OF fmt] in simp_all)

lemma malformed_tests_pass:
  assumes fmt: "message_format H new"
  shows "semantically_malformed_messages_return_formerr H new timestamp c = Some ()"
proof -
  let ?h = "test_handler (new_records timestamp (duration_from_secs 60) 100 (test_cap H))"
  have empty: "\<exists>raw d. to_vec H (new i mt Query) = Some raw \<and> from_vec H raw = Some d \<and> message_type d = mt \<and>
      op_code d = Query \<and> queries d = [] \<and> msg_edns d = None" for i mt
  proof -
    have sel: "answers (new i mt Query) = []" "authorities (new i mt Query) = []" "additionals (new i mt Query) = []"
      "op_code (new i mt Query) = Query" "queries (new i mt Query) = []" "response_code (new i mt Query) = NoError"
      "msg_edns (new i mt Query) = None" "message_type (new i mt Query) = mt"
      using format_laws(1,2) [OF fmt] by (simp_all add: response_law_def)
    have w: "writable (new i mt Query)" "message_size H (new i mt Query) \<le> 54"
      using bare_written [OF fmt sel(1-3)] sel by simp_all
    obtain raw d where "to_vec H (new i mt Query) = Some raw" "from_vec H raw = Some d" "reads_back H (new i mt Query) d"
      by (rule written [OF fmt w(1)]) (use w(2) in auto)
    then show ?thesis by (auto simp: reads_back_def sel)
  qed
  obtain raw request where req: "to_vec H (new 8 QueryMessage Query) = Some raw" "from_vec H raw = Some request"
      "message_type request = QueryMessage" "op_code request = Query" "queries request = []" "msg_edns request = None"
    using empty [of 8 QueryMessage] by blast
  have b: "build_response H (c 0) request ?h = Some (refuse FormErr (add_queries [] (response_header H request)), ?h)"
    using req by (simp add: build_response_def Let_def add_queries_def)
  obtain reply d where d: "handle H (c 0) raw ?h = Some (reply, ?h)" "from_vec H reply = Some d"
      "FormErr \<noteq> BADVERS \<Longrightarrow> response_code d = FormErr" "\<not> authoritative d"
    by (rule refusal_read [OF fmt req(2,3) _ b]) (use req in simp_all)
  obtain raw' request' where req': "to_vec H (new 9 ResponseMessage Query) = Some raw'" "from_vec H raw' = Some request'"
      "message_type request' = ResponseMessage"
    using empty [of 9 ResponseMessage] by blast
  have response: "handle H (c 1) raw' ?h = Some ([], ?h)" using req' by (simp add: handle_def)
  have "limit_law H" using fmt by (simp add: message_format_def)
  then have "from_vec H [0, 1, 2] = None" by (simp add: limit_law_def)
  then have short: "handle_udp H (c 2) [0, 1, 2] ?h = Some ([], ?h)" by (simp add: handle_udp_def)
  show ?thesis
    using d by (simp add: semantically_malformed_messages_return_formerr_def dns_start [OF fmt] req(1) req'(1)
        response [unfolded One_nat_def] short)
qed

subsection \<open>EDNS\<close>

lemma edns_payload_test_passes:
  assumes fmt: "message_format H new"
  shows "edns_payload_is_echoed_and_capped H new timestamp c = Some ()"
proof -
  let ?ar = "new_records timestamp (duration_from_secs 60) 100 (test_cap H)"
  define e where "e = (edns_new H)\<lparr>max_payload := 4096, dnssec_ok := True\<rparr>"
  have e512: "512 \<le> max_payload e" by (simp add: e_def)
  have law: "response_law H" by (rule format_laws(1) [OF fmt])
  have fresh: "refresh_zone (c 0) ?ar = ?ar" by (rule refresh_empty) simp
  obtain raw request q where raw: "to_vec H (query_of H new 10 Query ''xip.test'' SOA IN (Some e) False) = Some raw"
      "from_vec H raw = Some request" "asks H ''xip.test'' SOA IN request q" "msg_edns request = Some e"
    by (rule query_read [OF fmt names_in(4), where qt = SOA and qc = IN and opc = Query and e = "Some e" and i = 10 and rd = False])
      (use e512 in \<open>auto simp: asks_def\<close>)
  define m where "m = add_answer (the_soa H (store_serial ?ar)) (base_response H request q (store_serial ?ar))"
  have "build_response H (c 0) request (test_handler ?ar) = Some (m, test_handler ?ar)"
    using response_in_zone [OF fmt raw(3) names_in(4) raw(4), where h = "test_handler ?ar" and now = "c 0", unfolded lower_names]
      in_zone(2) by (simp add: fresh answer_query_def m_def e_def format_laws(6) [OF fmt])
  moreover have sel: "answers m = [the_soa H (store_serial ?ar)]" "authorities m = [the_soa H (store_serial ?ar)]" "additionals m = []"
    "queries m = [q]" "op_code m = Query" "response_code m = NoError" "\<not> truncation m" "msg_edns m = Some (response_edns H e)"
    using law raw(3,4) by (simp_all add: m_def add_answer_def asks_def)
  have edns: "response_edns H e = (edns_new H)\<lparr>max_payload := 1232, dnssec_ok := True\<rparr>"
    by (simp add: response_edns_test [OF fmt] e_def)
  have w: "writable m"
    using raw(3) soa_size(2) [OF fmt] by (simp add: writable_def sel all_records_def asks_def edns)
  have z: "message_size H m \<le> 194"
    using question_bound [OF raw(3) names_in(4)] by (simp add: message_size_def sel all_records_def soa_size(1) [OF fmt])
  obtain reply d where d: "to_vec H m = Some reply" "length reply \<le> message_size H m" "from_vec H reply = Some d" "reads_back H m d"
    by (rule written [OF fmt w]) (use z in auto)
  have "\<not> truncation d" "msg_edns d = Some (response_edns H e)" using d(4) by (simp_all add: reads_back_def sel)
  moreover have "unat (min (message_max_payload H request) MAX_UDP_PAYLOAD) = 1232"
    by (simp add: format_laws(5) [OF fmt] raw(4) e_def MAX_UDP_PAYLOAD_def)
  moreover have "message_type request = QueryMessage" using raw(3) by (simp add: asks_def)
  ultimately have "handle_udp H (c 0) raw (test_handler ?ar) = Some (reply, test_handler ?ar)"
    using raw(2) d z by (simp add: handle_udp_def encode_complete_or_servfail_def)
  moreover have "to_vec H (set_edns (set_dnssec_ok H True (set_max_payload H 4096 (edns_new H)))
      (add_query (query_new H (the_name H ''xip.test'') SOA) (new 10 QueryMessage Query))) = Some raw"
    using raw(1) format_laws [OF fmt]
    by (simp add: query_of_plain [OF fmt] add_query_def set_edns_def response_law_def e_def)
  ultimately show ?thesis
    using d(3) \<open>msg_edns d = Some (response_edns H e)\<close>
    by (simp add: edns_payload_is_echoed_and_capped_def dns_start [OF fmt] name_facts [OF fmt] edns MAX_UDP_PAYLOAD_def)
qed

subsection \<open>Answers that cannot be encoded\<close>

lemma servfail_read:
  assumes fmt: "message_format H new" and req: "asks H s qt IN request q" "s \<in> set test_names" "qt \<in> {SOA, NS, A, TXT, CAA}"
    and bad: "\<And>raw d. to_vec H m = Some raw \<Longrightarrow> from_vec H raw = Some d \<Longrightarrow> truncation d"
  obtains d where "from_vec H (encode_complete_or_servfail H request m) = Some d" "response_code d = ServFail" "\<not> truncation d"
    "answers d = []"
proof -
  have law: "response_law H" by (rule format_laws(1) [OF fmt])
  define f where "f = add_queries (queries request) ((message_response H (msg_id request) (op_code request))
    \<lparr>response_code := ServFail, recursion_desired := recursion_desired request\<rparr>)"
  have sel: "answers f = []" "authorities f = []" "additionals f = []" "op_code f = Query" "queries f = [q]" "response_code f = ServFail"
    "msg_edns f = None" "\<not> truncation f"
    using law req(1) by (simp_all add: f_def add_queries_def response_law_def asks_def)
  have q: "question_size H q \<le> 31" "q_type q = qt" "q_class q = IN"
    using question_bound [OF req(1,2)] req(1) by (simp_all add: asks_def)
  have w: "writable f" "message_size H f \<le> 54"
    using bare_written [OF fmt sel(1-3)] q req(3) by (simp_all add: sel)
  obtain raw d where d: "to_vec H f = Some raw" "from_vec H raw = Some d" "reads_back H f d"
    by (rule written [OF fmt w(1)]) (use w(2) in auto)
  have "encode_complete_or_servfail H request m = servfail H request"
    using bad by (auto simp: encode_complete_or_servfail_def split: option.splits)
  moreover have "servfail H request = raw" using d(1) by (simp add: servfail_def f_def Let_def)
  moreover have "response_code d = ServFail" "\<not> truncation d" "answers d = []" using d(3) by (simp_all add: reads_back_def sel)
  ultimately show thesis using that d(2) by metis
qed

lemma unencodable_tests_pass:
  assumes fmt: "message_format H new"
  shows "unexpected_serialization_truncation_returns_servfail H new = Some ()"
    and "serialization_error_returns_servfail H new = Some ()"
proof -
  let ?n = "the_name H ''_acme-challenge.xip.test''"
  obtain raw request q where req: "query_msg H new ''_acme-challenge.xip.test'' TXT = Some raw" "from_vec H raw = Some request"
      "asks H ''_acme-challenge.xip.test'' TXT IN request q"
    by (rule query_asked [OF fmt names_in(1), of TXT]) auto
  have queries: "queries request = [q]" using req(3) by (simp add: asks_def)
  have law: "response_law H" by (rule format_laws(1) [OF fmt])
  define base where "base = add_query q (message_response H (msg_id request) Query)"
  have none: "answers base = []" using law by (simp add: base_def add_query_def response_law_def)
  have limit: "limit_law H" using fmt by (simp add: message_format_def)
  define large where "large = fold add_answer (replicate 400 (txt_record ?n 60 (replicate 255 CHR ''x''))) base"
  have "answers large = replicate 400 (txt_record ?n 60 (replicate 255 CHR ''x''))"
    unfolding large_def fold_add_answer by (simp add: none)
  then have "text_size large = 102000" by (simp add: text_size_def sum_list_replicate txt_record_def)
  then have l: "truncation d" if "to_vec H large = Some raw" "from_vec H raw = Some d" for raw d
    using text_limit [OF fmt that] by fastforce
  have large_eq: "fold add_answer (replicate 400 (txt_record ?n 60 (replicate 255 CHR ''x'')))
      (add_query q (message_response H (msg_id request) Query)) = large"
    by (simp only: large_def base_def)
  obtain d where "from_vec H (encode_complete_or_servfail H request large) = Some d" "response_code d = ServFail" "\<not> truncation d"
      "answers d = []"
    by (rule servfail_read [OF fmt req(3) names_in(1) _ l]) simp_all
  then show "unexpected_serialization_truncation_returns_servfail H new = Some ()"
    using req(1,2) queries
    by (simp add: unexpected_serialization_truncation_returns_servfail_def large_eq name_facts(9) [OF fmt] del: fold_replicate)
  define long where "long = add_answer (txt_record ?n 60 (replicate 256 CHR ''x'')) base"
  have "to_vec H long = None"
  proof -
    have "txt_record ?n 60 (replicate 256 CHR ''x'') \<in> set (answers long)"
      "rr_data (txt_record ?n 60 (replicate 256 CHR ''x'')) = RTXT [replicate 256 CHR ''x'']" "255 < length (replicate 256 CHR ''x'')"
      by (simp_all add: long_def add_answer_def txt_record_def)
    then show ?thesis using limit unfolding limit_law_def by (metis list.set_intros(1))
  qed
  then have s: "truncation d" if "to_vec H long = Some raw" "from_vec H raw = Some d" for raw d using that by simp
  obtain d where "from_vec H (encode_complete_or_servfail H request long) = Some d" "response_code d = ServFail" "\<not> truncation d"
      "answers d = []"
    by (rule servfail_read [OF fmt req(3) names_in(1) _ s]) simp_all
  then show "serialization_error_returns_servfail H new = Some ()"
    using req(1,2) queries by (simp add: serialization_error_returns_servfail_def long_def base_def name_facts(9) [OF fmt])
qed

end
