(* ===== verification/Sample_Codec.thy ===== *)
theory Sample_Codec
  imports Codec
begin

text \<open>
  An executable encoding of DNS messages that keeps the laws of \<open>Codec\<close>: numbers of fixed width,
  texts and names with their length, no compression, and no encoding for a message that would take
  more than 65535 bytes. Its layout is not that of RFC 1035; it shows that the laws can hold together.
\<close>

subsection \<open>Numbers and texts\<close>

primrec put :: "nat \<Rightarrow> nat \<Rightarrow> bytes" where
  "put 0 n = []"
| "put (Suc k) n = word_of_nat n # put k (n div 256)"

primrec get :: "nat \<Rightarrow> bytes \<Rightarrow> (nat \<times> bytes) option" where
  "get 0 bs = Some (0, bs)"
| "get (Suc k) bs = (case bs of [] \<Rightarrow> None
     | b # bs \<Rightarrow> map_option (\<lambda>(n, r). (unat b + 256 * n, r)) (get k bs))"

lemma length_put [simp]: "length (put k n) = k"
  by (induction k arbitrary: n) simp_all

lemma get_put [simp]: "n < 256 ^ k \<Longrightarrow> get k (put k n @ r) = Some (n, r)"
proof (induction k arbitrary: n)
  case (Suc k)
  have "n div 256 < 256 ^ k" using Suc.prems by (simp add: less_mult_imp_div_less mult.commute)
  moreover have "unat (word_of_nat n :: u8) = n mod 256" by (simp add: unat_of_nat take_bit_eq_mod)
  ultimately show ?case using Suc.IH by simp
qed simp

definition put_text :: "nat \<Rightarrow> string \<Rightarrow> bytes" where
  "put_text k s = put k (length s) @ as_bytes s"

definition get_text :: "nat \<Rightarrow> bytes \<Rightarrow> (string \<times> bytes) option" where
  "get_text k bs = do {
     (n, bs) \<leftarrow> get k bs;
     if length bs < n then None else Some (map char_of_byte (take n bs), drop n bs)
   }"

lemma length_put_text [simp]: "length (put_text k s) = k + length s"
  by (simp add: put_text_def as_bytes_def)

lemma get_put_text [simp]: "length s < 256 ^ k \<Longrightarrow> get_text k (put_text k s @ r) = Some (s, r)"
proof -
  assume "length s < 256 ^ k"
  moreover have "length (as_bytes s) = length s" by (simp add: as_bytes_def)
  ultimately show ?thesis by (simp add: get_text_def put_text_def)
qed

text \<open>A list of known length.\<close>

primrec get_many :: "(bytes \<Rightarrow> ('a \<times> bytes) option) \<Rightarrow> nat \<Rightarrow> bytes \<Rightarrow> ('a list \<times> bytes) option" where
  "get_many p 0 bs = Some ([], bs)"
| "get_many p (Suc k) bs = do {
     (x, bs) \<leftarrow> p bs;
     (xs, bs) \<leftarrow> get_many p k bs;
     Some (x # xs, bs)
   }"

lemma get_many_put:
  "(\<And>x r. x \<in> set xs \<Longrightarrow> p (e x @ r) = Some (f x, r)) \<Longrightarrow>
     get_many p (length xs) (concat (map e xs) @ r) = Some (map f xs, r)"
  by (induction xs) simp_all

subsection \<open>Names\<close>

abbreviation plain :: "string \<Rightarrow> string" where
  "plain n \<equiv> trim_end_matches CHR ''.'' n"

definition put_name :: "string \<Rightarrow> bytes" where
  "put_name n = put_text 2 (plain n)"

definition get_name :: "bytes \<Rightarrow> (string \<times> bytes) option" where
  "get_name bs = map_option (\<lambda>(s, r). (s @ ''.'', r)) (get_text 2 bs)"

definition rooted :: "string \<Rightarrow> string" where
  "rooted n = plain n @ ''.''"

definition short_name :: "string \<Rightarrow> bool" where
  "short_name n \<longleftrightarrow> length (plain n) < 65536"

lemma length_plain: "length (plain n) \<le> length n"
  using length_dropWhile_le [of _ "rev n"] by (simp add: trim_end_matches_def)

lemma length_put_name: "length (put_name n) = length (plain n) + 2"
  by (simp add: put_name_def)

lemma get_put_name [simp]: "short_name n \<Longrightarrow> get_name (put_name n @ r) = Some (rooted n, r)"
  by (simp add: get_name_def put_name_def rooted_def short_name_def)

subsection \<open>Codes\<close>

fun type_number :: "record_type \<Rightarrow> u16" where
  "type_number A = 1"
| "type_number NS = 2"
| "type_number SOA = 6"
| "type_number TXT = 16"
| "type_number (OtherType n) = n"

definition type_of_number :: "u16 \<Rightarrow> record_type" where
  "type_of_number n = (if n = 1 then A else if n = 2 then NS else if n = 6 then SOA else if n = 16 then TXT else OtherType n)"

fun class_number :: "dns_class \<Rightarrow> u16" where
  "class_number IN = 1"
| "class_number ANY = 255"
| "class_number (OtherClass n) = n"

definition class_of_number :: "u16 \<Rightarrow> dns_class" where
  "class_of_number n = (if n = 1 then IN else if n = 255 then ANY else OtherClass n)"

fun op_number :: "op_code \<Rightarrow> u8" where
  "op_number Query = 0"
| "op_number (OtherOpCode n) = n"

definition op_of_number :: "u8 \<Rightarrow> op_code" where
  "op_of_number n = (if n = 0 then Query else OtherOpCode n)"

definition rcode_of_number :: "u16 \<Rightarrow> response_code" where
  "rcode_of_number n = (if n = 0 then NoError else if n = 1 then FormErr else if n = 2 then ServFail else if n = 3 then NXDomain
     else if n = 4 then NotImp else if n = 5 then Refused else if n = 16 then BADVERS else OtherCode n)"

lemma codes_back:
  "t \<in> {SOA, NS, A, TXT, CAA} \<Longrightarrow> type_of_number (type_number t) = t"
  "c \<in> {IN, ANY, CH} \<Longrightarrow> class_of_number (class_number c) = c"
  "opc \<in> {Query, Update} \<Longrightarrow> op_of_number (op_number opc) = opc"
  "rc \<in> {NoError, FormErr, ServFail, NXDomain, NotImp, Refused, BADVERS} \<Longrightarrow> rcode_of_number (rcode_number rc) = rc"
  by (auto simp: type_of_number_def class_of_number_def op_of_number_def rcode_of_number_def CAA_def CH_def Update_def)

lemma unat_bounds: "unat (w8 :: u8) < 256" "unat (w16 :: u16) < 256 ^ 2" "unat (w32 :: u32) < 256 ^ 4"
  using unsigned_less [of w8] unsigned_less [of w16] unsigned_less [of w32] by simp_all

subsection \<open>Records\<close>

fun put_data :: "string rdata \<Rightarrow> bytes" where
  "put_data (RA (Ipv4 a b c d)) = [0, a, b, c, d]"
| "put_data (RNS n) = 1 # put_name n"
| "put_data (RTXT vs) = 2 # put 2 (length vs) @ concat (map (put_text 1) vs)"
| "put_data (RSOA m r s f t e i) = 3 # put_name m @ put_name r @ put 4 (unat s) @ put 4 f @ put 4 t @ put 4 e @ put 4 (unat i)"
| "put_data (ROther t bs) = []"

definition get_data :: "bytes \<Rightarrow> (string rdata \<times> bytes) option" where
  "get_data bs = (case bs of [] \<Rightarrow> None
     | tag # bs \<Rightarrow>
         if tag = 0 then do {
           (a, bs) \<leftarrow> get 1 bs; (b, bs) \<leftarrow> get 1 bs; (c, bs) \<leftarrow> get 1 bs; (d, bs) \<leftarrow> get 1 bs;
           Some (RA (Ipv4 (word_of_nat a) (word_of_nat b) (word_of_nat c) (word_of_nat d)), bs)
         } else if tag = 1 then map_option (\<lambda>(n, bs). (RNS n, bs)) (get_name bs)
         else if tag = 2 then do {
           (k, bs) \<leftarrow> get 2 bs; (vs, bs) \<leftarrow> get_many (get_text 1) k bs;
           Some (RTXT vs, bs)
         } else if tag = 3 then do {
           (m, bs) \<leftarrow> get_name bs; (r, bs) \<leftarrow> get_name bs;
           (s, bs) \<leftarrow> get 4 bs; (f, bs) \<leftarrow> get 4 bs; (t, bs) \<leftarrow> get 4 bs; (e, bs) \<leftarrow> get 4 bs; (i, bs) \<leftarrow> get 4 bs;
           Some (RSOA m r (word_of_nat s) f t e (word_of_nat i), bs)
         } else None)"

fun ok_data :: "string rdata \<Rightarrow> bool" where
  "ok_data (RA ip) = True"
| "ok_data (RNS n) = short_name n"
| "ok_data (RTXT vs) = (length vs < 65536 \<and> list_all (\<lambda>v. length v \<le> 255) vs)"
| "ok_data (RSOA m r s f t e i) = (short_name m \<and> short_name r \<and> f < 256 ^ 4 \<and> t < 256 ^ 4 \<and> e < 256 ^ 4)"
| "ok_data (ROther t bs) = False"

fun back_data :: "string rdata \<Rightarrow> string rdata" where
  "back_data (RNS n) = RNS (rooted n)"
| "back_data (RSOA m r s f t e i) = RSOA (rooted m) (rooted r) s f t e i"
| "back_data d = d"

lemma get_put_data: "ok_data d \<Longrightarrow> get_data (put_data d @ r) = Some (back_data d, r)"
proof (cases d)
  case (RA ip)
  then show ?thesis by (cases ip) (simp add: get_data_def)
next
  case (RTXT vs)
  assume ok: "ok_data d"
  have "get_many (get_text 1) (length vs) (concat (map (put_text 1) vs) @ r) = Some (map (\<lambda>v. v) vs, r)"
    using ok RTXT by (intro get_many_put) (auto simp: list_all_iff)
  then show ?thesis using ok RTXT by (simp add: get_data_def)
qed (use unat_bounds in \<open>simp_all add: get_data_def\<close>)

lemma length_put_data:
  "length (put_data d) \<le> data_size H d + 3" if "\<And>n. to_ascii H n = n"
  using that length_plain
  by (cases d rule: put_data.cases) (simp_all add: length_put_name name_size_def add_mono le_SucI length_concat comp_def)

text \<open>A record is marked with the section it belongs to.\<close>

definition put_record :: "nat \<times> string rr \<Rightarrow> bytes" where
  "put_record x = put 1 (fst x) @ put_name (rr_name (snd x)) @ put 4 (unat (rr_ttl (snd x))) @ put_data (rr_data (snd x))"

definition get_record :: "bytes \<Rightarrow> ((nat \<times> string rr) \<times> bytes) option" where
  "get_record bs = do {
     (k, bs) \<leftarrow> get 1 bs; (n, bs) \<leftarrow> get_name bs; (t, bs) \<leftarrow> get 4 bs; (d, bs) \<leftarrow> get_data bs;
     Some ((k, \<lparr>rr_name = n, rr_ttl = word_of_nat t, rr_data = d\<rparr>), bs)
   }"

definition ok_record :: "string rr \<Rightarrow> bool" where
  "ok_record r \<longleftrightarrow> short_name (rr_name r) \<and> ok_data (rr_data r)"

definition back_record :: "string rr \<Rightarrow> string rr" where
  "back_record r = \<lparr>rr_name = rooted (rr_name r), rr_ttl = rr_ttl r, rr_data = back_data (rr_data r)\<rparr>"

lemma get_put_record: "fst x < 3 \<Longrightarrow> ok_record (snd x) \<Longrightarrow> get_record (put_record x @ r) = Some ((fst x, back_record (snd x)), r)"
  using unat_bounds by (simp add: get_record_def put_record_def ok_record_def back_record_def get_put_data unat_of_nat take_bit_eq_mod)

subsection \<open>Questions\<close>

definition put_question :: "string question \<Rightarrow> bytes" where
  "put_question q = put_name (q_name q) @ put 2 (unat (type_number (q_type q))) @ put 2 (unat (class_number (q_class q)))"

definition get_question :: "bytes \<Rightarrow> (string question \<times> bytes) option" where
  "get_question bs = do {
     (n, bs) \<leftarrow> get_name bs; (t, bs) \<leftarrow> get 2 bs; (c, bs) \<leftarrow> get 2 bs;
     Some (\<lparr>q_name = n, q_type = type_of_number (word_of_nat t), q_class = class_of_number (word_of_nat c)\<rparr>, bs)
   }"

definition back_question :: "string question \<Rightarrow> string question" where
  "back_question q = \<lparr>q_name = rooted (q_name q), q_type = type_of_number (type_number (q_type q)),
     q_class = class_of_number (class_number (q_class q))\<rparr>"

lemma get_put_question: "short_name (q_name q) \<Longrightarrow> get_question (put_question q @ r) = Some (back_question q, r)"
  using unat_bounds by (simp add: get_question_def put_question_def back_question_def)

subsection \<open>Messages\<close>

definition put_edns :: "edns option \<Rightarrow> bytes" where
  "put_edns e = (case e of None \<Rightarrow> []
     | Some e \<Rightarrow> put 2 (unat (max_payload e)) @ put 1 (unat (version e)) @ put 1 (of_bool (dnssec_ok e)))"

definition get_edns :: "bytes \<Rightarrow> (edns \<times> bytes) option" where
  "get_edns bs = do {
     (p, bs) \<leftarrow> get 2 bs; (v, bs) \<leftarrow> get 1 bs; (b, bs) \<leftarrow> get 1 bs;
     Some (\<lparr>max_payload = word_of_nat p, version = word_of_nat v, dnssec_ok = (b = 1)\<rparr>, bs)
   }"

lemma get_put_edns: "get_edns (put_edns (Some e) @ r) = Some (e, r)"
  using unat_bounds by (cases "dnssec_ok e") (simp_all add: get_edns_def put_edns_def)

definition marked :: "string message \<Rightarrow> (nat \<times> string rr) list" where
  "marked m = map (Pair 0) (answers m) @ map (Pair 1) (authorities m) @ map (Pair 2) (additionals m)"

definition section_of :: "nat \<Rightarrow> (nat \<times> string rr) list \<Rightarrow> string rr list" where
  "section_of k xs = map snd (filter (\<lambda>x. fst x = k) xs)"

definition flags :: "string message \<Rightarrow> nat" where
  "flags m = of_bool (message_type m = ResponseMessage) + 2 * of_bool (authoritative m) + 4 * of_bool (truncation m) +
     8 * of_bool (recursion_desired m) + 16 * of_bool (recursion_available m) + 32 * of_bool (msg_edns m \<noteq> None)"

definition put_message :: "string message \<Rightarrow> bytes" where
  "put_message m = put 2 (unat (msg_id m)) @ put 1 (unat (op_number (op_code m))) @ put 1 (flags m) @
     put 2 (unat (rcode_number (response_code m))) @ put 2 (length (queries m)) @ put 2 (length (marked m)) @ put 2 0 @
     put_edns (msg_edns m) @ concat (map put_question (queries m)) @ concat (map put_record (marked m))"

definition get_message :: "bytes \<Rightarrow> string message option" where
  "get_message bs = do {
     (i, bs) \<leftarrow> get 2 bs; (opc, bs) \<leftarrow> get 1 bs; (f, bs) \<leftarrow> get 1 bs; (rc, bs) \<leftarrow> get 2 bs;
     (qn, bs) \<leftarrow> get 2 bs; (rn, bs) \<leftarrow> get 2 bs; (z, bs) \<leftarrow> get 2 bs;
     (e, bs) \<leftarrow> (if odd (f div 32) then map_option (\<lambda>(e, bs). (Some e, bs)) (get_edns bs) else Some (None, bs));
     (qs, bs) \<leftarrow> get_many get_question qn bs;
     (rs, bs) \<leftarrow> get_many get_record rn bs;
     Some \<lparr>msg_id = word_of_nat i, message_type = (if odd f then ResponseMessage else QueryMessage),
       op_code = op_of_number (word_of_nat opc), authoritative = odd (f div 2), truncation = odd (f div 4),
       recursion_desired = odd (f div 8), recursion_available = odd (f div 16),
       response_code = rcode_of_number (word_of_nat rc), queries = qs, answers = section_of 0 rs,
       authorities = section_of 1 rs, additionals = section_of 2 rs, msg_edns = e\<rparr>
   }"

definition ok_message :: "string message \<Rightarrow> bool" where
  "ok_message m \<longleftrightarrow> length (queries m) < 65536 \<and> length (marked m) < 65536 \<and>
     (\<forall>q\<in>set (queries m). short_name (q_name q)) \<and> (\<forall>r\<in>set (all_records m). ok_record r)"

definition back_message :: "string message \<Rightarrow> string message" where
  "back_message m = m\<lparr>op_code := op_of_number (op_number (op_code m)),
     response_code := rcode_of_number (rcode_number (response_code m)), queries := map back_question (queries m),
     answers := map back_record (answers m), authorities := map back_record (authorities m),
     additionals := map back_record (additionals m)\<rparr>"

lemma flags_bits:
  "flags m < 256" "odd (flags m) \<longleftrightarrow> message_type m = ResponseMessage" "odd (flags m div 2) \<longleftrightarrow> authoritative m"
  "odd (flags m div 4) \<longleftrightarrow> truncation m" "odd (flags m div 8) \<longleftrightarrow> recursion_desired m"
  "odd (flags m div 16) \<longleftrightarrow> recursion_available m" "odd (flags m div 32) \<longleftrightarrow> msg_edns m \<noteq> None"
  unfolding flags_def
  by (cases "message_type m = ResponseMessage"; cases "authoritative m"; cases "truncation m"; cases "recursion_desired m";
      cases "recursion_available m"; cases "msg_edns m = None"; simp)+

lemma section_of_marked:
  "section_of 0 (map (\<lambda>x. (fst x, f (snd x))) (marked m)) = map f (answers m)"
  "section_of 1 (map (\<lambda>x. (fst x, f (snd x))) (marked m)) = map f (authorities m)"
  "section_of 2 (map (\<lambda>x. (fst x, f (snd x))) (marked m)) = map f (additionals m)"
  by (simp_all add: section_of_def marked_def comp_def filter_map)

lemma marked_records:
  assumes "ok_message m" and "x \<in> set (marked m)"
  shows "fst x < 3" "ok_record (snd x)"
  using assms by (auto simp: marked_def ok_message_def all_records_def)

lemma get_put_message:
  assumes "ok_message m"
  shows "get_message (put_message m) = Some (back_message m)"
proof -
  have edns: "(if odd (flags m div 32) then map_option (\<lambda>(e, bs). (Some e, bs)) (get_edns (put_edns (msg_edns m) @ r))
      else Some (None, put_edns (msg_edns m) @ r)) = Some (msg_edns m, r)" for r
    by (cases "msg_edns m") (simp_all only: flags_bits(7) get_put_edns, simp_all add: put_edns_def)
  have qs: "get_many get_question (length (queries m)) (concat (map put_question (queries m)) @ r) =
      Some (map back_question (queries m), r)" for r
    using assms by (intro get_many_put get_put_question) (simp add: ok_message_def)
  have "get_many get_record (length (marked m)) (concat (map put_record (marked m)) @ []) =
      Some (map (\<lambda>x. (fst x, back_record (snd x))) (marked m), [])"
    using marked_records [OF assms] by (intro get_many_put get_put_record)
  then have rs: "get_many get_record (length (marked m)) (concat (map put_record (marked m))) =
      Some (map (\<lambda>x. (fst x, back_record (snd x))) (marked m), [])" by simp
  have mt: "(if message_type m = ResponseMessage then ResponseMessage else QueryMessage) = message_type m"
    by (cases "message_type m") simp_all
  have bounds: "length (queries m) < 256 ^ 2" "length (marked m) < 256 ^ 2" "flags m < 256 ^ 1"
    "unat (op_number (op_code m)) < 256 ^ 1" "0 < (256 :: nat) ^ 2"
    using assms flags_bits(1) unat_bounds(1) by (simp_all add: ok_message_def)
  have eq: "back_message m = \<lparr>msg_id = msg_id m, message_type = message_type m, op_code = op_of_number (op_number (op_code m)),
      authoritative = authoritative m, truncation = truncation m, recursion_desired = recursion_desired m,
      recursion_available = recursion_available m, response_code = rcode_of_number (rcode_number (response_code m)),
      queries = map back_question (queries m), answers = map back_record (answers m),
      authorities = map back_record (authorities m), additionals = map back_record (additionals m), msg_edns = msg_edns m\<rparr>"
    by (cases m) (simp add: back_message_def)
  have heads: "get k (put k n @ r) = Some (n, r)" if "n < 256 ^ k" for k n r using that by simp
  show ?thesis
    by (simp only: get_message_def put_message_def heads bounds unat_bounds edns qs rs bind.bind_lunit case_prod_conv
          append_assoc) (simp add: eq section_of_marked section_of_marked(2) [unfolded One_nat_def] flags_bits mt)
qed

subsection \<open>Lengths\<close>

lemma length_concat_map: "length (concat (map f xs)) = sum_list (map (\<lambda>x. length (f x)) xs)"
  by (simp add: length_concat comp_def)

lemma member_le_sum: "x \<in> set xs \<Longrightarrow> (f x :: nat) \<le> sum_list (map f xs)"
  by (induction xs) auto

lemma length_le_sum: "(\<And>x. 1 \<le> (f x :: nat)) \<Longrightarrow> length xs \<le> sum_list (map f xs)"
proof (induction xs)
  case (Cons x xs)
  have "length xs \<le> sum_list (map f xs)" by (rule Cons.IH) (rule Cons.prems)
  then show ?case using Cons.prems [of x] by (simp only: list.map sum_list.Cons list.size)
qed simp

lemma length_put_question: "length (put_question q) = length (plain (q_name q)) + 6"
  by (simp add: put_question_def length_put_name)

lemma length_put_record: "length (put_record x) = 7 + length (plain (rr_name (snd x))) + length (put_data (rr_data (snd x)))"
  by (simp add: put_record_def length_put_name)

lemma sum_marked: "sum_list (map (\<lambda>x. f (snd x)) (marked m)) = sum_list (map f (all_records m))"
  by (simp add: marked_def all_records_def comp_def)

lemma length_marked: "length (marked m) = length (all_records m)"
  by (simp add: marked_def all_records_def)

lemma length_put_message:
  "length (put_message m) = 12 + (case msg_edns m of None \<Rightarrow> 0 | Some e \<Rightarrow> 4) +
     sum_list (map (\<lambda>q. length (plain (q_name q)) + 6) (queries m)) +
     sum_list (map (\<lambda>r. 7 + length (plain (rr_name r)) + length (put_data (rr_data r))) (all_records m))"
proof -
  have "length (concat (map put_record (marked m))) =
      sum_list (map (\<lambda>r. 7 + length (plain (rr_name r)) + length (put_data (rr_data r))) (all_records m))"
    unfolding sum_marked [symmetric] by (simp add: length_concat_map length_put_record)
  then show ?thesis
    by (simp add: put_message_def put_edns_def length_concat_map length_put_question split: option.split)
qed

subsection \<open>The library\<close>

definition encode :: "string message \<Rightarrow> bytes option" where
  "encode m = (if ok_message m \<and> length (put_message m) \<le> 65535 then Some (put_message m) else None)"

definition decode :: "bytes \<Rightarrow> string message option" where
  "decode bs = (if length bs < 12 then None else get_message bs)"

definition sample_dns :: "string hickory" where
  "sample_dns = text_hickory\<lparr>to_vec := encode, from_vec := decode,
     message_max_payload := (\<lambda>m. case msg_edns m of None \<Rightarrow> 512 | Some e \<Rightarrow> max 512 (max_payload e)),
     set_max_payload := (\<lambda>n e. e\<lparr>max_payload := max 512 n\<rparr>)\<rparr>"

definition sample_new :: "u16 \<Rightarrow> message_type \<Rightarrow> op_code \<Rightarrow> string message" where
  "sample_new i mt opc = (message_response sample_dns i opc)\<lparr>message_type := mt\<rparr>"

lemma sample_dns_sel [simp]:
  "to_vec sample_dns = encode" "from_vec sample_dns = decode" "to_ascii sample_dns n = n"
  "from_ascii sample_dns s = (if s = [] then Inl ''empty name'' else Inr s)"
  "message_response sample_dns = message_response text_hickory"
  "query_new sample_dns s t = \<lparr>q_name = s, q_type = t, q_class = IN\<rparr>"
  by (simp_all add: sample_dns_def)

lemma decode_encode:
  assumes "encode m = Some raw"
  shows "ok_message m" "raw = put_message m" "length raw \<le> 65535" "decode raw = Some (back_message m)"
  using assms get_put_message [of m] length_put_message [of m] by (auto simp: encode_def decode_def split: if_splits)

lemma back_message_sel [simp]:
  "msg_id (back_message m) = msg_id m" "message_type (back_message m) = message_type m"
  "op_code (back_message m) = op_of_number (op_number (op_code m))" "authoritative (back_message m) = authoritative m"
  "truncation (back_message m) = truncation m" "recursion_desired (back_message m) = recursion_desired m"
  "recursion_available (back_message m) = recursion_available m"
  "response_code (back_message m) = rcode_of_number (rcode_number (response_code m))"
  "queries (back_message m) = map back_question (queries m)" "answers (back_message m) = map back_record (answers m)"
  "authorities (back_message m) = map back_record (authorities m)"
  "additionals (back_message m) = map back_record (additionals m)" "msg_edns (back_message m) = msg_edns m"
  by (simp_all add: back_message_def)

subsection \<open>The laws\<close>

lemma name_text_sample [simp]: "name_text sample_dns n = plain n"
  by (simp add: name_text_def)

lemma same_record_back: "writable_data (rr_data r) \<Longrightarrow> same_record sample_dns r (back_record r)"
  by (cases "rr_data r") (simp_all add: same_record_def back_record_def same_name_def rooted_def)

lemma same_question_back:
  "q_type q \<in> {SOA, NS, A, TXT, CAA} \<Longrightarrow> q_class q \<in> {IN, ANY, CH} \<Longrightarrow> same_question sample_dns q (back_question q)"
  by (simp add: same_question_def back_question_def same_name_def rooted_def codes_back)

lemma list_all2_image: "(\<And>x. x \<in> set xs \<Longrightarrow> P x (f x)) \<Longrightarrow> list_all2 P xs (map f xs)"
  by (induction xs) simp_all

lemma reads_back_sample:
  assumes "writable m"
  shows "reads_back sample_dns m (back_message m)"
proof -
  have w: "\<forall>r\<in>set (all_records m). writable_data (rr_data r)"
    "\<forall>q\<in>set (queries m). q_type q \<in> {SOA, NS, A, TXT, CAA} \<and> q_class q \<in> {IN, ANY, CH}" "op_code m \<in> {Query, Update}"
    "response_code m \<in> {NoError, FormErr, ServFail, NXDomain, NotImp, Refused, BADVERS}"
    using assms unfolding writable_def by blast+
  have "list_all2 (same_record sample_dns) rs (map back_record rs)" if "set rs \<subseteq> set (all_records m)" for rs
    using that w(1) by (intro list_all2_image) (auto intro: same_record_back)
  from this [of "answers m"] this [of "authorities m"] this [of "additionals m"]
  have "list_all2 (same_record sample_dns) (answers m) (map back_record (answers m))"
    "list_all2 (same_record sample_dns) (authorities m) (map back_record (authorities m))"
    "list_all2 (same_record sample_dns) (additionals m) (map back_record (additionals m))"
    by (auto simp: all_records_def)
  moreover have "list_all2 (same_question sample_dns) (queries m) (map back_question (queries m))"
    using w(2) by (intro list_all2_image) (blast intro: same_question_back)
  moreover have "op_of_number (op_number (op_code m)) = op_code m" "rcode_of_number (rcode_number (response_code m)) = response_code m"
    using codes_back(3) [OF w(3)] codes_back(4) [OF w(4)] by simp_all
  ultimately show ?thesis by (simp add: reads_back_def)
qed

text \<open>A message that can be written takes no more room than its parts.\<close>

lemma record_room: "7 + length (plain (rr_name r)) + length (put_data (rr_data r)) \<le> record_size sample_dns r"
proof -
  have "length (put_data (rr_data r)) \<le> data_size sample_dns (rr_data r) + 3" by (rule length_put_data) simp
  then show ?thesis using length_plain [of "rr_name r"] by (simp add: record_size_def name_size_def)
qed

lemma question_room: "length (plain (q_name q)) + 6 \<le> question_size sample_dns q"
  using length_plain [of "q_name q"] by (simp add: question_size_def name_size_def)

lemma message_room: "length (put_message m) \<le> message_size sample_dns m"
proof -
  have "sum_list (map (\<lambda>q. length (plain (q_name q)) + 6) (queries m)) \<le> sum_list (map (question_size sample_dns) (queries m))"
    by (rule sum_list_mono) (rule question_room)
  moreover have "sum_list (map (\<lambda>r. 7 + length (plain (rr_name r)) + length (put_data (rr_data r))) (all_records m)) \<le>
      sum_list (map (record_size sample_dns) (all_records m))"
    by (rule sum_list_mono) (rule record_room)
  ultimately show ?thesis by (simp add: length_put_message message_size_def split: option.split)
qed

lemma ok_record_room:
  assumes "record_size sample_dns r \<le> 65535" and "writable_data (rr_data r)"
  shows "ok_record r"
proof -
  have names: "short_name n" if "length n \<le> 65535" for n using that length_plain [of n] by (simp add: short_name_def)
  have texts: "length vs < 65536" if "sum_list (map (\<lambda>v. length v + 1) vs) \<le> 65535" for vs :: "string list"
    using that length_le_sum [of "\<lambda>v. length v + 1" vs] by simp
  show ?thesis
    using assms by (cases "rr_data r") (simp_all add: ok_record_def record_size_def name_size_def names texts)
qed

lemma ok_message_room:
  assumes "writable m" and "message_size sample_dns m \<le> 65535"
  shows "ok_message m"
proof -
  let ?qs = "sum_list (map (question_size sample_dns) (queries m))" and ?rs = "sum_list (map (record_size sample_dns) (all_records m))"
  have room: "?qs \<le> 65535" "?rs \<le> 65535" using assms(2) by (simp_all add: message_size_def)
  have "length (queries m) \<le> ?qs" by (rule length_le_sum) (simp add: question_size_def)
  moreover have "length (all_records m) \<le> ?rs" by (rule length_le_sum) (simp add: record_size_def)
  moreover have "short_name (q_name q)" if "q \<in> set (queries m)" for q
    using member_le_sum [OF that, of "question_size sample_dns"] room(1) length_plain [of "q_name q"]
    by (simp add: question_size_def name_size_def short_name_def)
  moreover have "ok_record r" if "r \<in> set (all_records m)" for r
    using member_le_sum [OF that, of "record_size sample_dns"] room(2) that assms(1)
    by (intro ok_record_room) (auto simp: writable_def)
  ultimately show ?thesis using room by (simp add: ok_message_def length_marked)
qed

lemma write_law_sample: "write_law sample_dns"
  unfolding write_law_def
proof (intro allI impI)
  fix m :: "string message"
  assume m: "writable m \<and> message_size sample_dns m \<le> 65535"
  then have "length (put_message m) \<le> 65535" using message_room [of m] by simp
  then have e: "encode m = Some (put_message m)" using ok_message_room m by (simp add: encode_def)
  show "\<exists>raw d. to_vec sample_dns m = Some raw \<and> length raw \<le> message_size sample_dns m \<and>
      from_vec sample_dns raw = Some d \<and> reads_back sample_dns m d"
    using e decode_encode(4) [OF e] message_room reads_back_sample m by auto
qed

lemma text_in_data: "data_text d \<le> length (put_data d)"
proof (cases d)
  case (RTXT vs)
  have "sum_list (map length vs) \<le> sum_list (map (\<lambda>v. Suc (length v)) vs)" by (rule sum_list_mono) simp
  then show ?thesis by (simp add: RTXT length_concat_map)
qed simp_all

lemma limit_law_sample: "limit_law sample_dns"
  unfolding limit_law_def
proof (intro conjI allI impI)
  fix m raw d
  assume a: "to_vec sample_dns m = Some raw \<and> from_vec sample_dns raw = Some d \<and> \<not> truncation d"
  then have e: "encode m = Some raw" by simp
  have "text_size m \<le> sum_list (map (\<lambda>r. 7 + length (plain (rr_name r)) + length (put_data (rr_data r))) (answers m))"
    unfolding text_size_def by (rule sum_list_mono) (simp add: text_in_data trans_le_add2)
  then show "text_size m \<le> length raw" by (simp add: decode_encode(2) [OF e] length_put_message all_records_def)
  show "length raw \<le> 65535" by (rule decode_encode(3) [OF e])
next
  fix m :: "string message" and r vs v
  assume "r \<in> set (answers m) \<and> rr_data r = RTXT vs \<and> v \<in> set vs \<and> 255 < length v"
  then have "\<not> ok_record r" "r \<in> set (all_records m)"
    by (auto simp: ok_record_def list_all_iff all_records_def not_le intro!: bexI [of _ v])
  then show "to_vec sample_dns m = None" by (auto simp: encode_def ok_message_def)
qed (simp add: decode_def)

lemma header_law_sample: "header_law sample_dns"
  unfolding header_law_def
proof (intro allI impI)
  fix m :: "string message" and raw d
  assume a: "writable m \<and> response_code m \<noteq> BADVERS \<and> to_vec sample_dns m = Some raw \<and> from_vec sample_dns raw = Some d"
  then have e: "encode m = Some raw" by simp
  have "response_code m \<in> {NoError, FormErr, ServFail, NXDomain, NotImp, Refused, BADVERS}"
    using a by (auto simp: writable_def)
  then have "rcode_of_number (rcode_number (response_code m)) = response_code m" by (rule codes_back(4))
  moreover have "d = back_message m" using a decode_encode(4) [OF e] by simp
  ultimately show "response_code d = response_code m" by simp
qed

text \<open>Messages of the same shape take the same room, up to the EDNS record.\<close>

lemma without_serial_room: "ok_data (without_serial d) = ok_data d" "length (put_data (without_serial d)) = length (put_data d)"
  by (cases d; simp)+

lemma same_shape_room:
  assumes "same_shape sample_dns m m'"
  shows "ok_message m' = ok_message m" "length (put_message m') \<le> length (put_message m)"
proof -
  have q: "map (\<lambda>q. (plain (q_name q), q_type q)) (queries m') = map (\<lambda>q. (plain (q_name q), q_type q)) (queries m)"
    and a: "map (\<lambda>r. (rr_name r, rr_ttl r, without_serial (rr_data r))) (authorities m') =
      map (\<lambda>r. (rr_name r, rr_ttl r, without_serial (rr_data r))) (authorities m)"
    and same: "answers m' = answers m" "additionals m' = additionals m" and e: "msg_edns m' \<noteq> None \<longrightarrow> msg_edns m \<noteq> None"
    using assms by (simp_all add: same_shape_def)
  have lens: "length (queries m') = length (queries m)" "length (authorities m') = length (authorities m)"
    using map_eq_imp_length_eq [OF q] map_eq_imp_length_eq [OF a] by simp_all
  have qs: "map (\<lambda>q. f (plain (q_name q))) (queries m') = map (\<lambda>q. f (plain (q_name q))) (queries m)" for f :: "string \<Rightarrow> 'b"
    using arg_cong [OF q, of "map (\<lambda>x. f (fst x))"] by (simp add: comp_def)
  have as: "map (\<lambda>r. f (rr_name r) (without_serial (rr_data r))) (authorities m') =
      map (\<lambda>r. f (rr_name r) (without_serial (rr_data r))) (authorities m)" for f :: "string \<Rightarrow> string rdata \<Rightarrow> 'b"
    using arg_cong [OF a, of "map (\<lambda>x. f (fst x) (snd (snd x)))"] by (simp add: comp_def)
  have "set (map (\<lambda>q. length (plain (q_name q)) < 65536) (queries m')) = set (map (\<lambda>q. length (plain (q_name q)) < 65536) (queries m))"
    by (simp only: qs [of "\<lambda>s. length s < 65536"])
  then have "(\<forall>q\<in>set (queries m'). short_name (q_name q)) = (\<forall>q\<in>set (queries m). short_name (q_name q))"
    unfolding short_name_def by (auto simp: set_eq_iff image_iff)
  moreover have "set (map (\<lambda>r. short_name (rr_name r) \<and> ok_data (rr_data r)) (authorities m')) =
      set (map (\<lambda>r. short_name (rr_name r) \<and> ok_data (rr_data r)) (authorities m))"
    using as [of "\<lambda>n d. short_name n \<and> ok_data d"] by (simp only: without_serial_room)
  then have "(\<forall>r\<in>set (authorities m'). ok_record r) = (\<forall>r\<in>set (authorities m). ok_record r)"
    unfolding ok_record_def by (auto simp: set_eq_iff image_iff)
  ultimately show "ok_message m' = ok_message m"
    using lens same by (auto simp: ok_message_def all_records_def marked_def)
  have "map (\<lambda>r. 7 + length (plain (rr_name r)) + length (put_data (rr_data r))) (authorities m') =
      map (\<lambda>r. 7 + length (plain (rr_name r)) + length (put_data (rr_data r))) (authorities m)"
    using as [of "\<lambda>n d. 7 + length (plain n) + length (put_data d)"] by (simp only: without_serial_room)
  then show "length (put_message m') \<le> length (put_message m)"
    using e same qs [of "\<lambda>s. length s + 6"] by (simp add: length_put_message all_records_def split: option.split)
qed

lemma is_complete_sample:
  "is_complete sample_dns m n \<longleftrightarrow> ok_message m \<and> length (put_message m) \<le> 65535 \<and> \<not> truncation m \<and> length (answers m) = n"
proof (cases "encode m")
  case None
  then show ?thesis by (auto simp: is_complete_iff encode_def split: if_splits)
next
  case (Some raw)
  from decode_encode [OF Some] have "ok_message m" "length (put_message m) \<le> 65535" "decode raw = Some (back_message m)"
    by simp_all
  then show ?thesis by (simp add: is_complete_iff Some)
qed

lemma shape_law_sample: "shape_law sample_dns"
  unfolding shape_law_def
proof (intro allI impI)
  fix m m' :: "string message" and n
  assume a: "same_shape sample_dns m m' \<and> \<not> truncation m' \<and> is_complete sample_dns m n"
  moreover have "answers m' = answers m" using a by (simp add: same_shape_def)
  ultimately show "is_complete sample_dns m' n"
    using same_shape_room [of m m'] by (auto simp: is_complete_sample)
qed

lemma build_law_sample: "build_law sample_dns sample_new"
  by (simp add: build_law_def response_law_def sample_new_def sample_dns_def text_hickory_def)

lemma names_law_sample: "names_law sample_dns"
  by (simp add: names_law_def test_names_def)

lemma message_format_sample: "message_format sample_dns sample_new"
  by (simp add: message_format_def write_law_sample limit_law_sample header_law_sample shape_law_sample build_law_sample names_law_sample)

text \<open>The laws on which delivery rests hold too.\<close>

lemma codec_laws_sample: "codec_laws sample_dns"
proof -
  have "map rr_data (answers d) = map rr_data (answers m)"
    if "to_vec sample_dns m = Some raw" "from_vec sample_dns raw = Some d" "\<forall>r\<in>set (answers m). \<exists>vs. rr_data r = RTXT vs" for m raw d
  proof -
    have e: "encode m = Some raw" using that(1) by simp
    have "d = back_message m" using decode_encode(4) [OF e] that(2) by simp
    then show ?thesis using that(3) by (auto simp: back_record_def)
  qed
  then have "txt_law sample_dns" unfolding txt_law_def by blast
  moreover have "query_law sample_dns" "response_law sample_dns"
    using build_law_sample by (simp_all add: query_law_def build_law_def)
  ultimately show ?thesis using shape_law_sample by (simp add: codec_laws_def)
qed

end
