(* ===== verification/Dns_Tests_Sample.thy ===== *)
theory Dns_Tests_Sample
  imports Dns_Refusal_Tests Sample_Codec
begin

text \<open>
  All unit tests of \<open>src/dns.rs\<close> together, and with a concrete encoding of messages and a clock that
  advances with each operation, for up to a millisecond.
\<close>

lemma dns_tests_pass:
  assumes fmt: "message_format H new" and live: "brief c" "unexpired now c" and order: "fair_order ho"
  shows "acme_challenge_a_is_nodata_not_nxdomain H new timestamp c = Some ()"
    "acme_challenge_txt_no_token_is_nodata_not_nxdomain H new timestamp c = Some ()"
    "acme_challenge_txt_with_token_returns_answer H new ho timestamp c = Some ()"
    "concurrent_tokens_are_separate_txt_records H new ho timestamp c = Some ()"
    "oversized_udp_response_is_truncated H new ho timestamp c = Some ()"
    "large_rrset_is_complete_without_udp_limit H new ho timestamp c = Some ()"
    "soa_and_ns_follow_authoritative_owner_semantics H new c = Some ()"
    "soa_serial_is_stable_and_tracks_dynamic_zone_changes H new ho c = Some ()"
    "unsupported_query_class_never_receives_in_records H new timestamp c = Some ()"
    "semantically_malformed_messages_return_formerr H new timestamp c = Some ()"
    "edns_payload_is_echoed_and_capped H new timestamp c = Some ()"
    "udp_truncation_falls_back_to_a_complete_tcp_answer_at_capacity H new ho timestamp c now = Some ()"
    "unexpected_serialization_truncation_returns_servfail H new = Some ()"
    "serialization_error_returns_servfail H new = Some ()"
    "nonexistent_in_zone_name_is_nxdomain H new timestamp c = Some ()"
    "nonexistent_name_is_nxdomain_for_unsupported_type H new timestamp c = Some ()"
    "out_of_zone_name_is_refused_without_authority_claim H new timestamp c = Some ()"
    "unsupported_opcode_is_not_implemented H new timestamp c = Some ()"
    "unsupported_edns_version_returns_badvers H new timestamp c = Some ()"
    "xip_ip_name_has_a_record H new timestamp c = Some ()"
    "acme_challenge_a_with_0x20_case_is_nodata_not_nxdomain H new timestamp c = Some ()"
    "acme_challenge_txt_with_0x20_case_and_token_returns_answer H new ho timestamp c = Some ()"
    "xip_ip_name_with_0x20_case_has_a_record H new timestamp c = Some ()"
  by (fact nodata_tests_pass [OF fmt] address_tests_pass [OF fmt] token_tests_pass [OF fmt live(1) order]
      oversized_tests_pass [OF fmt live(1) order] owner_semantics_test_passes [OF fmt] serial_test_passes [OF fmt live(1) order]
      class_test_passes [OF fmt] malformed_tests_pass [OF fmt] edns_payload_test_passes [OF fmt]
      fallback_test_passes [OF fmt live order] unencodable_tests_pass [OF fmt] opcode_test_passes [OF fmt]
      edns_version_test_passes [OF fmt])+

definition sample_clock :: "nat \<Rightarrow> instant" where
  "sample_clock i = Instant (min i 1000000)"

lemma sample_clock_brief: "brief sample_clock" "unexpired (sample_clock i) sample_clock"
  by (auto simp: brief_def unexpired_def sample_clock_def duration_from_secs_def min_def)

lemma listed_order: "fair_order (\<lambda>rs. rs)"
  by (simp add: fair_order_def)

lemmas dns_tests_pass_at_sample = dns_tests_pass [OF message_format_sample sample_clock_brief listed_order]

end
