(* ===== verification/Connections.thy ===== *)
theory Connections
  imports Process_Spec
begin

text \<open>
  The connections of the DNS listener of \<open>src/main.rs\<close> over time: each open connection holds a
  permit, and every read and write is within \<open>tokio::time::timeout\<close>. That timers fire on time is part
  of the history: nothing happens at a time by which a connection should have ended. Connections
  are told apart by numbers.
\<close>

subsection \<open>Slots\<close>

record ('sem, 'ph) slots =
  slot_permits :: 'sem
  slot_conns :: "(nat \<times> 'ph) list"

definition no_conns :: "'sem semaphore \<Rightarrow> nat \<Rightarrow> ('sem, 'ph) slots" where
  "no_conns S max_connections = \<lparr>slot_permits = sem_new S max_connections, slot_conns = []\<rparr>"

text \<open>The task of a connection ends, and its permit is dropped.\<close>

definition end_conn :: "'sem semaphore \<Rightarrow> nat \<Rightarrow> ('sem, 'ph) slots \<Rightarrow> ('sem, 'ph) slots" where
  "end_conn S i l = l\<lparr>slot_permits := sem_release S (slot_permits l), slot_conns := AList.delete i (slot_conns l)\<rparr>"

definition set_phase :: "nat \<Rightarrow> 'ph \<Rightarrow> ('sem, 'ph) slots \<Rightarrow> ('sem, 'ph) slots" where
  "set_phase i ph l = l\<lparr>slot_conns := AList.update i ph (slot_conns l)\<rparr>"

definition on_time :: "('ph \<Rightarrow> instant option) \<Rightarrow> instant \<Rightarrow> ('sem, 'ph) slots \<Rightarrow> bool" where
  "on_time due now l \<longleftrightarrow> (\<forall>(i, ph)\<in>set (slot_conns l). case due ph of None \<Rightarrow> True | Some d \<Rightarrow> now \<le> d)"

inductive slot_run :: "('ev \<Rightarrow> instant \<Rightarrow> ('sem, 'ph) slots \<Rightarrow> ('sem, 'ph) slots option) \<Rightarrow> ('ph \<Rightarrow> instant option) \<Rightarrow>
    instant \<Rightarrow> ('sem, 'ph) slots \<Rightarrow> (instant \<times> 'ev) list \<Rightarrow> instant \<Rightarrow> ('sem, 'ph) slots \<Rightarrow> bool"
  for step due t0 l0 where
  slot_start: "slot_run step due t0 l0 [] t0 l0"
| slot_event: "slot_run step due t0 l0 tr t l \<Longrightarrow> t \<le> now \<Longrightarrow> on_time due now l \<Longrightarrow> step ev now l = Some l' \<Longrightarrow>
    slot_run step due t0 l0 (tr @ [(now, ev)]) now l'"
| slot_wait: "slot_run step due t0 l0 tr t l \<Longrightarrow> t \<le> now \<Longrightarrow> on_time due now l \<Longrightarrow> slot_run step due t0 l0 tr now l"

subsection \<open>DNS connections over TCP\<close>

definition IO_TIMEOUT :: duration where
  "IO_TIMEOUT = duration_from_secs 30"

text \<open>
  What a connection waits for, and since when: the two bytes of the length, the message, the end
  of the write. The handler itself waits only for the lock of the store, which takes no time here.
\<close>

datatype tcp_phase = ReadingLength instant | ReadingMessage nat instant | WritingReply instant

datatype tcp_conn_event =
    TcpIncoming nat "string + unit"
  | LengthRead nat nat
  | MessageRead nat bytes   \<comment> \<open>with the reply of the handler\<close>
  | ReplyWritten nat
  | TcpEnds nat

fun tcp_conn_step :: "'sem semaphore \<Rightarrow> tcp_conn_event \<Rightarrow> instant \<Rightarrow> ('sem, tcp_phase) slots \<Rightarrow>
    ('sem, tcp_phase) slots option" where
  "tcp_conn_step S (TcpIncoming i accept) now l =
     (if map_of (slot_conns l) i \<noteq> None then None
      else case tcp_round S False accept (slot_permits l) of
             None \<Rightarrow> None
           | Some (flow, opened, free) \<Rightarrow>
               Some (if opened then l\<lparr>slot_permits := free, slot_conns := (i, ReadingLength now) # slot_conns l\<rparr>
                     else l\<lparr>slot_permits := free\<rparr>))"
| "tcp_conn_step S (LengthRead i msg_len) now l =
     (case map_of (slot_conns l) i of
        Some (ReadingLength since) \<Rightarrow>
          Some (if msg_len = 0 then end_conn S i l else set_phase i (ReadingMessage msg_len now) l)
      | _ \<Rightarrow> None)"
| "tcp_conn_step S (MessageRead i reply) now l =
     (case map_of (slot_conns l) i of
        Some (ReadingMessage msg_len since) \<Rightarrow>
          Some (if reply = [] then end_conn S i l
                else if length reply > 65535 then end_conn S i l
                else set_phase i (WritingReply now) l)
      | _ \<Rightarrow> None)"
| "tcp_conn_step S (ReplyWritten i) now l =
     (case map_of (slot_conns l) i of Some (WritingReply since) \<Rightarrow> Some (set_phase i (ReadingLength now) l) | _ \<Rightarrow> None)"
| "tcp_conn_step S (TcpEnds i) now l =
     (case map_of (slot_conns l) i of Some ph \<Rightarrow> Some (end_conn S i l) | None \<Rightarrow> None)"

fun tcp_due :: "tcp_phase \<Rightarrow> instant option" where
  "tcp_due (ReadingLength since) = Some (plus_duration since IO_TIMEOUT)"
| "tcp_due (ReadingMessage msg_len since) = Some (plus_duration since IO_TIMEOUT)"
| "tcp_due (WritingReply since) = Some (plus_duration since IO_TIMEOUT)"

definition run_tcp_dns :: "'sem semaphore \<Rightarrow> instant \<Rightarrow>
    (instant \<times> tcp_conn_event) list \<Rightarrow> instant \<Rightarrow> ('sem, tcp_phase) slots \<Rightarrow> bool" where
  "run_tcp_dns S start = slot_run (tcp_conn_step S) tcp_due start (no_conns S MAX_CONNECTIONS)"

subsection \<open>What every listener keeps\<close>

definition slots_ok :: "'sem semaphore \<Rightarrow> nat \<Rightarrow> ('sem, 'ph) slots \<Rightarrow> bool" where
  "slots_ok S cap l \<longleftrightarrow> distinct (map fst (slot_conns l)) \<and> sem_available S (slot_permits l) + length (slot_conns l) = cap"

lemma slots_ok_no_conns: "semaphore_law S \<Longrightarrow> slots_ok S cap (no_conns S cap)"
  by (simp add: slots_ok_def no_conns_def sem_laws)

lemma length_delete_key: "distinct (map fst xs) \<Longrightarrow> map_of xs i = Some ph \<Longrightarrow> Suc (length (AList.delete i xs)) = length xs"
proof (induction xs)
  case (Cons x xs)
  have "i \<notin> fst ` set xs \<Longrightarrow> AList.delete i xs = xs" by (induction xs) auto
  with Cons show ?case by (auto split: if_splits)
qed simp

lemma slots_ok_end:
  assumes "semaphore_law S" and "slots_ok S cap l" and "map_of (slot_conns l) i = Some ph"
  shows "slots_ok S cap (end_conn S i l)"
  using assms length_delete_key [of "slot_conns l" i ph]
  by (simp add: slots_ok_def end_conn_def sem_laws distinct_delete)

lemma slots_ok_set:
  assumes "slots_ok S cap l" and "map_of (slot_conns l) i = Some ph"
  shows "slots_ok S cap (set_phase i ph' l)"
  using assms by (simp add: slots_ok_def set_phase_def distinct_update length_update_key)

lemma slots_ok_add:
  assumes "slots_ok S cap l" and "map_of (slot_conns l) i = None"
    and "sem_available S free + of_bool opened = sem_available S (slot_permits l)"
  shows "slots_ok S cap (if opened then l\<lparr>slot_permits := free, slot_conns := (i, ph) # slot_conns l\<rparr> else l\<lparr>slot_permits := free\<rparr>)"
  using assms by (auto simp: slots_ok_def map_of_eq_None_iff)

lemma conns_after [simp]:
  "map_of (slot_conns (set_phase i ph l)) = (map_of (slot_conns l))(i \<mapsto> ph)"
  "map_of (slot_conns (end_conn S i l)) = (map_of (slot_conns l))(i := None)"
  by (auto simp: set_phase_def end_conn_def update_conv' delete_conv')

text \<open>
  The interface of a listener: its steps keep the count of permits, and a step leaves a connection
  as it was, or starts a new wait on it with the full time limit because its client made progress.
\<close>

locale timed_slots =
  fixes S :: "'sem semaphore"
    and step :: "'ev \<Rightarrow> instant \<Rightarrow> ('sem, 'ph) slots \<Rightarrow> ('sem, 'ph) slots option"
    and due :: "'ph \<Rightarrow> instant option"
    and limit :: duration
    and progress :: "'ev \<Rightarrow> nat option"
  assumes keeps: "semaphore_law S \<Longrightarrow> slots_ok S cap l \<Longrightarrow> step ev now l = Some l' \<Longrightarrow> slots_ok S cap l'"
    and waits: "step ev now l = Some l' \<Longrightarrow> map_of (slot_conns l') i = Some ph \<Longrightarrow>
      map_of (slot_conns l) i = Some ph \<or> (\<forall>d. due ph = Some d \<longrightarrow> progress ev = Some i \<and> d = plus_duration now limit)"
begin

lemma on_time_due: "on_time due now l \<Longrightarrow> map_of (slot_conns l) i = Some ph \<Longrightarrow> due ph = Some d \<Longrightarrow> now \<le> d"
  by (auto simp: on_time_def dest!: map_of_SomeD split: option.splits)

lemma slots_kept:
  assumes "semaphore_law S" and "slot_run step due t0 l0 tr t l" and "slots_ok S cap l0"
  shows "slots_ok S cap l"
  using assms(2,3) by (induction rule: slot_run.induct) (use keeps [OF assms(1)] in blast)+

lemma waiting_progressed:
  assumes "slot_run step due t0 l0 tr t l" and "slot_conns l0 = []"
    and "map_of (slot_conns l) i = Some ph" and "due ph = Some d"
  shows "t \<le> d \<and> (\<exists>s ev. (s, ev) \<in> set tr \<and> progress ev = Some i \<and> d = plus_duration s limit)"
  using assms
proof (induction arbitrary: ph d rule: slot_run.induct)
  case (slot_event tr t l now ev l')
  show ?case
  proof (cases "map_of (slot_conns l) i = Some ph")
    case True
    with slot_event.IH [OF slot_event.prems(1) True slot_event.prems(3)] on_time_due [OF slot_event.hyps(3) True slot_event.prems(3)]
    show ?thesis by auto
  next
    case False
    with waits [OF slot_event.hyps(4) slot_event.prems(2)] slot_event.prems(3)
    have "progress ev = Some i" "d = plus_duration now limit" by auto
    then show ?thesis using plus_duration_ge by auto
  qed
next
  case (slot_wait tr t l now)
  from slot_wait.IH [OF slot_wait.prems] on_time_due [OF slot_wait.hyps(3) slot_wait.prems(2,3)] show ?case by auto
qed simp

lemma run_on_time:
  assumes "slot_run step due t0 l0 tr t l" and "slot_conns l0 = []" and "semaphore_law S" and "slots_ok S cap l0"
  shows "on_time due t l"
proof -
  have "distinct (map fst (slot_conns l))" using slots_kept [OF assms(3,1,4)] by (simp add: slots_ok_def)
  then have "map_of (slot_conns l) i = Some ph" if "(i, ph) \<in> set (slot_conns l)" for i ph
    using that by simp
  then show ?thesis using waiting_progressed [OF assms(1,2)] by (fastforce simp: on_time_def split: option.split)
qed

end

fun tcp_progress :: "tcp_conn_event \<Rightarrow> nat option" where
  "tcp_progress (TcpIncoming i (Inr u)) = Some i"
| "tcp_progress (LengthRead i n) = Some i"
| "tcp_progress (MessageRead i reply) = Some i"
| "tcp_progress (ReplyWritten i) = Some i"
| "tcp_progress _ = None"

interpretation tcp_slots: timed_slots S "tcp_conn_step S" tcp_due IO_TIMEOUT tcp_progress
  for S :: "'sem semaphore"
proof (unfold_locales, goal_cases)
  case (1 cap l ev now l')
  show ?case
  proof (cases ev)
    case (TcpIncoming i accept)
    with 1(3) obtain flow opened free where r: "tcp_round S False accept (slot_permits l) = Some (flow, opened, free)"
      by (auto split: if_splits option.splits)
    have "sem_available S free + of_bool opened = sem_available S (slot_permits l)"
      using tcp_round_permits [OF 1(1) r] by simp
    from slots_ok_add [OF 1(2) _ this, of i] 1(3) TcpIncoming r show ?thesis by (auto split: if_splits)
  qed (use 1 slots_ok_set slots_ok_end [OF 1(1,2)] in \<open>auto split: option.splits tcp_phase.splits if_splits\<close>)
next
  case (2 ev now l l' i ph)
  then show ?case
    by (cases ev) (auto simp: tcp_round_def acquire_owned_def split: if_splits option.splits tcp_phase.splits sum.splits)
qed

subsection \<open>Slots of DNS connections are not held by idle clients\<close>

lemma started: "semaphore_law S \<Longrightarrow> slots_ok S 1024 (no_conns S MAX_CONNECTIONS)"
  by (simp_all add: slots_ok_no_conns MAX_CONNECTIONS_def)

lemma no_conns_sel [simp]: "slot_conns (no_conns S n) = []"
  by (simp add: no_conns_def)

text \<open>
  For DNS over TCP the listener waits for a slot instead, exactly when 1024 are taken; each slot is
  held by a client that connected, sent the length of a message or a message, or took a reply
  within the last thirty seconds.
\<close>

theorem tcp_slots_need_progress:
  assumes "semaphore_law S" and "run_tcp_dns S start tr t l"
  shows "length (slot_conns l) \<le> 1024 \<and>
    (acquire_owned S False (slot_permits l) = Waits \<longleftrightarrow> length (slot_conns l) = 1024) \<and>
    (\<forall>(i, ph)\<in>set (slot_conns l). \<exists>s ev. (s, ev) \<in> set tr \<and> tcp_progress ev = Some i \<and> t \<le> plus_duration s 30000000000)"
proof (intro conjI)
  note run = assms(2) [unfolded run_tcp_dns_def]
  have ok: "slots_ok S 1024 l" by (rule tcp_slots.slots_kept [OF assms(1) run started [OF assms(1)]])
  then show "length (slot_conns l) \<le> 1024" by (simp add: slots_ok_def)
  show "acquire_owned S False (slot_permits l) = Waits \<longleftrightarrow> length (slot_conns l) = 1024"
    using ok sem_laws(2) [OF assms(1), of "slot_permits l"] by (auto simp: acquire_owned_def slots_ok_def split: option.split)
  show "\<forall>(i, ph)\<in>set (slot_conns l). \<exists>s ev. (s, ev) \<in> set tr \<and> tcp_progress ev = Some i \<and> t \<le> plus_duration s 30000000000"
  proof (intro ballI, clarify)
    fix i ph
    assume "(i, ph) \<in> set (slot_conns l)"
    then have m: "map_of (slot_conns l) i = Some ph" using ok by (simp add: slots_ok_def)
    obtain d where "tcp_due ph = Some d" by (cases ph) auto
    from tcp_slots.waiting_progressed [OF run no_conns_sel m this]
    show "\<exists>s ev. (s, ev) \<in> set tr \<and> tcp_progress ev = Some i \<and> t \<le> plus_duration s 30000000000"
      by (auto simp: IO_TIMEOUT_def duration_from_secs_def)
  qed
qed

subsection \<open>The connections of the process\<close>

text \<open>
  The process of \<open>Process\<close> sees of a listener the connections that open and close. A step of the
  listener is silent there, or is one event that does not take time and answers nothing.
\<close>

definition proc_moves :: "'nm hickory \<Rightarrow> (zone_records \<Rightarrow> zone_records) \<Rightarrow> ('sem, 'body) http_lib \<Rightarrow>
    'body proc_event list \<Rightarrow> ('nm, 'sem, 'body) process \<Rightarrow> ('nm, 'sem, 'body) process \<Rightarrow> bool" where
  "proc_moves H ho L es p p' \<longleftrightarrow> es = [] \<and> p' = p \<or>
     (\<exists>e. es = [e] \<and> proc_enabled (sem_lib L) e p \<and> (\<forall>t. proc_clock e t t) \<and>
        proc_step H ho L e p = Some (None, Running p'))"

lemma proc_run_moves:
  assumes "proc_run H ho L t0 p0 ptr t (Running p)" and "proc_moves H ho L es p p'"
  shows "\<exists>ptr'. proc_run H ho L t0 p0 ptr' t (Running p') \<and> map fst ptr' = map fst ptr @ es"
  using assms(2) unfolding proc_moves_def
proof (elim disjE exE conjE)
  fix e
  assume e: "es = [e]" "proc_enabled (sem_lib L) e p" "\<forall>t. proc_clock e t t"
    "proc_step H ho L e p = Some (None, Running p')"
  from proc_event [OF assms(1) e(2) _ e(4)] e(1,3) show ?thesis
    by (intro exI [of _ "ptr @ [(e, None)]"]) auto
qed (use assms(1) in auto)

lemma slots_in_process:
  assumes "slot_run step due t0 l0 tr t l"
    and "\<And>tr t l ev now l'. slot_run step due t0 l0 tr t l \<Longrightarrow> step ev now l = Some l' \<Longrightarrow>
      proc_moves H ho L (es ev) (emb l) (emb l')"
  shows "\<exists>ptr. proc_run H ho L clock (emb l0) ptr clock (Running (emb l)) \<and>
    map fst ptr = concat (map (\<lambda>(now, ev). es ev) tr)"
  using assms(1)
proof (induction rule: slot_run.induct)
  case (slot_event tr t l now ev l')
  then obtain ptr where "proc_run H ho L clock (emb l0) ptr clock (Running (emb l))"
      "map fst ptr = concat (map (\<lambda>(now, ev). es ev) tr)" by blast
  with proc_run_moves [OF this(1) assms(2) [OF slot_event.hyps(1,4)]] show ?case by simp
qed (auto intro: exI [of _ "[]"] proc_none)

lemma end_conn_length:
  "slots_ok S cap l \<Longrightarrow> map_of (slot_conns l) i = Some ph \<Longrightarrow>
   slot_conns l \<noteq> [] \<and> length (slot_conns (end_conn S i l)) = length (slot_conns l) - 1"
  using length_delete_key [of "slot_conns l" i ph] by (auto simp: slots_ok_def end_conn_def)

fun tcp_proc_events :: "tcp_conn_event \<Rightarrow> 'body proc_event list" where
  "tcp_proc_events (TcpIncoming i accept) = [TcpAccept accept]"
| "tcp_proc_events (LengthRead i msg_len) = (if msg_len = 0 then [TcpClose] else [])"
| "tcp_proc_events (MessageRead i reply) = (if reply = [] \<or> length reply > 65535 then [TcpClose] else [])"
| "tcp_proc_events (ReplyWritten i) = []"
| "tcp_proc_events (TcpEnds i) = [TcpClose]"

definition with_tcp_slots :: "('nm, 'sem, 'body) process \<Rightarrow> ('sem, tcp_phase) slots \<Rightarrow> ('nm, 'sem, 'body) process" where
  "with_tcp_slots p l = p\<lparr>tcp_permits := slot_permits l, tcp_open := length (slot_conns l)\<rparr>"

lemma tcp_close_process:
  assumes "slots_ok (sem_lib L) cap l" and "map_of (slot_conns l) i = Some ph"
  shows "proc_moves H ho L [TcpClose] (with_tcp_slots p l) (with_tcp_slots p (end_conn (sem_lib L) i l))"
  using end_conn_length [OF assms]
  by (simp add: proc_moves_def with_tcp_slots_def) (simp add: end_conn_def)

lemma tcp_phase_process:
  "map_of (slot_conns l) i = Some ph \<Longrightarrow> proc_moves H ho L [] (with_tcp_slots p l) (with_tcp_slots p (set_phase i ph' l))"
  by (simp add: proc_moves_def with_tcp_slots_def set_phase_def length_update_key)

lemma tcp_conn_step_process:
  assumes "slots_ok (sem_lib L) cap l" and "tcp_conn_step (sem_lib L) ev now l = Some l'" and "\<not> tcp_closed p"
  shows "proc_moves H ho L (tcp_proc_events ev) (with_tcp_slots p l) (with_tcp_slots p l')"
proof (cases ev)
  case (TcpIncoming i accept)
  with assms(2) obtain flow opened free where r: "tcp_round (sem_lib L) False accept (slot_permits l) = Some (flow, opened, free)"
    by (auto split: if_splits option.splits)
  then have "flow = Again" "acquire_owned (sem_lib L) False (slot_permits l) \<noteq> Waits"
    by (auto simp: tcp_round_def acquire_owned_def split: sum.splits option.splits)
  with TcpIncoming r assms(2,3) show ?thesis by (auto simp: proc_moves_def with_tcp_slots_def split: if_splits)
qed (use assms(2) in \<open>auto simp: tcp_close_process [OF assms(1)] tcp_phase_process
      split: option.splits tcp_phase.splits if_splits\<close>)

text \<open>
  Every history of the DNS listener is one of the process it belongs to, with its connections opened and
  closed in the same order; so the limits shown for the process hold with timers too.
\<close>

theorem tcp_slots_in_process:
  assumes law: "semaphore_law (sem_lib L)" and run: "run_tcp_dns (sem_lib L) start tr t l"
    and main: "main_start H C (sem_lib L) args timestamp now udp tcp http sigterm = Some (Running p0)"
  shows "\<exists>ptr. proc_run H ho L now p0 ptr now (Running (with_tcp_slots p0 l)) \<and>
    map fst ptr = concat (map (\<lambda>(now, ev). tcp_proc_events ev) tr)"
proof -
  let ?l0 = "no_conns (sem_lib L) MAX_CONNECTIONS"
  have p0: "\<not> tcp_closed p0" "with_tcp_slots p0 ?l0 = p0"
    by (rule main_start_Running [OF main]; simp add: with_tcp_slots_def no_conns_def)+
  note run = run [unfolded run_tcp_dns_def]
  have "proc_moves H ho L (tcp_proc_events ev) (with_tcp_slots p0 l) (with_tcp_slots p0 l')"
    if "slot_run (tcp_conn_step (sem_lib L)) tcp_due start ?l0 tr t l" "tcp_conn_step (sem_lib L) ev now l = Some l'" for tr t l ev now l'
    by (rule tcp_conn_step_process [OF tcp_slots.slots_kept [OF law that(1) started [OF law]] that(2) p0(1)])
  from slots_in_process [where emb = "with_tcp_slots p0" and es = tcp_proc_events, OF run this] show ?thesis
    unfolding p0(2) .
qed

end
