(* ===== verification/Http_Connections.thy ===== *)
theory Http_Connections
  imports Server
begin

text \<open>
  The HTTP listener of \<open>src/main.rs\<close> over time: which connections it takes and which it turns away,
  for any sequence of connections and whatever \<open>hyper\<close> makes of them.
\<close>

subsection \<open>The listener\<close>

text \<open>
  \<open>run_http_api_with_limits\<close>. What \<open>hyper\<close> does with a connection is a parameter: how long the future
  of \<open>serve_connection\<close> takes (\<open>None\<close>: it is never done), given the options of the builder, what the
  client does and how the router serves it; the status of the response to the first request; and
  whether a client transmits the entire head of a request.
\<close>

record http_builder =
  builder_timer :: bool
  builder_header_read_timeout :: "duration option"
  builder_max_headers :: nat

record ('client, 'svc) hyper =
  builder_new :: http_builder
  serve_connection :: "http_builder \<Rightarrow> 'client \<Rightarrow> 'svc \<Rightarrow> duration option"
  first_status :: "http_builder \<Rightarrow> 'client \<Rightarrow> 'svc \<Rightarrow> nat option"
  completes_head :: "'client \<Rightarrow> bool"

text \<open>
  The documentation of \<open>header_read_timeout\<close>: when there is a timer, and a client does not transmit
  the entire head within this time, the connection is closed.
\<close>

definition hyper_law :: "('client, 'svc) hyper \<Rightarrow> bool" where
  "hyper_law hy \<longleftrightarrow> (\<forall>b client app limit.
     builder_timer b \<and> builder_header_read_timeout b = Some limit \<and> \<not> completes_head hy client \<longrightarrow>
     (\<exists>d. serve_connection hy b client app = Some d \<and> d \<le> limit))"

definition HTTP_HEADER_READ_TIMEOUT :: duration where
  "HTTP_HEADER_READ_TIMEOUT = duration_from_secs 5"

definition connection_builder :: "('client, 'svc) hyper \<Rightarrow> duration \<Rightarrow> http_builder" where
  "connection_builder hy header_read_timeout =
     (builder_new hy)\<lparr>builder_timer := True, builder_header_read_timeout := Some header_read_timeout,
       builder_max_headers := 32\<rparr>"

text \<open>The state of the loop: the permits, and for each task of a connection when it ends.\<close>

record 'sem http_listener =
  listener_permits :: 'sem
  listener_tasks :: "instant option list"

definition new_listener :: "'sem semaphore \<Rightarrow> nat \<Rightarrow> 'sem http_listener" where
  "new_listener S max_connections = \<lparr>listener_permits = sem_new S max_connections, listener_tasks = []\<rparr>"

type_synonym ('client, 'svc) connection = "instant \<times> 'client \<times> 'svc"
type_synonym ('client, 'svc) incoming = "instant \<times> (string + 'client \<times> 'svc)"

fun task_end :: "('client, 'svc) hyper \<Rightarrow> duration \<Rightarrow> ('client, 'svc) connection \<Rightarrow> instant option" where
  "task_end hy header_read_timeout (start, client, app) =
     map_option (plus_duration start) (serve_connection hy (connection_builder hy header_read_timeout) client app)"

fun ended :: "instant \<Rightarrow> instant option \<Rightarrow> bool" where
  "ended now None = False"
| "ended now (Some e) = (e < now)"

text \<open>The tasks that have ended by now have dropped their permits.\<close>

definition drop_ended :: "'sem semaphore \<Rightarrow> instant \<Rightarrow> 'sem http_listener \<Rightarrow> 'sem http_listener" where
  "drop_ended S now l =
     \<lparr>listener_permits = (sem_release S ^^ length (filter (ended now) (listener_tasks l))) (listener_permits l),
      listener_tasks = filter (\<lambda>e. \<not> ended now e) (listener_tasks l)\<rparr>"

text \<open>
  A round of the loop, at the time of an \<open>accept\<close>: the connection is served by a new task, with the
  permit, or turned away; the result says which.
\<close>

fun http_arrival :: "('client, 'svc) hyper \<Rightarrow> 'sem semaphore \<Rightarrow> duration \<Rightarrow>
    ('client, 'svc) incoming \<Rightarrow> 'sem http_listener \<Rightarrow> bool \<times> 'sem http_listener" where
  "http_arrival hy S header_read_timeout (now, Inl error) l = (False, drop_ended S now l)"
| "http_arrival hy S header_read_timeout (now, Inr (client, app)) l =
     (let l = drop_ended S now l
      in case sem_try_acquire S (listener_permits l) of
           None \<Rightarrow> (False, l)
         | Some permits \<Rightarrow>
             (True, \<lparr>listener_permits = permits,
                     listener_tasks = task_end hy header_read_timeout (now, client, app) # listener_tasks l\<rparr>))"

fun http_arrivals :: "('client, 'svc) hyper \<Rightarrow> 'sem semaphore \<Rightarrow> duration \<Rightarrow>
    ('client, 'svc) incoming list \<Rightarrow> 'sem http_listener \<Rightarrow> bool list \<times> 'sem http_listener" where
  "http_arrivals hy S header_read_timeout [] l = ([], l)"
| "http_arrivals hy S header_read_timeout (a # as) l =
     (let (opened, l) = http_arrival hy S header_read_timeout a l;
          (outs, l) = http_arrivals hy S header_read_timeout as l
      in (opened # outs, l))"

definition run_http_api_with_limits :: "('client, 'svc) hyper \<Rightarrow> 'sem semaphore \<Rightarrow> nat \<Rightarrow> duration \<Rightarrow>
    ('client, 'svc) incoming list \<Rightarrow> bool list \<times> 'sem http_listener" where
  "run_http_api_with_limits hy S max_connections header_read_timeout as =
     http_arrivals hy S header_read_timeout as (new_listener S max_connections)"

definition run_http_api :: "('client, 'svc) hyper \<Rightarrow> 'sem semaphore \<Rightarrow>
    ('client, 'svc) incoming list \<Rightarrow> bool list \<times> 'sem http_listener" where
  "run_http_api hy S as = run_http_api_with_limits hy S MAX_HTTP_CONNECTIONS HTTP_HEADER_READ_TIMEOUT as"

subsection \<open>Which HTTP connections are taken\<close>

text \<open>The connections that were taken.\<close>

fun taken :: "('client, 'svc) incoming list \<Rightarrow> bool list \<Rightarrow> ('client, 'svc) connection list" where
  "taken ((now, Inr (client, app)) # as) (True # outs) = (now, client, app) # taken as outs"
| "taken (a # as) (opened # outs) = taken as outs"
| "taken _ _ = []"

definition still_open :: "('client, 'svc) hyper \<Rightarrow> duration \<Rightarrow> instant \<Rightarrow> ('client, 'svc) connection \<Rightarrow> bool" where
  "still_open hy header_read_timeout now c \<longleftrightarrow> \<not> ended now (task_end hy header_read_timeout c)"

text \<open>
  What the state of the loop stands for when the connections \<open>cs\<close> have been taken: the tasks are those
  that were there at the last round, and the permits are accounted for.
\<close>

definition listener_ok :: "('client, 'svc) hyper \<Rightarrow> 'sem semaphore \<Rightarrow> nat \<Rightarrow> duration \<Rightarrow> instant \<Rightarrow>
    ('client, 'svc) connection list \<Rightarrow> 'sem http_listener \<Rightarrow> bool" where
  "listener_ok hy S cap limit t cs l \<longleftrightarrow>
     mset (listener_tasks l) = image_mset (task_end hy limit) (mset (filter (still_open hy limit t) cs)) \<and>
     sem_available S (listener_permits l) + length (listener_tasks l) = cap"

lemma ended_later: "ended t e \<Longrightarrow> t \<le> u \<Longrightarrow> ended u e"
  by (cases e) auto

lemma still_open_start: "still_open hy limit now (now, client, app)"
  by (cases "serve_connection hy (connection_builder hy limit) client app") (simp_all add: still_open_def not_less)

lemma release_many: "semaphore_law S \<Longrightarrow> sem_available S ((sem_release S ^^ n) p) = sem_available S p + n"
  by (induction n) (simp_all add: sem_laws)

lemma drop_ended_ok:
  assumes law: "semaphore_law S" and ok: "listener_ok hy S cap limit t cs l" and "t \<le> now"
  shows "listener_ok hy S cap limit now cs (drop_ended S now l)"
proof -
  have later: "still_open hy limit t c \<and> still_open hy limit now c \<longleftrightarrow> still_open hy limit now c" for c
    using ended_later [OF _ \<open>t \<le> now\<close>] by (auto simp: still_open_def)
  have "mset (filter (\<lambda>e. \<not> ended now e) (listener_tasks l)) =
      filter_mset (\<lambda>e. \<not> ended now e) (image_mset (task_end hy limit) (mset (filter (still_open hy limit t) cs)))"
    using ok by (simp add: listener_ok_def)
  also have "\<dots> = image_mset (task_end hy limit) (mset (filter (still_open hy limit now) cs))"
    by (simp add: filter_mset_image_mset filter_filter_mset later still_open_def [symmetric])
  finally have "mset (filter (\<lambda>e. \<not> ended now e) (listener_tasks l)) =
      image_mset (task_end hy limit) (mset (filter (still_open hy limit now) cs))" .
  moreover have "length (filter (ended now) (listener_tasks l)) +
      length (filter (\<lambda>e. \<not> ended now e) (listener_tasks l)) = length (listener_tasks l)"
    by (rule sum_length_filter_compl)
  ultimately show ?thesis
    using ok by (simp add: listener_ok_def drop_ended_def release_many [OF law])
qed

lemma listener_ok_size:
  assumes "listener_ok hy S cap limit t cs l"
  shows "length (listener_tasks l) = length (filter (still_open hy limit t) cs)"
  using assms unfolding listener_ok_def by (metis size_image_mset size_mset)

text \<open>A round turns a client away exactly when all slots are taken by tasks that have not ended.\<close>

lemma http_arrival_ok:
  assumes law: "semaphore_law S" and ok: "listener_ok hy S cap limit t cs l" and "t \<le> now"
    and step: "http_arrival hy S limit (now, accept) l = (opened, l')"
  shows "listener_ok hy S cap limit now (cs @ taken [(now, accept)] [opened]) l'"
    and "length (filter (still_open hy limit now) cs) \<le> cap"
    and "accept = Inr (client, app) \<Longrightarrow> opened \<longleftrightarrow> length (filter (still_open hy limit now) cs) < cap"
proof -
  let ?l = "drop_ended S now l"
  note ok' = drop_ended_ok [OF law ok \<open>t \<le> now\<close>]
  have size: "sem_available S (listener_permits ?l) + length (filter (still_open hy limit now) cs) = cap"
    using ok' listener_ok_size [OF ok'] by (simp add: listener_ok_def)
  then show "length (filter (still_open hy limit now) cs) \<le> cap" by simp
  show "accept = Inr (client, app) \<Longrightarrow> opened \<longleftrightarrow> length (filter (still_open hy limit now) cs) < cap"
    using step size sem_laws(2) [OF law, of "listener_permits ?l"] by (auto simp: Let_def split: option.splits)
  show "listener_ok hy S cap limit now (cs @ taken [(now, accept)] [opened]) l'"
  proof (cases accept)
    case (Inl error)
    with step ok' show ?thesis by simp
  next
    case (Inr c)
    obtain client app where c: "c = (client, app)" by (cases c)
    show ?thesis
    proof (cases "sem_try_acquire S (listener_permits ?l)")
      case None
      with step Inr c ok' show ?thesis by (simp add: Let_def)
    next
      case (Some permits)
      with step Inr c have "opened" "l' = \<lparr>listener_permits = permits,
          listener_tasks = task_end hy limit (now, client, app) # listener_tasks ?l\<rparr>"
        by (simp_all add: Let_def)
      with ok' sem_laws(3) [OF law Some] Inr c show ?thesis
        by (simp add: listener_ok_def still_open_start del: task_end.simps)
    qed
  qed
qed

lemma http_arrivals_snoc:
  "http_arrivals hy S limit (as @ [a]) l =
     (let (outs, l1) = http_arrivals hy S limit as l; (opened, l2) = http_arrival hy S limit a l1 in (outs @ [opened], l2))"
  by (induction as arbitrary: l) (simp_all add: case_prod_unfold Let_def)

lemma length_http_arrivals: "length (fst (http_arrivals hy S limit as l)) = length as"
  by (induction as arbitrary: l) (simp_all add: case_prod_unfold Let_def)

lemma taken_snoc: "length as = length outs \<Longrightarrow> taken (as @ [a]) (outs @ [opened]) = taken as outs @ taken [a] [opened]"
  by (induction as outs rule: taken.induct) auto

lemma http_arrivals_ok:
  assumes law: "semaphore_law S" and "sorted (map fst as)" and "http_arrivals hy S limit as (new_listener S cap) = (outs, l)"
  shows "\<exists>t. (\<forall>a\<in>set as. fst a \<le> t) \<and> (as \<noteq> [] \<longrightarrow> t = fst (last as)) \<and>
    listener_ok hy S cap limit t (taken as outs) l"
  using assms(2,3)
proof (induction as arbitrary: outs l rule: rev_induct)
  case Nil
  then show ?case by (auto simp: listener_ok_def new_listener_def sem_laws [OF law])
next
  case (snoc a as)
  obtain outs1 l1 where one: "http_arrivals hy S limit as (new_listener S cap) = (outs1, l1)" by (metis prod.exhaust)
  obtain opened where two: "http_arrival hy S limit a l1 = (opened, l)" "outs = outs1 @ [opened]"
    using snoc.prems(2) one by (auto simp: http_arrivals_snoc split: prod.splits)
  obtain now accept where a: "a = (now, accept)" by (cases a)
  from snoc.IH [OF _ one] snoc.prems(1) obtain t where t: "\<forall>a\<in>set as. fst a \<le> t" "as \<noteq> [] \<longrightarrow> t = fst (last as)"
    "listener_ok hy S cap limit t (taken as outs1) l1" by (auto simp: sorted_append)
  have len: "length as = length outs1" using length_http_arrivals [of hy S limit as "new_listener S cap"] one by simp
  have ok: "listener_ok hy S cap limit (if as = [] then now else t) (taken as outs1) l1"
    using t(3) by (cases as) (auto simp: listener_ok_def)
  have le: "(if as = [] then now else t) \<le> now"
    using snoc.prems(1) t(2) a by (auto simp: sorted_append)
  from http_arrival_ok(1) [OF law ok le two(1) [unfolded a]] have "listener_ok hy S cap limit now (taken (as @ [a]) outs) l"
    by (simp add: two(2) taken_snoc [OF len] a)
  moreover have "\<forall>b\<in>set (as @ [a]). fst b \<le> now" using snoc.prems(1) a by (auto simp: sorted_append)
  ultimately show ?case using a by auto
qed

lemma http_builder_limit:
  assumes "hyper_law hy" and "\<not> completes_head hy client"
  shows "\<exists>d. serve_connection hy (connection_builder hy limit) client app = Some d \<and> d \<le> limit"
proof -
  have "builder_timer (connection_builder hy limit) \<and> builder_header_read_timeout (connection_builder hy limit) = Some limit"
    by (simp add: connection_builder_def)
  with assms show ?thesis unfolding hyper_law_def by blast
qed

lemma length_filter_mono: "(\<And>x. P x \<Longrightarrow> Q x) \<Longrightarrow> length (filter P xs) \<le> length (filter Q xs)"
  by (induction xs) (auto intro: le_SucI)

text \<open>
  C13. Idle clients do not keep others out. Take any sequence of connections to the HTTP listener. At
  most 128 of those it took are open when the next one comes, and that one is turned away exactly
  when 128 are. It is served whenever fewer than 128 of those that were taken are recent, that is
  at most five seconds old, or of clients that sent the head of a request: however many clients
  connect and send nothing, or never finish, each has its slot for five seconds at most. This rests
  on what \<open>hyper\<close> documents of the option that the source sets.
\<close>

theorem http_idle_clients_lose_their_slots:
  assumes "semaphore_law S" and "hyper_law hy" and "sorted (map fst (as @ [(now, Inr (client, app))]))"
    and "run_http_api hy S (as @ [(now, Inr (client, app))]) = (outs @ [opened], l)"
  shows "length (filter (still_open hy HTTP_HEADER_READ_TIMEOUT now) (taken as outs)) \<le> 128 \<and>
    (opened \<longleftrightarrow> length (filter (still_open hy HTTP_HEADER_READ_TIMEOUT now) (taken as outs)) < 128) \<and>
    (length (filter (\<lambda>(start, client, app). now \<le> plus_duration start 5000000000 \<or> completes_head hy client)
       (taken as outs)) < 128 \<longrightarrow> opened)"
proof -
  let ?open = "still_open hy HTTP_HEADER_READ_TIMEOUT now"
    and ?busy = "\<lambda>(start, client, app). now \<le> plus_duration start 5000000000 \<or> completes_head hy client"
  obtain l1 where one: "http_arrivals hy S HTTP_HEADER_READ_TIMEOUT as (new_listener S 128) = (outs, l1)"
      "http_arrival hy S HTTP_HEADER_READ_TIMEOUT (now, Inr (client, app)) l1 = (opened, l)"
    using assms(4)
    by (auto simp: run_http_api_def run_http_api_with_limits_def MAX_HTTP_CONNECTIONS_def http_arrivals_snoc
        simp del: http_arrival.simps split: prod.splits)
  have "sorted (map fst as)" "\<forall>a\<in>set as. fst a \<le> now" using assms(3) by (auto simp: sorted_append)
  with http_arrivals_ok [OF assms(1) _ one(1)] obtain t where
    t: "as \<noteq> [] \<longrightarrow> t = fst (last as)" "listener_ok hy S 128 HTTP_HEADER_READ_TIMEOUT t (taken as outs) l1" by blast
  have "listener_ok hy S 128 HTTP_HEADER_READ_TIMEOUT (if as = [] then now else t) (taken as outs) l1"
    using t(2) by (cases as) (auto simp: listener_ok_def)
  moreover have "(if as = [] then now else t) \<le> now" using t(1) \<open>\<forall>a\<in>set as. fst a \<le> now\<close> by auto
  ultimately have count: "length (filter ?open (taken as outs)) \<le> 128"
      "opened \<longleftrightarrow> length (filter ?open (taken as outs)) < 128"
    using http_arrival_ok(2,3) [OF assms(1) _ _ one(2)] by blast+
  have "?busy c" if "?open c" for c
  proof -
    obtain start client app where c: "c = (start, client, app)" by (cases c) auto
    have "ended now (task_end hy HTTP_HEADER_READ_TIMEOUT c)"
      if idle: "\<not> completes_head hy client" "\<not> now \<le> plus_duration start 5000000000"
    proof -
      obtain d where d: "serve_connection hy (connection_builder hy HTTP_HEADER_READ_TIMEOUT) client app = Some d"
          "d \<le> HTTP_HEADER_READ_TIMEOUT"
        using http_builder_limit [OF assms(2) idle(1)] by blast
      have "plus_duration start d \<le> plus_duration start 5000000000"
        using d(2) by (cases start) (simp add: HTTP_HEADER_READ_TIMEOUT_def duration_from_secs_def)
      with idle(2) show ?thesis by (simp add: c d(1))
    qed
    with that show ?thesis by (auto simp: still_open_def c)
  qed
  then have "length (filter ?open (taken as outs)) \<le> length (filter ?busy (taken as outs))"
    by (rule length_filter_mono)
  with count show ?thesis by auto
qed

text \<open>
  A \<open>hyper\<close> for which the law holds: a client that sends nothing is closed at the timeout, another
  after the time it asks for. 128 idle clients have lost their slots after five seconds.
\<close>

definition sample_hyper :: "(duration option, unit) hyper" where
  "sample_hyper =
     \<lparr>builder_new = \<lparr>builder_timer = False, builder_header_read_timeout = None, builder_max_headers = 100\<rparr>,
      serve_connection = (\<lambda>b client app. case client of
         None \<Rightarrow> if builder_timer b then builder_header_read_timeout b else None | Some d \<Rightarrow> Some d),
      first_status = (\<lambda>b client app. map_option (\<lambda>d. 200) client),
      completes_head = (\<lambda>client. client \<noteq> None)\<rparr>"

lemma hyper_law_sample: "hyper_law sample_hyper"
  by (simp add: hyper_law_def sample_hyper_def)

definition idle_clients :: "(duration option, unit) incoming list" where
  "idle_clients = replicate 128 (Instant 0, Inr (None, ()))"

lemma taken_idle: "c \<in> set (taken (replicate n (t, Inr (client, app))) outs) \<Longrightarrow> c = (t, client, app)"
proof (induction n arbitrary: outs)
  case (Suc n)
  then show ?case by (cases outs; cases "hd outs") auto
qed simp

theorem http_idle_clients_lose_their_slots_witness:
  "\<exists>outs l. run_http_api sample_hyper counting_semaphore (idle_clients @ [(Instant 5000000001, Inr (None, ()))]) = (outs @ [True], l)"
proof -
  let ?as = "idle_clients @ [(Instant 5000000001, Inr (None, ()))]"
  obtain outs' l where run: "run_http_api sample_hyper counting_semaphore ?as = (outs', l)" by (metis prod.exhaust)
  moreover have "length outs' = 129"
    using length_http_arrivals [of sample_hyper counting_semaphore HTTP_HEADER_READ_TIMEOUT ?as
        "new_listener counting_semaphore MAX_HTTP_CONNECTIONS"] run
    by (simp add: run_http_api_def run_http_api_with_limits_def) (simp add: idle_clients_def)
  then obtain outs opened where o: "outs' = outs @ [opened]" by (cases outs' rule: rev_cases) auto
  moreover have "sorted (map fst ?as)" by (simp add: idle_clients_def sorted_append)
  ultimately have "length (filter (\<lambda>(start, client, app). Instant 5000000001 \<le> plus_duration start 5000000000 \<or>
      completes_head sample_hyper client) (taken idle_clients outs)) < 128 \<longrightarrow> opened"
    using http_idle_clients_lose_their_slots [OF semaphore_law_counting hyper_law_sample, of idle_clients] by blast
  moreover have "filter (\<lambda>(start, client, app). Instant 5000000001 \<le> plus_duration start 5000000000 \<or>
      completes_head sample_hyper client) (taken idle_clients outs) = []"
    by (auto simp: filter_empty_conv idle_clients_def sample_hyper_def dest!: taken_idle)
  ultimately have opened by simp
  with run o show ?thesis by auto
qed

end
