(* ===== verification/Main_Tests.thy ===== *)
theory Main_Tests
  imports Http_Connections Unit_Tests
begin

text \<open>
  The unit test of \<open>src/main.rs\<close>: a listener with one slot and a header timeout of 50 milliseconds. A
  test is a value of type \<open>unit option\<close>, \<open>None\<close> being a failed assertion. What the test reads from its
  sockets is given here by the listener and by \<open>hyper\<close>: nothing, from a connection that is turned
  away or when it is closed, and a status. \<open>held\<close>, \<open>rejected\<close> and \<open>recovered\<close> are its clients, \<open>app\<close>
  its router, and \<open>t i\<close> the time at which client \<open>i\<close> connects.
\<close>

definition duration_from_millis :: "nat \<Rightarrow> duration" where
  "duration_from_millis n = n * 1000000"

definition header_timeout_and_connection_limit_release_capacity ::
    "('client, 'svc) hyper \<Rightarrow> 'sem semaphore \<Rightarrow> 'client \<Rightarrow> 'client \<Rightarrow> 'client \<Rightarrow> 'svc \<Rightarrow> (nat \<Rightarrow> instant) \<Rightarrow> unit option" where
  "header_timeout_and_connection_limit_release_capacity hy S held rejected recovered app t = do {
     let header_read_timeout = duration_from_millis 50;
     let server = new_listener S 1;
     let (held_served, server) = http_arrival hy S header_read_timeout (t 0, Inr (held, app)) server;
     let (rejected_served, server) = http_arrival hy S header_read_timeout (t 1, Inr (rejected, app)) server;
     assert_that (\<not> rejected_served);
     held_closed \<leftarrow> (if held_served then task_end hy header_read_timeout (t 0, held, app) else Some (t 0));
     assert_that (held_closed \<le> plus_duration (t 1) (duration_from_millis 200));
     let (recovered_served, server) = http_arrival hy S header_read_timeout (t 2, Inr (recovered, app)) server;
     assert_that recovered_served;
     status \<leftarrow> first_status hy (connection_builder hy header_read_timeout) recovered app;
     assert_that (status = 200)
   }"

text \<open>
  The test passes when \<open>hyper\<close> does what it documents. What the test takes for granted: the client that
  sends half a head is not closed before the second connects, 10 milliseconds later; the third
  connects after the first has been closed; a whole request for the router's path is answered 200.
\<close>

lemma main_test_passes:
  assumes law: "semaphore_law S" "hyper_law hy" and time: "t 0 \<le> t 1"
    and held: "\<not> completes_head hy held"
    and closed: "task_end hy (duration_from_millis 50) (t 0, held, app) = Some e" "t 1 \<le> e" "e < t 2"
    and served: "first_status hy (connection_builder hy (duration_from_millis 50)) recovered app = Some 200"
  shows "header_timeout_and_connection_limit_release_capacity hy S held rejected recovered app t = Some ()"
proof -
  let ?hrt = "duration_from_millis 50"
  have ok0: "listener_ok hy S 1 ?hrt (t 0) [] (new_listener S 1)"
    by (simp add: listener_ok_def new_listener_def sem_laws [OF law(1)])
  obtain o1 l1 where one: "http_arrival hy S ?hrt (t 0, Inr (held, app)) (new_listener S 1) = (o1, l1)" by (metis prod.exhaust)
  from http_arrival_ok [OF law(1) ok0 order_refl one] have o1: "o1"
    and ok1: "listener_ok hy S 1 ?hrt (t 0) ([] @ taken [(t 0, Inr (held, app))] [o1]) l1" by auto
  obtain o2 l2 where two: "http_arrival hy S ?hrt (t 1, Inr (rejected, app)) l1 = (o2, l2)" by (metis prod.exhaust)
  have "still_open hy ?hrt (t 1) (t 0, held, app)" using closed(1,2) by (simp add: still_open_def not_less del: task_end.simps)
  with http_arrival_ok [OF law(1) ok1 time two] o1 have o2: "\<not> o2"
    and ok2: "listener_ok hy S 1 ?hrt (t 1) [(t 0, held, app)] l2" by auto
  obtain o3 l3 where three: "http_arrival hy S ?hrt (t 2, Inr (recovered, app)) l2 = (o3, l3)" by (metis prod.exhaust)
  have "t 1 \<le> t 2" using closed(2,3) by simp
  moreover have "\<not> still_open hy ?hrt (t 2) (t 0, held, app)" using closed(1,3) by (simp add: still_open_def del: task_end.simps)
  ultimately have o3: "o3" using http_arrival_ok(3) [OF law(1) ok2 _ three] by simp
  obtain d where d: "serve_connection hy (connection_builder hy ?hrt) held app = Some d" "d \<le> ?hrt"
    using http_builder_limit [OF law(2) held] by blast
  then have "e = plus_duration (t 0) d" using closed(1) by simp
  then have "e \<le> plus_duration (t 1) (duration_from_millis 200)"
    using time d(2) by (cases "t 0"; cases "t 1") (simp add: duration_from_millis_def)
  with one two three o1 o2 o3 closed(1) served show ?thesis
    by (simp add: header_timeout_and_connection_limit_release_capacity_def Let_def assert_that_def
        del: http_arrival.simps task_end.simps)
qed

end
