(* ===== verification/Spec2Isabelle.thy ===== *)
theory Spec2Isabelle
  imports Service Load Api_Tests Dns_Tests_Sample Connections Main_Tests
begin

text \<open>
  Safexip: an authoritative DNS server for one delegated zone. Names that carry an IPv4 address
  (\<open>1-2-3-4.xip.example.com\<close>) resolve to it; ACME clients present and withdraw DNS-01 challenge
  values over an HTTP API with Basic authentication, and the server answers TXT queries for the
  challenge name with the values that are live.

  \<^bold>\<open>Parts and how they interact.\<close> \<open>main\<close> parses and validates the configuration, builds the
  challenge store and hands the same store to the DNS handler and to the HTTP router; three
  listeners (UDP DNS, TCP DNS, HTTP) then run in one \<open>select!\<close> until a signal arrives. Both sides
  see the store only through its operations, each of which holds the write lock from its first to
  its last access: what concurrent tasks do to it is a sequence of operations. HTTP requests
  overlap: each goes through the rate limiter, takes a permit, waits for its body and for the
  store's lock, and gives the permit back when it is answered, times out or is dropped.

  \<^bold>\<open>Theories.\<close>
  \<^item> \<open>Prelude\<close>: machine types, panics as \<open>None\<close>, clock readings, generic lemmas.
  \<^item> \<open>Rust_Std\<close>: the functions of the Rust standard library that the program calls on strings
    and integers (case folding, trimming, splitting, parsing, UTF-8).
  \<^item> \<open>F64\<close>: rounding to double precision, for the rate limiter.
  \<^item> \<open>Xip\<close>: \<open>src/xip.rs\<close>, the zone test and the address in a name.
  \<^item> \<open>Hickory\<close>: the DNS messages of the crate \<open>hickory_proto\<close>, and its functions as a parameter.
  \<^item> \<open>Config\<close>, \<open>Validate\<close>: \<open>src/config.rs\<close>, the command line and \<open>Config::validate\<close>.
  \<^item> \<open>Wire\<close>: \<open>src/wire.rs\<close>, the capacity of a complete TXT answer and the search for it.
  \<^item> \<open>Store\<close>: \<open>src/state.rs\<close>. \<open>Store_Spec\<close>: the store as a map from name and value to a deadline,
    the refinement, and the interface \<open>challenge_store\<close>. \<open>Store_Run\<close>: histories of the store.
  \<^item> \<open>Dns\<close>: \<open>src/dns.rs\<close>. \<open>Dns_Spec\<close>: codes and headers. \<open>Dns_Answers\<close>: records and bytes.
    \<open>Delivery\<close>: when the measurement in \<open>src/wire.rs\<close> is right for the answers that are sent.
  \<^item> \<open>Gate\<close>, \<open>Api\<close>, \<open>Api_Spec\<close>: \<open>src/api.rs\<close>, the request gate (token bucket and permits), the
    layers and handlers, and what they promise. \<open>Rate\<close>: what the bucket admits over time.
  \<^item> \<open>Server\<close>: the listeners of \<open>src/main.rs\<close>, with the handler behind the interface
    \<open>dns_service\<close>. \<open>System\<close>: start-up and the shared state. \<open>System_Spec\<close>: start-up does not
    panic; the properties of the program when every request is served in one go.
  \<^item> \<open>Tasks\<close>: one HTTP request as the steps between which others may run (\<open>authorize_and_admit\<close>
    and what it wraps). \<open>Concurrent\<close>: the server with any number of requests in flight.
    \<open>Concurrent_Spec\<close>: what every interleaving keeps. \<open>Atomic\<close>: the steps and the layers written
    as functions are the same program. \<open>Load\<close>: the rate limit over histories.
  \<^item> \<open>Process\<close>, \<open>Process_Spec\<close>: \<open>main\<close>, its \<open>select!\<close>, the three listener loops and
    \<open>shutdown_signal\<close>, with the connections that are open. \<open>Http_Connections\<close>: the HTTP listener over
    time, with the options it passes to \<open>hyper\<close>. \<open>Connections\<close>: the connections of the DNS listener
    over time, behind the interface \<open>timed_slots\<close>, with their timeouts.
  \<^item> \<open>Service\<close> and this theory: what a client of the service can rely on.
  \<^item> \<open>Dns_Examples\<close>, \<open>Api_Examples\<close>, \<open>Server_Examples\<close>, \<open>Delivery_Examples\<close>, \<open>Sample_Run\<close> and the
    end of this theory: the properties at concrete inputs, with their hypotheses discharged.
  \<^item> \<open>Unit_Tests\<close>, \<open>Store_Tests\<close>, \<open>Api_Tests\<close>, \<open>Main_Tests\<close>: the unit tests of \<open>src/xip.rs\<close>,
    \<open>src/config.rs\<close>, \<open>src/wire.rs\<close>, \<open>src/state.rs\<close>, \<open>src/api.rs\<close> and \<open>src/main.rs\<close>, translated and
    shown to pass on the model, the concurrent ones in every order.
  \<^item> \<open>Codec\<close>: what a DNS library that keeps the message format (RFC 1035) gives. \<open>Dns_Tests\<close>: the
    unit tests of \<open>src/dns.rs\<close>. \<open>Dns_Client\<close>, \<open>Dns_Tests_Pass\<close>, \<open>Dns_Apex_Tests\<close>, \<open>Dns_Refusal_Tests\<close>:
    they pass with every such library, from the bytes of the query to what the client reads.
    \<open>Sample_Codec\<close>, \<open>Dns_Tests_Sample\<close>: an executable encoding with these laws, and the tests with it.

  \<^bold>\<open>State and operations.\<close> A Rust struct is a record with the source's fields, an enum a
  datatype. An operation takes the state and returns it; a clock reading it makes is an argument.
  A function that may panic (\<open>unwrap\<close>, \<open>expect\<close>) returns an option, a \<open>Result\<close> is a sum with the
  error on the left. The hash map of the store is an association list with distinct keys; the
  order in which it is iterated is the parameter \<open>ho\<close>. Strings are UTF-8 byte strings. TTLs and
  serials are machine words, \<open>usize\<close> values are naturals with the bound written out where it
  matters, and the token bucket's \<open>f64\<close> values are rationals with every operation rounded.

  \<^bold>\<open>Histories.\<close> There are four, each an inductive relation. \<open>store_run\<close> is a sequence of store
  operations. \<open>srv_run\<close> is the server: requests arrive, take one step each (\<open>task_step\<close>), time
  out and are dropped, in any order, with DNS messages between them; it records what each event
  answered and the store operations in the order of the lock. \<open>proc_run\<close> is the process: besides,
  connections are opened, refused and closed, \<open>accept\<close> and \<open>recv_from\<close> fail, signals arrive.
  \<open>srv_run_store\<close> and \<open>process_refines_server\<close> say that each is a history of the one before.
  \<open>slot_run\<close> is the DNS listener and the time at which each open connection has to end, with timers
  that fire on time; \<open>tcp_slots_in_process\<close> says that it is one of the process. \<open>own_operation\<close> picks
  from a history of the server the event in which one request took the store's lock.
  \<open>sys_run\<close> is the special case of \<open>srv_run\<close> in which requests do not overlap.

  \<^bold>\<open>Third-party code\<close> is a parameter: \<open>hickory\<close> (DNS messages and names), \<open>clap\<close>, \<open>http_lib\<close>
  (\<open>base64\<close>, \<open>subtle\<close>, the extractor and layers of \<open>axum\<close> and \<open>tower_http\<close>), \<open>hyper\<close>, \<open>semaphore\<close> (\<open>tokio\<close>).
  Theorems name what they need of it: \<open>response_law\<close>, \<open>clap_law\<close>, \<open>ct_eq_law\<close>, \<open>timeout_law\<close>,
  \<open>semaphore_law\<close>; \<open>drop_complete\<close>, that an answer which fits still fits with a record less;
  \<open>codec_laws\<close>, that header fields and serials have a fixed width on the wire and TXT records read
  back as written; \<open>tc_law\<close>, that a message which lost answers says so; \<open>label_law\<close>, that a label
  can be put before a name as it is printed; \<open>hyper_law\<close>, that a client which sends no request head
  is closed in time; \<open>fair_order\<close>, that the hash map yields each of its entries once.

  \<^bold>\<open>What is shown.\<close> The end-to-end properties are in this theory, for every history of a started
  server with overlapping requests: a value whose presentation was answered 200 is served until its
  deadline or withdrawal; the answer reaches the client complete and is never a server failure;
  only authenticated requests write; no event panics, no permit is lost, and every request can
  finish. The process runs until a signal arrives and keeps its limits. Below them: the store
  refines its specification on every branch, its serial changes exactly with the records; every
  response code, section and authority record of the DNS handler; the framing and bounds of what is
  sent; authentication, validation, status codes and limits of the API.

  \<^bold>\<open>Termination.\<close> There is no fuel. The doubling loop of \<open>maximum_token_count\<close> is a partial
  function proved to return; the bisection, the TCP session and the reading of frames are total
  with a measure. The listener loops, which run forever, are given by one round each, which the
  history of the process repeats.

  \<^bold>\<open>Two limits of the statements.\<close> The measured answer has the challenge name as it is configured.
  For a query in another letter case the length of the answer depends on how the DNS library
  compresses names that differ in case, and near the capacity it may get a server failure where
  the configured spelling gets the answer; \<open>challenge_always_delivered\<close> says so. A failure to
  register the handler for Ctrl-C ends \<open>shutdown_signal\<close> as a signal does, and the process exits
  with success.

  \<^bold>\<open>Not modelled.\<close> Logging, sockets, HTTP/1 parsing (\<open>hyper\<close> is a parameter), the
  fallback of \<open>shutdown_signal\<close> on systems other than unix, and routing of paths the router does not
  know. The timeout of a request (\<open>TimeoutLayer\<close>) is an outcome that may come at any time. Case
  folding of non-ASCII text is not modelled: the DNS library yields ASCII names. The unit test of
  \<open>src/main.rs\<close> runs on the listener's model and a \<open>hyper\<close> that does what it documents, in place of
  its sockets.
\<close>

subsection \<open>What a response with status 200 means\<close>

text \<open>
  C1. The purpose of the program, end to end: when a presentation is answered 200 at any point of any
  history, that very request has recorded the value at one moment before the answer (its own
  operation, the event in which it took the store's lock), and from the answer on every TXT query
  for the challenge name, until the token lifetime has passed since that moment, gets an answer with
  the value, whatever else happens, short of another operation on the same value after it. A
  presentation of a value that is already there counts anew.
\<close>

theorem presented_value_is_answered:
  assumes laws: "clap_law C" "semaphore_law (sem_lib L)" "timeout_law L" "response_law H"
    and start: "startup H C (sem_lib L) args timestamp now = Some (Inr s0)"
    and before: "srv_run H ho L now (serving s0) tr ops t s1"
    and reply: "enabled (Move i mv) s1" "map_of (srv_tasks s1) i = Some k" "task_endpoint k = ToPresent"
      "srv_step H ho L (Move i mv) s1 = Some (Some (HttpReply r), s2)" "status_code r = 200"
      "json_present L 1024 (task_request k) = Inr b"
    and after: "srv_run H ho L t s2 tr' ops' t' s3"
  shows "\<exists>began later ops2.
    own_operation H ho L now (serving s0) tr ops t s1 i k began later
      (Add began later (acme_name (sys_config s0)) (present_value b)) ops2 \<and>
    (\<forall>u request q m h'.
       (\<forall>p\<in>set (ops2 @ ops'). \<not> touches (acme_name (sys_config s0)) (present_value b) p) \<and>
       t' \<le> u \<and> u < plus_duration later (token_lifetime (sys_config s0)) \<and>
       accepted H (sys_config s0) request q \<and> q_type q = TXT \<and>
       qname_text H (q_name q) = acme_name (sys_config s0) \<and>
       build_response H u request (dns_view (srv_system s3)) = Some (m, h') \<longrightarrow>
       (\<exists>name. txt_record name (txt_ttl (sys_config s0)) (present_value b) \<in> set (answers m)))"
proof -
  let ?c = "sys_config s0" and ?n = "acme_name (sys_config s0)" and ?v = "present_value b"
  obtain began later ops2 where own: "own_operation H ho L now (serving s0) tr ops t s1 i k began later
        (request_op (task_endpoint k) began later ?n ?v) ops2"
      "\<And>w. task_endpoint k = ToPresent \<Longrightarrow> \<forall>p\<in>set (ops2 @ ops'). \<not> touches ?n ?v p \<Longrightarrow> t' \<le> w \<Longrightarrow>
         w < plus_duration later (token_lifetime ?c) \<Longrightarrow> expire w (store_view (sys_acme (srv_system s3))) ?n ?v \<noteq> None"
      "srv_ok H s3" "sys_config (srv_system s3) = ?c"
    by (rule started_effect [OF laws(1-3) start before reply(1,2,4-6) after refl refl]) blast
  have "\<exists>name. txt_record name (txt_ttl ?c) ?v \<in> set (answers m)"
    if u: "\<forall>p\<in>set (ops2 @ ops'). \<not> touches ?n ?v p" "t' \<le> u" "u < plus_duration later (token_lifetime ?c)"
      and q: "accepted H ?c request q" "q_type q = TXT" "qname_text H (q_name q) = ?n"
        "build_response H u request (dns_view (srv_system s3)) = Some (m, h')"
    for u request q m h'
  proof -
    obtain name vs where a: "answers m = map (txt_record name (txt_ttl ?c)) vs"
        "set vs = {v. expire u (store_view (sys_acme (srv_system s3))) ?n v \<noteq> None}"
      by (rule txt_answer_at [OF own(3,4) laws(4) q])
    from own(2) [OF reply(3) u] have "?v \<in> set vs" unfolding a(2) by simp
    then show ?thesis by (auto simp: a(1))
  qed
  with own(1) reply(3) show ?thesis by (intro exI [of _ began] exI [of _ later] exI [of _ ops2]) auto
qed

text \<open>
  C2. The other half of the protocol: when a withdrawal is answered 200, that very request removed the
  value at one moment before the answer, and no TXT answer has it any more until it is operated on
  again.
\<close>

theorem withdrawn_value_is_gone:
  assumes laws: "clap_law C" "semaphore_law (sem_lib L)" "timeout_law L" "response_law H"
    and start: "startup H C (sem_lib L) args timestamp now = Some (Inr s0)"
    and before: "srv_run H ho L now (serving s0) tr ops t s1"
    and reply: "enabled (Move i mv) s1" "map_of (srv_tasks s1) i = Some k" "task_endpoint k = ToCleanup"
      "srv_step H ho L (Move i mv) s1 = Some (Some (HttpReply r), s2)" "status_code r = 200"
      "json_present L 1024 (task_request k) = Inr b"
    and after: "srv_run H ho L t s2 tr' ops' t' s3"
  shows "\<exists>began later ops2.
    own_operation H ho L now (serving s0) tr ops t s1 i k began later
      (Remove began (acme_name (sys_config s0)) (present_value b)) ops2 \<and>
    (\<forall>u request q m h'.
       (\<forall>p\<in>set (ops2 @ ops'). \<not> touches (acme_name (sys_config s0)) (present_value b) p) \<and> t' \<le> u \<and>
       accepted H (sys_config s0) request q \<and> q_type q = TXT \<and>
       qname_text H (q_name q) = acme_name (sys_config s0) \<and>
       build_response H u request (dns_view (srv_system s3)) = Some (m, h') \<longrightarrow>
       (\<forall>record\<in>set (answers m). rr_data record \<noteq> RTXT [present_value b]))"
proof -
  let ?c = "sys_config s0" and ?n = "acme_name (sys_config s0)" and ?v = "present_value b"
  obtain began later ops2 where own: "own_operation H ho L now (serving s0) tr ops t s1 i k began later
        (request_op (task_endpoint k) began later ?n ?v) ops2"
      "\<And>w. task_endpoint k = ToCleanup \<Longrightarrow> \<forall>p\<in>set (ops2 @ ops'). \<not> touches ?n ?v p \<Longrightarrow> t' \<le> w \<Longrightarrow>
         expire w (store_view (sys_acme (srv_system s3))) ?n ?v = None"
      "srv_ok H s3" "sys_config (srv_system s3) = ?c"
    by (rule started_effect [OF laws(1-3) start before reply(1,2,4-6) after refl refl]) blast
  have "\<forall>record\<in>set (answers m). rr_data record \<noteq> RTXT [?v]"
    if u: "\<forall>p\<in>set (ops2 @ ops'). \<not> touches ?n ?v p" "t' \<le> u"
      and q: "accepted H ?c request q" "q_type q = TXT" "qname_text H (q_name q) = ?n"
        "build_response H u request (dns_view (srv_system s3)) = Some (m, h')"
    for u request q m h'
  proof -
    obtain name vs where a: "answers m = map (txt_record name (txt_ttl ?c)) vs"
        "set vs = {v. expire u (store_view (sys_acme (srv_system s3))) ?n v \<noteq> None}"
      by (rule txt_answer_at [OF own(3,4) laws(4) q])
    from own(2) [OF reply(3) u] have "?v \<notin> set vs" unfolding a(2) by simp
    then show ?thesis by (auto simp: a(1) txt_record_def)
  qed
  with own(1) reply(3) show ?thesis by (intro exI [of _ began] exI [of _ later] exI [of _ ops2]) auto
qed

subsection \<open>The answer on the wire\<close>

text \<open>
  C3. A client that asks over TCP for the challenge name, in any letter case, reads all the values that
  are live at that moment, each once and nothing else, in a complete message, at any point of any
  history; or it reads a server failure, and that only when it does not write the name as the
  configuration does. In the configured spelling the answer never becomes too large: this is what
  the limit at which presentations are refused is for.
\<close>

theorem challenge_always_delivered:
  assumes laws: "clap_law C" "semaphore_law (sem_lib L)" "fair_order ho" "codec_laws H" "tc_law H"
    and start: "startup H C (sem_lib L) args timestamp now = Some (Inr s0)"
    and complete: "drop_complete H (wire_capacity (sys_acme s0))"
    and run: "srv_run H ho L now (serving s0) tr ops t s" and "t \<le> u"
    and query: "from_vec H raw = Some request" "challenge_lookup H (sys_config s0) request q"
  shows "\<exists>reply s' vs. srv_step H ho L (TcpMessage u raw) s = Some (Some (DnsReply reply), s') \<and>
    distinct vs \<and>
    set vs = {v. expire u (store_view (sys_acme (srv_system s))) (acme_name (sys_config s0)) v \<noteq> None} \<and>
    ((\<exists>d. from_vec H reply = Some d \<and> \<not> truncation d \<and> map rr_data (answers d) = map (\<lambda>v. RTXT [v]) vs) \<or>
     (reply = servfail H request \<and> \<not> same_spelling H (sys_config s0) q))"
proof -
  let ?n = "acme_name (sys_config s0)" and ?h = "dns_view (srv_system s)"
  let ?vs = "store_values (refresh_zone u (acme ?h)) (acme_name (config ?h))"
  have ok0: "srv_ok H (serving s0)" using startup_sound(1) [OF laws(1,2) start] .
  have ok: "srv_ok H s" and c: "sys_config (srv_system s) = sys_config s0"
    using srv_run_ok [OF laws(2) run ok0] by simp_all
  have q: "challenge_lookup H (config ?h) request q" using query(2) c by simp
  have "\<exists>reply h'. handle H u raw ?h = Some (reply, h') \<and>
      ((\<exists>d. from_vec H reply = Some d \<and> \<not> truncation d \<and> map rr_data (answers d) = map (\<lambda>v. RTXT [v]) ?vs) \<or>
       (reply = servfail H request \<and> \<not> same_spelling H (sys_config s0) q))"
  proof (cases "same_spelling H (sys_config s0) q")
    case True
    with q c have q': "challenge_query H (config ?h) request q" by (simp add: challenge_query_def)
    obtain cap where cap: "from_config H (config ?h) = Some cap" "wire_capacity (sys_acme s0) = cap"
      using startup_ok(2) [OF laws(1) start] c by auto
    have fits: "fits H cap ?vs = Some True"
      using history_fits [OF laws(1-3) start complete run \<open>t \<le> u\<close>] c cap(2) by simp
    show ?thesis
      by (rule challenge_delivered [OF history_ok_views(1) [OF ok] laws(4) cap(1) query(1) q' fits]) blast
  next
    case False
    show ?thesis
      by (rule lookup_delivered [OF history_ok_views(1) [OF ok] laws(4,5) query(1) q, of u])
        (use False in blast)
  qed
  then obtain reply h' where r: "handle H u raw ?h = Some (reply, h')"
      "(\<exists>d. from_vec H reply = Some d \<and> \<not> truncation d \<and> map rr_data (answers d) = map (\<lambda>v. RTXT [v]) ?vs) \<or>
       (reply = servfail H request \<and> \<not> same_spelling H (sys_config s0) q)" by blast
  from r(1) obtain s' where "srv_step H ho L (TcpMessage u raw) s = Some (Some (DnsReply reply), s')" by simp
  with r(2) refreshed_values [OF history_ok_views(2) [OF ok], of u ?n] c show ?thesis
    by (intro exI [of _ reply] exI [of _ s'] exI [of _ ?vs]) simp
qed

text \<open>
  C14. A serial stands for one set of records: when two answers to TXT queries for the challenge name
  carry the same serial, with anything in between that is fewer than \<open>2^32 - 1\<close> store operations,
  they carry the same values. A client or secondary that sees the serial unchanged has the zone.
\<close>

theorem same_serial_same_answer:
  assumes laws: "clap_law C" "semaphore_law (sem_lib L)" "response_law H"
    and start: "startup H C (sem_lib L) args timestamp now = Some (Inr s0)"
    and before: "srv_run H ho L now (serving s0) tr ops t s1" and "t \<le> u1"
    and first: "ev = TcpMessage u1 raw \<or> ev = Datagram u1 raw" "from_vec H raw = Some request1"
      "message_type request1 = QueryMessage" "accepted H (sys_config s0) request1 q1" "q_type q1 = TXT"
      "qname_text H (q_name q1) = acme_name (sys_config s0)"
      "build_response H u1 request1 (dns_view (srv_system s1)) = Some (m1, h1)"
      "srv_step H ho L ev s1 = Some (out, s2)"
    and between: "srv_run H ho L u1 s2 tr' ops' t' s3" "t' \<le> u2" "length ops' + 1 < 2 ^ 32"
    and second: "accepted H (sys_config s0) request2 q2" "q_type q2 = TXT"
      "qname_text H (q_name q2) = acme_name (sys_config s0)"
      "build_response H u2 request2 (dns_view (srv_system s3)) = Some (m2, h2)"
    and same: "map (soa_serial \<circ> rr_data) (authorities m2) = map (soa_serial \<circ> rr_data) (authorities m1)"
  shows "rr_data ` set (answers m2) = rr_data ` set (answers m1)"
proof -
  have ok1: "srv_ok H s1" "sys_config (srv_system s1) = sys_config s0"
    using srv_run_ok [OF laws(2) before startup_sound(1) [OF laws(1,2) start]] by simp_all
  have "enabled ev s1" using first(1) by auto
  then have ok2: "srv_ok H s2" "sys_config (srv_system s2) = sys_config s0"
    using srv_step_total [OF laws(2) ok1(1), of ev ho] first(8) ok1(2) by auto
  have ok3: "srv_ok H s3" "sys_config (srv_system s3) = sys_config s0"
    using srv_run_ok [OF laws(2) between(1) ok2(1)] ok2(2) by simp_all
  note one = answer_version [OF ok1 laws(3) first(4-7)] and two = answer_version [OF ok3 laws(3) second]
  have acme2: "sys_acme (srv_system s2) = acme h1" by (rule query_step_acme [OF first(1-3,8,7)])
  obtain w where w: "w \<le> t'" "store_run H ho u1 (acme h1) ops' w (sys_acme (srv_system s3))"
    using srv_run_store [OF laws(2) between(1) ok2(1)] acme2 by auto
  have run: "store_run H ho u1 (acme h1) (ops' @ [ReadSerial u2]) u2 (acme h2)"
    using store_run_last [OF w(2), of "ReadSerial u2"] w(1) between(2) two(1) by simp
  have wf: "store_wf (acme h1)" using history_ok_views(2) [OF ok2(1)] acme2 by simp
  have "rr_keys (store_view (acme h2)) = rr_keys (store_view (acme h1))"
    by (rule equal_serial [OF run wf]) (use between(3) same one(3) two(3) in simp_all)
  then show ?thesis by (simp add: one(2) two(2))
qed

subsection \<open>Every history\<close>

text \<open>
  C4. The server goes on: after any history in which requests overlap, every request and message that
  can come is taken without a panic, the configuration is still the one it was started with, and
  the permits are accounted for: those that are free and those of the requests in flight are 64.
\<close>

theorem server_answers_always:
  assumes "clap_law C" and "semaphore_law (sem_lib L)"
    and "startup H C (sem_lib L) args timestamp now = Some (Inr s0)"
    and "srv_run H ho L now (serving s0) tr ops t s" and "enabled ev s"
  shows "\<exists>out s'. srv_step H ho L ev s = Some (out, s') \<and> sys_config (srv_system s') = sys_config s0 \<and>
    free_permits L s' + in_flight s' = 64"
proof -
  note start = startup_sound [OF assms(1-3)]
  have "free_permits L (serving s0) + in_flight (serving s0) = 64"
    using start(2) by (simp add: free_permits_def in_flight_def)
  with srv_run_ok [OF assms(2,4) start(1)] have s: "srv_ok H s" "sys_config (srv_system s) = sys_config s0"
      "free_permits L s + in_flight s = 64" by simp_all
  from srv_step_total [OF assms(2) s(1) assms(5), of ho] s(2,3) show ?thesis by auto
qed

text \<open>
  C15. The limits hold at any point of any history: there are at most as many records as the configured
  limit, all under the challenge name, and the complete TXT answer with all of them fits one DNS
  message.
\<close>

theorem records_stay_in_limits:
  assumes laws: "clap_law C" "semaphore_law (sem_lib L)" "fair_order ho"
    and start: "startup H C (sem_lib L) args timestamp now = Some (Inr s0)"
    and run: "srv_run H ho L now (serving s0) tr ops t s"
    and complete: "drop_complete H (wire_capacity (sys_acme s0))"
  shows "card (rr_keys (store_view (sys_acme (srv_system s)))) \<le> max_tokens (sys_config s0) \<and>
    fst ` rr_keys (store_view (sys_acme (srv_system s))) \<subseteq> {acme_name (sys_config s0)} \<and>
    fits H (wire_capacity (sys_acme s0)) (store_values (sys_acme (srv_system s)) (acme_name (sys_config s0))) = Some True"
proof -
  have ok0: "srv_ok H (serving s0)" using startup_sound(1) [OF laws(1,2) start] .
  obtain w where "store_run H ho now (sys_acme s0) ops w (sys_acme (srv_system s))"
      "\<forall>p\<in>set ops. adds_only (acme_name (sys_config s0)) p"
    using srv_run_store [OF laws(2) run ok0] by auto
  then show ?thesis by (rule limits_kept [OF laws(1,3) start complete])
qed

text \<open>
  C5. Only a request whose credentials were accepted changes the records: every presentation and every
  withdrawal in the history of the store is that of a request of the history to the endpoint in
  question, with the API key, a body that parses and is valid, for the challenge name and the value
  of its body. Everything else, DNS traffic included, only lets records expire.
\<close>

theorem only_authorized_requests_write:
  assumes "clap_law C" and "semaphore_law (sem_lib L)"
    and "startup H C (sem_lib L) args timestamp now = Some (Inr s0)"
    and "srv_run H ho L now (serving s0) tr ops t s"
  shows "(\<exists>t'\<le>t. store_run H ho now (sys_acme s0) ops t' (sys_acme (srv_system s))) \<and>
    (\<forall>p\<in>set ops. op_asked L (sys_config s0) tr p)"
proof -
  note ok = startup_sound(1) [OF assms(1-3)]
  have "\<exists>t'\<le>t. store_run H ho now (sys_acme s0) ops t' (sys_acme (srv_system s))"
    using srv_run_store [OF assms(2,4) ok] by auto
  with srv_run_asked [OF assms(2,4) ok] show ?thesis by simp
qed

text \<open>
  C9. No request is starved by the server: whatever the others are doing, a request in flight can go on
  to its response in at most five moves of its own, none of which waits for another request, and
  which leave all other requests where they are.
\<close>

theorem requests_can_finish:
  assumes "clap_law C" and "semaphore_law (sem_lib L)"
    and "startup H C (sem_lib L) args timestamp now = Some (Inr s0)"
    and "srv_run H ho L now (serving s0) tr ops t s" and "map_of (srv_tasks s) i = Some k"
  shows "\<exists>tr' ops' s' mv resp. srv_run H ho L t s (tr' @ [(Move i mv, Some (HttpReply resp))]) ops' t s' \<and>
    length tr' < 5 \<and> (\<forall>e\<in>set tr'. \<exists>mv. fst e = Move i mv) \<and> map_of (srv_tasks s') i = None \<and>
    (\<forall>j. j \<noteq> i \<longrightarrow> map_of (srv_tasks s') j = map_of (srv_tasks s) j)"
proof -
  have "srv_ok H s" using srv_run_ok [OF assms(2,4) startup_sound(1) [OF assms(1-3)]] by simp
  from srv_progress [OF assms(2) this assms(5), of ho t] obtain tr' ops' s' r where
    p: "srv_run H ho L t s (tr' @ [r]) ops' t s'" "length tr' < stage_rank (task_stage k)"
      "\<forall>e\<in>set (tr' @ [r]). \<exists>mv. fst e = Move i mv" "\<exists>resp. snd r = Some (HttpReply resp)"
      "map_of (srv_tasks s') i = None" "\<forall>j. j \<noteq> i \<longrightarrow> map_of (srv_tasks s') j = map_of (srv_tasks s) j"
    by auto
  have "stage_rank (task_stage k) \<le> 5" by (cases "task_stage k") simp_all
  with p(2) have "length tr' < 5" by simp
  moreover obtain mv resp where r: "r = (Move i mv, Some (HttpReply resp))" using p(3,4) by (cases r) auto
  moreover have "\<forall>e\<in>set tr'. \<exists>mv. fst e = Move i mv" using p(3) by simp
  ultimately show ?thesis using p(1) [unfolded r] p(5,6) by blast
qed

subsection \<open>The properties at a sample run\<close>

lemma sample_response:
  assumes "srv_run wire_hickory (\<lambda>rs. rs) demo_lib (Instant 0) (serving sample_system) tr ops t s"
  obtains m h' where "build_response wire_hickory u (demo_request challenge_text TXT) (dns_view (srv_system s)) = Some (m, h')"
proof -
  have "srv_ok wire_hickory s"
    using srv_run_ok [OF sample_semaphore assms startup_sound(1) [OF clap_law_decimal sample_semaphore wire_startup]]
    by simp
  from build_response_total [OF history_ok_views(1) [OF this], of u "demo_request challenge_text TXT"] that
  show thesis by metis
qed

lemma sample_challenge:
  "accepted wire_hickory (sys_config sample_system) (demo_request challenge_text TXT) (demo_query challenge_text TXT)"
  "q_type (demo_query challenge_text TXT) = TXT"
  "qname_text wire_hickory (q_name (demo_query challenge_text TXT)) = acme_name (sys_config sample_system)"
  using txt_challenge [of 150] by (simp_all add: sample_config_of challenge_query_defs)

lemma sample_replied:
  obtains y r s2 where
    "srv_run wire_hickory (\<lambda>rs. rs) demo_lib (Instant 0) (serving sample_system) (answered_trace ep) [sample_op ep]
      (Instant 3) (solo y ep good_request (Answering r))"
    "srv_step wire_hickory (\<lambda>rs. rs) demo_lib (Move 0 Respond) (solo y ep good_request (Answering r)) =
      Some (Some (HttpReply r), s2)" "status_code r = 200"
    "srv_run wire_hickory (\<lambda>rs. rs) demo_lib (Instant 0) (serving sample_system)
      (answered_trace ep @ [(Move 0 Respond, Some (HttpReply r))]) [sample_op ep] (Instant 3) s2"
proof (rule sample_answered [of ep])
  fix y r
  assume run: "srv_run wire_hickory (\<lambda>rs. rs) demo_lib (Instant 0) (serving sample_system) (answered_trace ep)
      [sample_op ep] (Instant 3) (solo y ep good_request (Answering r))" and r: "status_code r = 200"
  obtain s2 where s2: "srv_step wire_hickory (\<lambda>rs. rs) demo_lib (Move 0 Respond) (solo y ep good_request (Answering r)) =
      Some (Some (HttpReply r), s2)" using solo_reply(3) by blast
  from srv_event [OF run solo_reply(1) _ s2] r that [OF run s2] show thesis by (simp add: solo_def)
qed

lemma task_endpoint_of:
  "task_endpoint \<lparr>task_endpoint = ep, task_request = req, task_stage = Answering r\<rparr> = ep"
  by simp

lemma sample_body:
  "json_present demo_lib 1024
     (task_request \<lparr>task_endpoint = ep, task_request = good_request, task_stage = Answering r\<rparr>) =
   Inr demo_token"
  by simp

theorem presented_value_is_answered_witness:
  "\<exists>y r s2 m h' name.
     srv_step wire_hickory (\<lambda>rs. rs) demo_lib (Move 0 Respond) (solo y ToPresent good_request (Answering r)) =
       Some (Some (HttpReply r), s2) \<and> status_code r = 200 \<and>
     build_response wire_hickory (Instant 500) (demo_request challenge_text TXT) (dns_view (srv_system s2)) = Some (m, h') \<and>
     txt_record name 60 (present_value demo_token) \<in> set (answers m)"
proof (rule sample_replied [of ToPresent])
  fix y r s2
  assume run: "srv_run wire_hickory (\<lambda>rs. rs) demo_lib (Instant 0) (serving sample_system) (answered_trace ToPresent)
      [sample_op ToPresent] (Instant 3) (solo y ToPresent good_request (Answering r))"
    and s2: "srv_step wire_hickory (\<lambda>rs. rs) demo_lib (Move 0 Respond) (solo y ToPresent good_request (Answering r)) =
      Some (Some (HttpReply r), s2)" "status_code r = 200"
    and all: "srv_run wire_hickory (\<lambda>rs. rs) demo_lib (Instant 0) (serving sample_system)
      (answered_trace ToPresent @ [(Move 0 Respond, Some (HttpReply r))]) [sample_op ToPresent] (Instant 3) s2"
  obtain m h' where m: "build_response wire_hickory (Instant 500) (demo_request challenge_text TXT)
      (dns_view (srv_system s2)) = Some (m, h')" using sample_response [OF all] .
  note claim = presented_value_is_answered [OF clap_law_decimal sample_semaphore sample_timeout wire_response_law
      wire_startup run solo_reply(1,2) task_endpoint_of s2 sample_body srv_none]
  from claim have "\<exists>name. txt_record name (txt_ttl (sys_config sample_system)) (present_value demo_token) \<in> set (answers m)"
  proof (elim exE conjE, goal_cases)
    case (1 began later ops2)
    obtain ops1 where "[sample_op ToPresent] = ops1 @ Add began later (acme_name (sys_config sample_system))
        (present_value demo_token) # ops2" by (rule own_operation_ops [OF 1(1)])
    then have "ops2 = []" "later = Instant 3" by (auto simp: sample_op_def Cons_eq_append_conv)
    then show ?case
      using 1(2) [rule_format, of "Instant 500" "demo_request challenge_text TXT" "demo_query challenge_text TXT" m h']
        m sample_challenge by (simp add: sample_config_of token_lifetime_def duration_from_secs_def)
  qed
  then have "\<exists>name. txt_record name 60 (present_value demo_token) \<in> set (answers m)"
    by (simp add: sample_config_of)
  with s2 m show ?thesis by blast
qed

theorem withdrawn_value_is_gone_witness:
  "\<exists>y r s2 m h'.
     srv_step wire_hickory (\<lambda>rs. rs) demo_lib (Move 0 Respond) (solo y ToCleanup good_request (Answering r)) =
       Some (Some (HttpReply r), s2) \<and> status_code r = 200 \<and>
     build_response wire_hickory (Instant 500) (demo_request challenge_text TXT) (dns_view (srv_system s2)) = Some (m, h') \<and>
     (\<forall>record\<in>set (answers m). rr_data record \<noteq> RTXT [present_value demo_token])"
proof (rule sample_replied [of ToCleanup])
  fix y r s2
  assume run: "srv_run wire_hickory (\<lambda>rs. rs) demo_lib (Instant 0) (serving sample_system) (answered_trace ToCleanup)
      [sample_op ToCleanup] (Instant 3) (solo y ToCleanup good_request (Answering r))"
    and s2: "srv_step wire_hickory (\<lambda>rs. rs) demo_lib (Move 0 Respond) (solo y ToCleanup good_request (Answering r)) =
      Some (Some (HttpReply r), s2)" "status_code r = 200"
    and all: "srv_run wire_hickory (\<lambda>rs. rs) demo_lib (Instant 0) (serving sample_system)
      (answered_trace ToCleanup @ [(Move 0 Respond, Some (HttpReply r))]) [sample_op ToCleanup] (Instant 3) s2"
  obtain m h' where m: "build_response wire_hickory (Instant 500) (demo_request challenge_text TXT)
      (dns_view (srv_system s2)) = Some (m, h')" using sample_response [OF all] .
  note claim = withdrawn_value_is_gone [OF clap_law_decimal sample_semaphore sample_timeout wire_response_law
      wire_startup run solo_reply(1,2) task_endpoint_of s2 sample_body srv_none]
  from claim have "\<forall>record\<in>set (answers m). rr_data record \<noteq> RTXT [present_value demo_token]"
  proof (elim exE conjE, goal_cases)
    case (1 began later ops2)
    obtain ops1 where "[sample_op ToCleanup] = ops1 @ Remove began (acme_name (sys_config sample_system))
        (present_value demo_token) # ops2" by (rule own_operation_ops [OF 1(1)])
    then have "ops2 = []" by (auto simp: sample_op_def Cons_eq_append_conv)
    then show ?case
      using 1(2) [rule_format, of "Instant 500" "demo_request challenge_text TXT" "demo_query challenge_text TXT" m h']
        m sample_challenge by simp
  qed
  with s2 m show ?thesis by blast
qed

theorem challenge_always_delivered_witness:
  "\<exists>s reply s' d vs. srv_run wire_hickory (\<lambda>rs. rs) demo_lib (Instant 0) (serving sample_system)
       (answered_trace ToPresent) [sample_op ToPresent] (Instant 3) s \<and>
     srv_step wire_hickory (\<lambda>rs. rs) demo_lib (TcpMessage (Instant 4) [1]) s = Some (Some (DnsReply reply), s') \<and>
     from_vec wire_hickory reply = Some d \<and> map rr_data (answers d) = map (\<lambda>v. RTXT [v]) vs"
proof (rule sample_answered [of ToPresent])
  fix y r
  assume run: "srv_run wire_hickory (\<lambda>rs. rs) demo_lib (Instant 0) (serving sample_system) (answered_trace ToPresent)
      [sample_op ToPresent] (Instant 3) (solo y ToPresent good_request (Answering r))"
  have q: "challenge_lookup wire_hickory (sys_config sample_system) (demo_request challenge_text TXT)
      (demo_query challenge_text TXT)" "same_spelling wire_hickory (sys_config sample_system) (demo_query challenge_text TXT)"
    using txt_challenge [of 150] by (simp_all add: sample_config_of challenge_query_def)
  have le: "Instant 3 \<le> Instant 4" by simp
  from challenge_always_delivered [OF clap_law_decimal sample_semaphore fair_order_id txt_codec txt_tc_law
      wire_startup txt_drop_complete run le txt_request q(1)] run q(2)
  show ?thesis by blast
qed

theorem server_answers_always_witness:
  "\<exists>y r out s'. srv_run wire_hickory (\<lambda>rs. rs) demo_lib (Instant 0) (serving sample_system)
       (answered_trace ToPresent) [sample_op ToPresent] (Instant 3) (solo y ToPresent good_request (Answering r)) \<and>
     srv_step wire_hickory (\<lambda>rs. rs) demo_lib (Datagram (Instant 9) [1, 2, 3]) (solo y ToPresent good_request (Answering r)) =
       Some (out, s') \<and> free_permits demo_lib s' + in_flight s' = 64"
proof (rule sample_answered [of ToPresent])
  fix y :: "(string, nat) system" and r
  let ?s = "solo y ToPresent good_request (Answering r)"
  assume run: "srv_run wire_hickory (\<lambda>rs. rs) demo_lib (Instant 0) (serving sample_system) (answered_trace ToPresent)
      [sample_op ToPresent] (Instant 3) ?s"
  have "enabled (Datagram (Instant 9) [1, 2, 3]) ?s" by simp
  from server_answers_always [OF clap_law_decimal sample_semaphore wire_startup run this] run show ?thesis by blast
qed

theorem only_authorized_requests_write_witness:
  "op_asked demo_lib sample_config (answered_trace ToPresent) (sample_op ToPresent)"
proof (rule sample_answered [of ToPresent])
  fix y r
  assume run: "srv_run wire_hickory (\<lambda>rs. rs) demo_lib (Instant 0) (serving sample_system) (answered_trace ToPresent)
      [sample_op ToPresent] (Instant 3) (solo y ToPresent good_request (Answering r))"
  from only_authorized_requests_write [OF clap_law_decimal sample_semaphore wire_startup run]
  show ?thesis by (simp add: sample_config_of)
qed

theorem records_stay_in_limits_witness:
  "\<exists>s. srv_run wire_hickory (\<lambda>rs. rs) demo_lib (Instant 0) (serving sample_system)
       (answered_trace ToPresent) [sample_op ToPresent] (Instant 3) s \<and>
     card (rr_keys (store_view (sys_acme (srv_system s)))) \<le> 100"
proof (rule sample_answered [of ToPresent])
  fix y r
  assume run: "srv_run wire_hickory (\<lambda>rs. rs) demo_lib (Instant 0) (serving sample_system) (answered_trace ToPresent)
      [sample_op ToPresent] (Instant 3) (solo y ToPresent good_request (Answering r))"
  have "max_tokens (sys_config sample_system) = 100" by (simp add: sample_config_of)
  with records_stay_in_limits [OF clap_law_decimal sample_semaphore fair_order_id wire_startup run txt_drop_complete] run
  show ?thesis by metis
qed

lemma refresh_again:
  assumes "store_wf ar"
  shows "store_serial (refresh_zone u (refresh_zone u ar)) = store_serial (refresh_zone u ar)"
  using refresh_zone_view [OF assms, of u] refresh_zone_view(3) [of "refresh_zone u ar" u]
  by (auto simp: expire_def fun_eq_iff split: option.splits)

theorem same_serial_same_answer_witness:
  "\<exists>s1 out s2 m1 h1 m2 h2. srv_run wire_hickory (\<lambda>rs. rs) demo_lib (Instant 0) (serving sample_system)
       (answered_trace ToPresent) [sample_op ToPresent] (Instant 3) s1 \<and>
     srv_step wire_hickory (\<lambda>rs. rs) demo_lib (TcpMessage (Instant 4) [1]) s1 = Some (out, s2) \<and>
     build_response wire_hickory (Instant 4) (demo_request challenge_text TXT) (dns_view (srv_system s1)) = Some (m1, h1) \<and>
     build_response wire_hickory (Instant 4) (demo_request challenge_text TXT) (dns_view (srv_system s2)) = Some (m2, h2) \<and>
     rr_data ` set (answers m2) = rr_data ` set (answers m1)"
proof (rule sample_answered [of ToPresent])
  fix y :: "(string, nat) system" and r
  let ?s1 = "solo y ToPresent good_request (Answering r)"
  assume run: "srv_run wire_hickory (\<lambda>rs. rs) demo_lib (Instant 0) (serving sample_system) (answered_trace ToPresent)
      [sample_op ToPresent] (Instant 3) ?s1"
  have ok1: "srv_ok wire_hickory ?s1" "sys_config (srv_system ?s1) = sys_config sample_system"
    using srv_run_ok [OF sample_semaphore run startup_sound(1) [OF clap_law_decimal sample_semaphore wire_startup]]
    by simp_all
  obtain out s2 where s2: "srv_step wire_hickory (\<lambda>rs. rs) demo_lib (TcpMessage (Instant 4) [1]) ?s1 = Some (out, s2)"
      "srv_ok wire_hickory s2" "sys_config (srv_system s2) = sys_config sample_system"
    using srv_step_total [OF sample_semaphore ok1(1), of "TcpMessage (Instant 4) [1]"] ok1(2) by (metis enabled.simps(4))
  obtain m1 h1 where m1: "build_response wire_hickory (Instant 4) (demo_request challenge_text TXT)
      (dns_view (srv_system ?s1)) = Some (m1, h1)" using sample_response [OF run] .
  have step: "srv_run wire_hickory (\<lambda>rs. rs) demo_lib (Instant 0) (serving sample_system)
      (answered_trace ToPresent @ [(TcpMessage (Instant 4) [1], out)])
      ([sample_op ToPresent] @ effects wire_hickory (TcpMessage (Instant 4) [1]) ?s1) (Instant 4) s2"
    by (rule srv_event [OF run _ _ s2(1)]) simp_all
  obtain m2 h2 where m2: "build_response wire_hickory (Instant 4) (demo_request challenge_text TXT)
      (dns_view (srv_system s2)) = Some (m2, h2)" using sample_response [OF step] .
  have ev: "TcpMessage (Instant 4) [1] = TcpMessage (Instant 4) [1] \<or> TcpMessage (Instant 4) [1] = Datagram (Instant 4) [1]"
    and type: "message_type (demo_request challenge_text TXT) = QueryMessage"
    using txt_challenge by (simp_all add: challenge_query_defs)
  note one = answer_version [OF ok1 wire_response_law sample_challenge m1]
    and two = answer_version [OF s2(2,3) wire_response_law sample_challenge m2]
  have "sys_acme (srv_system s2) = refresh_zone (Instant 4) (sys_acme (srv_system ?s1))"
    using query_step_acme [OF ev txt_request type s2(1) m1] one(1) by simp
  then have same: "map (soa_serial \<circ> rr_data) (authorities m2) = map (soa_serial \<circ> rr_data) (authorities m1)"
    unfolding one(3) two(3) using one(1) two(1) refresh_again [OF history_ok_views(2) [OF ok1(1)]] by simp
  have "rr_data ` set (answers m2) = rr_data ` set (answers m1)"
    by (rule same_serial_same_answer [OF clap_law_decimal sample_semaphore wire_response_law wire_startup run _ ev
        txt_request type sample_challenge m1 s2(1) srv_none _ _ sample_challenge m2 same]) simp_all
  with run s2(1) m1 m2 show ?thesis by blast
qed

theorem requests_can_finish_witness:
  "\<exists>y r tr' ops' s' mv resp. length tr' < 5 \<and>
     srv_run wire_hickory (\<lambda>rs. rs) demo_lib (Instant 3) (solo y ToPresent good_request (Answering r))
       (tr' @ [(Move 0 mv, Some (HttpReply resp))]) ops' (Instant 3) s'"
proof (rule sample_answered [of ToPresent])
  fix y r
  assume run: "srv_run wire_hickory (\<lambda>rs. rs) demo_lib (Instant 0) (serving sample_system) (answered_trace ToPresent)
      [sample_op ToPresent] (Instant 3) (solo y ToPresent good_request (Answering r))"
  from requests_can_finish [OF clap_law_decimal sample_semaphore wire_startup run solo_reply(2)]
  show ?thesis by blast
qed

theorem requests_bounded_by_rate_witness:
  "check_times (answered_trace ToPresent) = [Instant 1] \<and>
   of_nat (length (filter passed (answered_trace ToPresent))) \<le> (200 + 20 * (1 / 10 ^ 9) * (1 + 1 / 2 ^ 49) + 1 :: rat)"
proof (rule sample_answered [of ToPresent])
  fix y r
  assume run: "srv_run wire_hickory (\<lambda>rs. rs) demo_lib (Instant 0) (serving sample_system) (answered_trace ToPresent)
      [sample_op ToPresent] (Instant 3) (solo y ToPresent good_request (Answering r))"
  have times: "check_times (answered_trace ToPresent) = [Instant 1]"
    by (simp add: answered_trace_def parsed_trace_def)
  from requests_bounded_by_rate [OF clap_law_decimal wire_startup run] times
  show ?thesis by (simp add: sample_config_of elapsed_def)
qed

end
